(* ===== verification/Prelude.thy ===== *)
theory Prelude
  imports Main "HOL-Library.Word"
begin

text \<open>
  Shared vocabulary of the development: the machine integers of the Rust sources, results
  (a Rust \<open>Result\<close> is a sum, \<open>Inl\<close> the error), the collections of rewrite rules the component
  theories fill, and the generic facts on results, lists and maps that several components use.
\<close>

section \<open>Types\<close>

type_synonym u16 = "16 word"
type_synonym u32 = "32 word"
type_synonym u64 = "64 word"

text \<open>Instants and time spans are integers: nanoseconds since the Unix epoch, nanoseconds.\<close>

type_synonym datetime = int
type_synonym time_delta = int

text \<open>Collections of rules: the unfolding rules of operations that are straight-line code, and the
  rules by which a step keeps the invariant of a run.\<close>

named_theorems relay_ops
named_theorems relay_inv

section \<open>Integer operations of the standard library\<close>

definition saturating_sub :: "'l::len word \<Rightarrow> 'l word \<Rightarrow> 'l word" where
  "saturating_sub a b = (if a < b then 0 else a - b)"

definition saturating_mul :: "'l::len word \<Rightarrow> 'l word \<Rightarrow> 'l word" where
  "saturating_mul a b = (if unat a * unat b < 2 ^ LENGTH('l) then a * b else - 1)"

definition checked_shl :: "'l::len word \<Rightarrow> u32 \<Rightarrow> 'l word option" where
  "checked_shl a n = (if unat n < LENGTH('l) then Some (push_bit (unat n) a) else None)"

text \<open>\<open>a + b\<close> as compiled: a build with debug assertions panics on overflow (\<open>None\<close>), a release
  build wraps around.\<close>

definition plain_add :: "bool \<Rightarrow> 'l::len word \<Rightarrow> 'l word \<Rightarrow> 'l word option" where
  "plain_add debug_assertions a b =
     (if debug_assertions \<and> 2 ^ LENGTH('l) \<le> unat a + unat b then None else Some (a + b))"

section \<open>Results\<close>

definition map_err :: "('e \<Rightarrow> 'f) \<Rightarrow> 'e + 'a \<Rightarrow> 'f + 'a" where
  "map_err f r = (case r of Inl e \<Rightarrow> Inl (f e) | Inr a \<Rightarrow> Inr a)"

definition res_bind :: "'e + 'a \<Rightarrow> ('a \<Rightarrow> 'e + 'b) \<Rightarrow> 'e + 'b" where
  "res_bind r f = (case r of Inl e \<Rightarrow> Inl e | Inr a \<Rightarrow> f a)"

text \<open>\<open>iter().map(f).collect::<Result<Vec<_>, _>>()\<close>: the first error ends the iteration.\<close>

fun collect_res :: "('a \<Rightarrow> 'e + 'b) \<Rightarrow> 'a list \<Rightarrow> 'e + 'b list" where
  "collect_res f [] = Inr []"
| "collect_res f (x # xs) =
     res_bind (f x) (\<lambda>y. res_bind (collect_res f xs) (\<lambda>ys. Inr (y # ys)))"

section \<open>Facts on integers\<close>

lemma unat_saturating_sub: "unat (saturating_sub a b) = unat a - unat b"
  by (simp add: saturating_sub_def word_less_nat_alt unat_sub_if')

lemma unat_minus_one_word: "unat (- 1 :: 'l::len word) = 2 ^ LENGTH('l) - 1"
  by (simp add: unsigned_minus_1_eq_mask mask_eq_exp_minus_1)

lemma unat_saturating_mul:
  "unat (saturating_mul a b :: 'l::len word) = min (unat a * unat b) (2 ^ LENGTH('l) - 1)"
proof (cases "unat a * unat b < 2 ^ LENGTH('l)")
  case True
  then show ?thesis by (simp add: saturating_mul_def unat_word_ariths)
next
  case False
  then show ?thesis by (simp add: saturating_mul_def unat_minus_one_word)
qed

lemma checked_shl_one:
  assumes "unat n < LENGTH('l::len)"
  shows "\<exists>f. checked_shl (1 :: 'l word) n = Some f \<and> unat f = 2 ^ unat n"
proof -
  have "unat (push_bit (unat n) (1 :: 'l word)) = 2 ^ unat n mod 2 ^ LENGTH('l)"
    unfolding unsigned_push_bit_eq by (simp add: take_bit_eq_mod push_bit_eq_mult)
  also have "\<dots> = 2 ^ unat n" using assms by simp
  finally show ?thesis using assms by (simp add: checked_shl_def)
qed

lemma unat_inc: "unat (a :: 'l::len word) < 2 ^ LENGTH('l) - 1 \<Longrightarrow> unat (a + 1) = unat a + 1"
  by (simp add: unat_word_ariths)

lemma plain_add_one:
  assumes "a < (b :: 'l::len word)"
  shows "plain_add dbg a 1 = Some (a + 1)" and "unat (a + 1) = unat a + 1"
proof -
  from assms have "unat a < unat b" by (simp add: word_less_nat_alt)
  moreover have "unat b < 2 ^ LENGTH('l)" by (rule unsigned_less)
  ultimately have le: "unat a < 2 ^ LENGTH('l) - 1" by linarith
  from le show "unat (a + 1) = unat a + 1" by (rule unat_inc)
  from le have "unat a + unat (1 :: 'l word) < 2 ^ LENGTH('l)" by simp
  then show "plain_add dbg a 1 = Some (a + 1)" by (simp add: plain_add_def not_le)
qed

lemma mixed_radix_le:
  fixes s1 s2 n1 n2 k :: nat
  assumes "n1 < k" and "n2 < k"
  shows "s1 * k + n1 \<le> s2 * k + n2 \<longleftrightarrow> s1 < s2 \<or> s1 = s2 \<and> n1 \<le> n2"
proof (cases s1 s2 rule: linorder_cases)
  case less
  then have "Suc s1 * k \<le> s2 * k" by (intro mult_le_mono1) simp
  with less assms(1) show ?thesis by simp
next
  case greater
  then have "Suc s2 * k \<le> s1 * k" by (intro mult_le_mono1) simp
  with greater assms(2) show ?thesis by simp
qed simp

section \<open>Facts on results\<close>

lemma map_err_simps [simp]:
  "map_err f (Inl e) = Inl (f e)"
  "map_err f (Inr a) = Inr a"
  by (simp_all add: map_err_def)

lemma res_bind_simps [simp]:
  "res_bind (Inl e) f = Inl e"
  "res_bind (Inr a) f = f a"
  by (simp_all add: res_bind_def)

lemma res_bind_eq_Inr_iff: "res_bind r f = Inr b \<longleftrightarrow> (\<exists>a. r = Inr a \<and> f a = Inr b)"
  by (cases r) auto

lemma map_err_eq_Inr_iff [simp]: "map_err f r = Inr a \<longleftrightarrow> r = Inr a"
  by (cases r) auto

lemma map_err_eq_Inl_iff: "map_err f r = Inl e \<longleftrightarrow> (\<exists>x. r = Inl x \<and> e = f x)"
  by (cases r) auto

lemma collect_res_Inr:
  assumes "\<And>x. x \<in> set xs \<Longrightarrow> f x = Inr (g x)"
  shows "collect_res f xs = Inr (map g xs)"
  using assms by (induction xs) auto

lemma collect_res_eq_Inr_iff:
  "collect_res f xs = Inr ys \<longleftrightarrow> list_all2 (\<lambda>x y. f x = Inr y) xs ys"
proof (induction xs arbitrary: ys)
  case Nil
  then show ?case by (cases ys) auto
next
  case (Cons x xs)
  then show ?case by (cases ys) (auto simp: res_bind_eq_Inr_iff)
qed

lemma collect_res_first_error:
  assumes "\<And>x. x \<in> set xs \<Longrightarrow> \<exists>y. f x = Inr y" and "f z = Inl e"
  shows "collect_res f (xs @ z # zs) = Inl e"
  using assms by (induction xs) force+

lemma collect_res_error_iff: "(\<exists>e. collect_res f xs = Inl e) \<longleftrightarrow> (\<exists>x \<in> set xs. \<exists>e. f x = Inl e)"
proof (induction xs)
  case (Cons x xs)
  then show ?case
    by (cases "f x"; cases "collect_res f xs") auto
qed simp

section \<open>Facts on lists and maps\<close>

lemma filter_take_sorted:
  assumes "sorted (map k xs)" and "x \<in> set (take n xs)" and "y \<in> set (drop n xs)"
  shows "k x \<le> (k y :: 'b :: linorder)"
proof -
  from assms(1) have "sorted (map k (take n xs) @ map k (drop n xs))"
    by (metis append_take_drop_id map_append)
  with assms(2,3) show ?thesis by (auto simp: sorted_append)
qed

lemma append_split_longer:
  "a @ c = n @ r \<Longrightarrow> length n \<le> length a \<Longrightarrow> \<exists>a2. a = n @ a2 \<and> r = a2 @ c"
  by (auto simp: append_eq_append_conv2)

lemma map_of_map_key:
  "(\<And>a b. f a = f b \<Longrightarrow> a = b) \<Longrightarrow> map_of (map (\<lambda>(a, v). (f a, v)) xs) (f k) = map_of xs k"
  by (induction xs) auto

lemma map_of_rev_distinct: "distinct (map fst xs) \<Longrightarrow> map_of (rev xs) = map_of xs"
  by (induction xs) (auto simp: map_add_upd_left map_of_eq_None_iff dom_map_of_conv_image_fst)

lemma not_image: "y \<notin> f ` S \<Longrightarrow> x \<in> S \<Longrightarrow> f x \<noteq> y"
  by blast

lemma length_filter_eq_card:
  assumes "distinct (map f xs)"
  shows "length (filter P xs) = card (f ` {x \<in> set xs. P x})"
proof -
  from assms have "distinct (map f (filter P xs))"
    by (simp add: distinct_map inj_on_def)
  then have "card (set (map f (filter P xs))) = length (map f (filter P xs))"
    by (rule distinct_card)
  then show ?thesis by simp
qed

end
