(* ===== verification/Rust_Text.thy ===== *)
theory Rust_Text
  imports Prelude "HOL-Library.Sublist" "HOL-Library.List_Lexorder" "HOL-Library.Char_ord"
begin

text \<open>
  The operations of Rust's \<open>str\<close> the relay uses. A Rust string is its UTF-8 bytes, a
  \<open>string\<close> here: \<open>trim\<close> therefore removes the byte sequences that encode the characters with
  Unicode's White\_Space property, and comparison of strings (the keys of a \<open>BTreeMap\<close>, the
  BINARY collation of SQLite) is the lexicographic order on bytes of \<open>HOL-Library.List_Lexorder\<close>.
  \<open>str::replace\<close> is only called with non-empty patterns.
\<close>

section \<open>Operations\<close>

definition white_space :: "string list" where
  "white_space =
     map (\<lambda>c. [c]) [CHR 0x09, CHR 0x0A, CHR 0x0B, CHR 0x0C, CHR 0x0D, CHR 0x20] @
     [[CHR 0xC2, CHR 0x85], [CHR 0xC2, CHR 0xA0], [CHR 0xE1, CHR 0x9A, CHR 0x80]] @
     map (\<lambda>c. [CHR 0xE2, CHR 0x80, c])
       [CHR 0x80, CHR 0x81, CHR 0x82, CHR 0x83, CHR 0x84, CHR 0x85, CHR 0x86, CHR 0x87,
        CHR 0x88, CHR 0x89, CHR 0x8A, CHR 0xA8, CHR 0xA9, CHR 0xAF] @
     [[CHR 0xE2, CHR 0x81, CHR 0x9F], [CHR 0xE3, CHR 0x80, CHR 0x80]]"

text \<open>Strip sequences of a given set from the front, as often as one matches.\<close>

function strip_seqs :: "string list \<Rightarrow> string \<Rightarrow> string" where
  "strip_seqs ws s =
     (case find (\<lambda>w. w \<noteq> [] \<and> prefix w s) ws of
        None \<Rightarrow> s
      | Some w \<Rightarrow> strip_seqs ws (drop (length w) s))"
  by pat_completeness auto
termination
  by (relation "measure (\<lambda>(ws, s). length s)") (auto simp: find_Some_iff prefix_def)

declare strip_seqs.simps [simp del]

definition trim_start :: "string \<Rightarrow> string" where
  "trim_start s = strip_seqs white_space s"

definition trim_end :: "string \<Rightarrow> string" where
  "trim_end s = rev (strip_seqs (map rev white_space) (rev s))"

definition trim :: "string \<Rightarrow> string" where
  "trim s = trim_end (trim_start s)"

definition trim_start_matches :: "char \<Rightarrow> string \<Rightarrow> string" where
  "trim_start_matches c s = dropWhile (\<lambda>x. x = c) s"

definition trim_end_matches :: "char \<Rightarrow> string \<Rightarrow> string" where
  "trim_end_matches c s = rev (dropWhile (\<lambda>x. x = c) (rev s))"

definition starts_with :: "string \<Rightarrow> string \<Rightarrow> bool" where
  "starts_with s p = prefix p s"

fun contains_str :: "string \<Rightarrow> string \<Rightarrow> bool" where
  "contains_str [] p = (p = [])"
| "contains_str (x # xs) p = (prefix p (x # xs) \<or> contains_str xs p)"

definition strip_suffix :: "string \<Rightarrow> string \<Rightarrow> string option" where
  "strip_suffix s suf =
     (if suffix suf s then Some (take (length s - length suf) s) else None)"

definition to_ascii_lowercase :: "char \<Rightarrow> char" where
  "to_ascii_lowercase c =
     (let n = (of_char c :: nat) in if 65 \<le> n \<and> n \<le> 90 then char_of (n + 32) else c)"

definition eq_ignore_ascii_case :: "string \<Rightarrow> string \<Rightarrow> bool" where
  "eq_ignore_ascii_case a b = (map to_ascii_lowercase a = map to_ascii_lowercase b)"

function replace_str :: "string \<Rightarrow> string \<Rightarrow> string \<Rightarrow> string" where
  "replace_str p t s =
     (if p = [] \<or> s = [] then s
      else if prefix p s then t @ replace_str p t (drop (length p) s)
      else hd s # replace_str p t (tl s))"
  by pat_completeness auto
termination
  by (relation "measure (\<lambda>(p, t, s). length s)") auto

declare replace_str.simps [simp del]

text \<open>\<open>{:?}\<close> on a string and on an optional string. Quotes, backslashes and ASCII control
  characters are escaped; bytes of multi-byte characters are printed as they are.\<close>

definition hex_digit :: "nat \<Rightarrow> char" where
  "hex_digit n = (if n < 10 then char_of (48 + n) else char_of (87 + n))"

definition escape_debug :: "char \<Rightarrow> string" where
  "escape_debug c =
     (let n = (of_char c :: nat) in
      if n = 0 then [CHR 0x5C, CHR ''0'']
      else if n = 9 then [CHR 0x5C, CHR ''t'']
      else if n = 10 then [CHR 0x5C, CHR ''n'']
      else if n = 13 then [CHR 0x5C, CHR ''r'']
      else if n = 34 \<or> n = 92 then [CHR 0x5C, c]
      else if n < 16 then [CHR 0x5C, CHR ''u'', CHR 0x7B, hex_digit n, CHR 0x7D]
      else if n < 32 \<or> n = 127 then
        [CHR 0x5C, CHR ''u'', CHR 0x7B, hex_digit (n div 16), hex_digit (n mod 16), CHR 0x7D]
      else [c])"

definition debug_str :: "string \<Rightarrow> string" where
  "debug_str s = CHR 0x22 # concat (map escape_debug s) @ [CHR 0x22]"

fun debug_opt_str :: "string option \<Rightarrow> string" where
  "debug_opt_str None = ''None''"
| "debug_opt_str (Some s) = ''Some('' @ debug_str s @ '')''"

section \<open>Facts\<close>

lemma contains_str_iff: "contains_str s p \<longleftrightarrow> (\<exists>a b. s = a @ p @ b)"
proof (induction s)
  case Nil
  then show ?case by auto
next
  case (Cons x xs)
  have "(\<exists>a b. x # xs = a @ p @ b) \<longleftrightarrow> prefix p (x # xs) \<or> (\<exists>a b. xs = a @ p @ b)"
    by (auto simp: prefix_def Cons_eq_append_conv)
  with Cons.IH show ?case by simp
qed

lemma contains_strI [intro]: "contains_str (a @ p @ b) p"
  by (auto simp: contains_str_iff)

lemma strip_suffix_append [simp]: "strip_suffix (s @ suf) suf = Some s"
  by (simp add: strip_suffix_def suffix_def)

lemma strip_suffix_Some_iff: "strip_suffix s suf = Some r \<longleftrightarrow> s = r @ suf"
  by (auto simp: strip_suffix_def suffix_def)

lemma strip_suffix_None_iff: "strip_suffix s suf = None \<longleftrightarrow> \<not> suffix suf s"
  by (simp add: strip_suffix_def)

lemma eq_ignore_ascii_case_refl [simp]: "eq_ignore_ascii_case s s"
  by (simp add: eq_ignore_ascii_case_def)

lemma replace_str_Nil [simp]: "replace_str p t [] = []"
  by (subst replace_str.simps) simp

lemma replace_str_match: "p \<noteq> [] \<Longrightarrow> replace_str p t (p @ s) = t @ replace_str p t s"
  by (subst replace_str.simps) simp

lemma replace_str_skip:
  "\<not> prefix p (x # s) \<Longrightarrow> replace_str p t (x # s) = x # replace_str p t s"
  by (subst replace_str.simps) (cases "p = []"; simp)

lemma replace_str_absent: "\<not> contains_str s p \<Longrightarrow> replace_str p t s = s"
  by (induction s) (simp_all add: replace_str_skip)

text \<open>A segment that shares no character with the pattern's first one is copied.\<close>

lemma replace_str_copy:
  assumes "c \<notin> set a"
  shows "replace_str (c # p) t (a @ s) = a @ replace_str (c # p) t s"
  using assms by (induction a) (simp_all add: replace_str_skip)

text \<open>What is found in the string after the first replacement is kept.\<close>

lemma contains_str_append [simp, intro]: "contains_str s p \<Longrightarrow> contains_str (a @ s) p"
  by (auto simp: contains_str_iff) (metis append.assoc)

lemma contains_replace_target:
  assumes "contains_str s p" and "p \<noteq> []"
  shows "contains_str (replace_str p t s) t"
  using assms
proof (induction p t s rule: replace_str.induct)
  case (1 p t s)
  show ?case
  proof (cases "prefix p s")
    case True
    with 1(4) show ?thesis
      by (cases "s = []") (auto simp: replace_str.simps [of p t s] contains_str_iff
          intro: exI [of _ "[]"])
  next
    case False
    from 1(3,4) have "s \<noteq> []" by (cases s) auto
    with False 1(3) have "contains_str (tl s) p" by (cases s) auto
    with 1(2) False \<open>s \<noteq> []\<close> 1(4) have "contains_str (replace_str p t (tl s)) t" by blast
    then have "contains_str ([hd s] @ replace_str p t (tl s)) t"
      by (rule contains_str_append)
    with False \<open>s \<noteq> []\<close> 1(4) show ?thesis by (simp add: replace_str.simps [of p t s])
  qed
qed

end
