(* ===== verification/Core_Message.thy ===== *)
theory Core_Message
  imports Rust_Text
begin

text \<open>
  Models \<open>crates/core/src/message.rs\<close> and \<open>crates/core/src/error.rs\<close>: the address, the payload
  handed over by an ingress, the queued mail with its delivery metadata, and the core errors with
  the text \<open>thiserror\<close> prints for them. A mail id is a UUID, 128 bits.
\<close>

section \<open>Errors\<close>

datatype core_error =
    InvalidMail string
  | NotFound string
  | Transport string
  | Queue string

fun core_error_to_string :: "core_error \<Rightarrow> string" where
  "core_error_to_string (InvalidMail s) = ''invalid mail: '' @ s"
| "core_error_to_string (NotFound s) = ''mail not found: '' @ s"
| "core_error_to_string (Transport s) = ''transport error: '' @ s"
| "core_error_to_string (Queue s) = ''queue error: '' @ s"

section \<open>Messages\<close>

type_synonym mail_id = "128 word"

record address =
  email :: string
  addr_name :: "string option"

definition address_new :: "string \<Rightarrow> address" where
  "address_new e = \<lparr>email = e, addr_name = None\<rparr>"

datatype mail_status = Pending | Sending | Sent | Failed | Dead

record new_mail =
  nm_from :: address
  nm_to :: "address list"
  nm_subject :: string
  nm_body :: string
  nm_transport :: "string option"

definition validate_mail :: "new_mail \<Rightarrow> core_error + unit" where
  "validate_mail m =
     (if trim (email (nm_from m)) = [] then Inl (InvalidMail ''sender address is empty'')
      else if nm_to m = [] then Inl (InvalidMail ''no recipients given'')
      else if trim (nm_subject m) = [] then Inl (InvalidMail ''subject is empty'')
      else Inr ())"

record mail =
  id_of :: mail_id
  from_addr :: address
  to_addrs :: "address list"
  subject :: string
  body :: string
  transport :: "string option"
  status :: mail_status
  attempts :: u32
  last_error :: "string option"
  created_at :: datetime
  updated_at :: datetime
  next_attempt_at :: datetime

definition from_new :: "new_mail \<Rightarrow> datetime \<Rightarrow> mail_id \<Rightarrow> mail" where
  "from_new new now i =
     \<lparr>id_of = i, from_addr = nm_from new, to_addrs = nm_to new, subject = nm_subject new,
      body = nm_body new, transport = nm_transport new, status = Pending, attempts = 0,
      last_error = None, created_at = now, updated_at = now, next_attempt_at = now\<rparr>"

section \<open>Facts\<close>

text \<open>What a mail is about, as opposed to how far its delivery has got.\<close>

definition content ::
  "mail \<Rightarrow> mail_id \<times> address \<times> address list \<times> string \<times> string \<times> string option \<times> datetime" where
  "content m = (id_of m, from_addr m, to_addrs m, subject m, body m, transport m, created_at m)"

definition live :: "mail \<Rightarrow> bool" where
  "live m = (status m = Pending \<or> status m = Failed)"

definition terminal :: "mail \<Rightarrow> bool" where
  "terminal m = (status m = Sent \<or> status m = Dead)"

lemma validate_mail_ok_iff [simp]:
  "validate_mail m = Inr u \<longleftrightarrow>
     trim (email (nm_from m)) \<noteq> [] \<and> nm_to m \<noteq> [] \<and> trim (nm_subject m) \<noteq> []"
  by (simp add: validate_mail_def)

lemma from_new_simps [simp]:
  "id_of (from_new n t i) = i"
  "from_addr (from_new n t i) = nm_from n"
  "to_addrs (from_new n t i) = nm_to n"
  "subject (from_new n t i) = nm_subject n"
  "body (from_new n t i) = nm_body n"
  "transport (from_new n t i) = nm_transport n"
  "status (from_new n t i) = Pending"
  "attempts (from_new n t i) = 0"
  "last_error (from_new n t i) = None"
  "created_at (from_new n t i) = t"
  "updated_at (from_new n t i) = t"
  "next_attempt_at (from_new n t i) = t"
  by (simp_all add: from_new_def)

lemma email_address_new [simp]: "email (address_new e) = e" "addr_name (address_new e) = None"
  by (simp_all add: address_new_def)

lemma live_not_terminal: "live m \<Longrightarrow> \<not> terminal m"
  by (auto simp: live_def terminal_def)

end
