(* ===== verification/Keyed_Maps.thy ===== *)
theory Keyed_Maps
  imports Rust_Text "HOL-Library.AList"
begin

text \<open>
  The two standard maps of the sources, both keyed by strings. A \<open>BTreeMap\<close> is the list of its
  entries in iteration order, that is in ascending byte order of the keys; a \<open>HashMap\<close> is the
  list of its entries in some order. The locale \<open>key_map\<close> is what a client of either relies on
  (lookup after insert, the invariant); its lemmas about a loop that inserts a sequence of pairs
  are used for the plugin settings, for the \<open>config\<close> map of a script and for the table of
  transports.
\<close>

section \<open>The maps\<close>

type_synonym 'v btree_map = "(string \<times> 'v) list"

definition bt_wf :: "'v btree_map \<Rightarrow> bool" where
  "bt_wf m = sorted_wrt (<) (map fst m)"

definition bt_get :: "'v btree_map \<Rightarrow> string \<Rightarrow> 'v option" where
  "bt_get m k = map_of m k"

fun bt_insert :: "string \<Rightarrow> 'v \<Rightarrow> 'v btree_map \<Rightarrow> 'v btree_map" where
  "bt_insert k v [] = [(k, v)]"
| "bt_insert k v ((k', v') # m) =
     (if k < k' then (k, v) # (k', v') # m
      else if k = k' then (k, v) # m
      else (k', v') # bt_insert k v m)"

type_synonym 'v hash_map = "(string \<times> 'v) list"

definition hm_wf :: "'v hash_map \<Rightarrow> bool" where
  "hm_wf m = distinct (map fst m)"

definition hm_get :: "'v hash_map \<Rightarrow> string \<Rightarrow> 'v option" where
  "hm_get m k = map_of m k"

definition hm_insert :: "string \<Rightarrow> 'v \<Rightarrow> 'v hash_map \<Rightarrow> 'v hash_map" where
  "hm_insert k v m = AList.update k v m"

definition hm_contains_key :: "'v hash_map \<Rightarrow> string \<Rightarrow> bool" where
  "hm_contains_key m k = (map_of m k \<noteq> None)"

section \<open>The interface\<close>

locale key_map =
  fixes emp :: "'m"
    and get :: "'m \<Rightarrow> string \<Rightarrow> 'v option"
    and ins :: "string \<Rightarrow> 'v \<Rightarrow> 'm \<Rightarrow> 'm"
    and wf :: "'m \<Rightarrow> bool"
  assumes wf_emp: "wf emp"
    and get_emp: "get emp k = None"
    and wf_ins: "wf m \<Longrightarrow> wf (ins k v m)"
    and get_ins: "wf m \<Longrightarrow> get (ins k v m) k' = (if k' = k then Some v else get m k')"
begin

lemma wf_insert_all: "wf m \<Longrightarrow> wf (fold (\<lambda>(k, v). ins k v) kvs m)"
  by (induction kvs arbitrary: m) (auto simp: wf_ins)

text \<open>A loop that inserts pairs in order leaves, under each key, the last value inserted.\<close>

lemma get_insert_all:
  "wf m \<Longrightarrow> get (fold (\<lambda>(k, v). ins k v) kvs m) k' =
     (case map_of (rev kvs) k' of None \<Rightarrow> get m k' | Some v \<Rightarrow> Some v)"
proof (induction kvs arbitrary: m)
  case Nil
  then show ?case by simp
next
  case (Cons kv kvs)
  obtain k v where kv: "kv = (k, v)" by (cases kv)
  from Cons.IH [OF wf_ins [OF Cons.prems, of k v]] Cons.prems show ?case
    by (auto simp: kv get_ins map_add_def split: option.splits)
qed

lemma get_insert_all_emp:
  "get (fold (\<lambda>(k, v). ins k v) kvs emp) k = map_of (rev kvs) k"
  by (simp add: get_insert_all wf_emp get_emp split: option.split)

end

section \<open>Both maps implement it\<close>

lemma fst_set_bt_insert: "fst ` set (bt_insert k v m) = insert k (fst ` set m)"
  by (induction k v m rule: bt_insert.induct) auto

lemma bt_wf_insert: "bt_wf m \<Longrightarrow> bt_wf (bt_insert k v m)"
proof (induction k v m rule: bt_insert.induct)
  case (2 k v k' v' m)
  then show ?case
    using fst_set_bt_insert [of k v m] by (fastforce simp: bt_wf_def)
qed (simp add: bt_wf_def)

lemma bt_get_insert:
  "bt_wf m \<Longrightarrow> bt_get (bt_insert k v m) k' = (if k' = k then Some v else bt_get m k')"
proof (induction k v m rule: bt_insert.induct)
  case (2 k v k1 v1 m)
  then show ?case by (auto simp: bt_wf_def bt_get_def)
qed (simp add: bt_get_def)

interpretation bt: key_map "[]" bt_get bt_insert bt_wf
proof
  show "bt_wf []" by (simp add: bt_wf_def)
  show "bt_get [] k = None" for k by (simp add: bt_get_def)
qed (auto intro: bt_wf_insert simp: bt_get_insert)

interpretation hm: key_map "[]" hm_get hm_insert hm_wf
proof
  show "hm_wf []" by (simp add: hm_wf_def)
  show "hm_get [] k = None" for k by (simp add: hm_get_def)
  show "hm_wf (hm_insert k v m)" if "hm_wf m" for k v m
    using that unfolding hm_wf_def hm_insert_def by (rule distinct_update)
  show "hm_get (hm_insert k v m) k' = (if k' = k then Some v else hm_get m k')" for k v m k'
    by (simp add: hm_get_def hm_insert_def update_conv)
qed

lemma bt_wf_distinct: "bt_wf m \<Longrightarrow> distinct (map fst m)"
  unfolding bt_wf_def by (induction m) auto

lemma bt_get_iff: "bt_wf m \<Longrightarrow> bt_get m k = Some v \<longleftrightarrow> (k, v) \<in> set m"
  by (simp add: bt_get_def bt_wf_distinct)

text \<open>In a \<open>BTreeMap\<close>, a key that extends another one is visited after it.\<close>

lemma less_append: "b \<noteq> [] \<Longrightarrow> (a :: string) < a @ b"
  by (induction a) (auto simp: neq_Nil_conv)

end
