(* ===== verification/Core_Routing.thy ===== *)
theory Core_Routing
  imports Core_Message Keyed_Maps
begin

text \<open>
  Models the routing part of \<open>crates/core/src/config.rs\<close>: the rules of the \<open>[routing]\<close> section,
  their expansion into delivery targets and the decision for a sender.
\<close>

section \<open>Rules and decisions\<close>

record route_target_config =
  tc_transport :: string
  tc_recipients :: "string list"

record route_rule =
  rr_transport :: "string option"
  rr_recipients :: "string list"
  rr_targets :: "route_target_config list"

record routing_config =
  rc_default :: "route_rule option"
  rc_senders :: "route_rule btree_map"

record route_target =
  rt_transport :: string
  rt_recipients :: "address list option"

datatype route = Reject | Deliver "route_target list"

definition recipient_override :: "string list \<Rightarrow> address list option" where
  "recipient_override rs = (if rs = [] then None else Some (map address_new rs))"

definition expand :: "route_rule \<Rightarrow> route_target list" where
  "expand r =
     (if rr_targets r \<noteq> [] then
        map (\<lambda>t. \<lparr>rt_transport = tc_transport t,
                   rt_recipients = recipient_override (tc_recipients t)\<rparr>)
          (filter (\<lambda>t. \<not> eq_ignore_ascii_case (tc_transport t) ''reject'') (rr_targets r))
      else
        (case rr_transport r of
           Some t \<Rightarrow>
             (if \<not> eq_ignore_ascii_case t ''reject'' then
                [\<lparr>rt_transport = t, rt_recipients = recipient_override (rr_recipients r)\<rparr>]
              else [])
         | None \<Rightarrow> []))"

definition is_active :: "routing_config \<Rightarrow> bool" where
  "is_active c = (rc_default c \<noteq> None \<or> rc_senders c \<noteq> [])"

definition resolve :: "routing_config \<Rightarrow> string \<Rightarrow> route" where
  "resolve c sender =
     (let rule = (case bt_get (rc_senders c) sender of
                    Some r \<Rightarrow> Some r
                  | None \<Rightarrow> rc_default c)
      in case rule of
           Some r \<Rightarrow> (let targets = expand r in if targets = [] then Reject else Deliver targets)
         | None \<Rightarrow> Reject)"

section \<open>Facts\<close>

definition is_reject :: "string \<Rightarrow> bool" where
  "is_reject t = eq_ignore_ascii_case t ''reject''"

text \<open>The targets a rule asks for, before \<open>"reject"\<close> entries are dropped.\<close>

definition requested :: "route_rule \<Rightarrow> (string \<times> string list) list" where
  "requested r =
     (if rr_targets r \<noteq> [] then map (\<lambda>t. (tc_transport t, tc_recipients t)) (rr_targets r)
      else case rr_transport r of None \<Rightarrow> [] | Some t \<Rightarrow> [(t, rr_recipients r)])"

lemma expand_requested:
  "expand r =
     map (\<lambda>(t, rs). \<lparr>rt_transport = t, rt_recipients = recipient_override rs\<rparr>)
       (filter (\<lambda>(t, rs). \<not> is_reject t) (requested r))"
  by (auto simp: expand_def requested_def is_reject_def filter_map comp_def split: option.split)

lemma expand_no_reject: "t \<in> set (expand r) \<Longrightarrow> \<not> is_reject (rt_transport t)"
  by (auto simp: expand_requested)

lemma expand_empty_iff: "expand r = [] \<longleftrightarrow> (\<forall>(t, rs) \<in> set (requested r). is_reject t)"
  by (auto simp: expand_requested filter_empty_conv)

lemma expand_recipients_nonempty:
  "t \<in> set (expand r) \<Longrightarrow> rt_recipients t \<noteq> Some []"
  by (auto simp: expand_requested recipient_override_def split: if_splits)

section \<open>Properties\<close>

text \<open>C27: Routing decision, on every branch: the rule of the sender is used when there is one and
  the default otherwise; the mail is delivered to exactly the requested targets of that rule that
  are not \<open>"reject"\<close> in any ASCII case, in order, each with its recipient override when the
  override is not empty; it is rejected exactly when there is no rule or every requested target
  of it is \<open>"reject"\<close> (or there is none).\<close>

theorem resolve_decision:
  "resolve c sender =
     (case (case bt_get (rc_senders c) sender of Some r \<Rightarrow> Some r | None \<Rightarrow> rc_default c) of
        None \<Rightarrow> Reject
      | Some r \<Rightarrow>
          (if \<forall>(t, rs) \<in> set (requested r). is_reject t then Reject
           else Deliver
             (map (\<lambda>(t, rs). \<lparr>rt_transport = t,
                   rt_recipients = (if rs = [] then None else Some (map address_new rs))\<rparr>)
               (filter (\<lambda>(t, rs). \<not> is_reject t) (requested r)))))"
  unfolding resolve_def Let_def expand_empty_iff
  by (simp add: expand_requested recipient_override_def split: option.split)

theorem resolve_decision_witness:
  "resolve \<lparr>rc_default = None, rc_senders =
      [(''a@x'', \<lparr>rr_transport = None, rr_recipients = [], rr_targets =
          [\<lparr>tc_transport = ''REJECT'', tc_recipients = []\<rparr>,
           \<lparr>tc_transport = ''ntfy'', tc_recipients = [''ops@x'']\<rparr>]\<rparr>)]\<rparr> ''a@x''
   = Deliver [\<lparr>rt_transport = ''ntfy'', rt_recipients = Some [address_new ''ops@x'']\<rparr>]"
  unfolding resolve_decision
  by (simp add: bt_get_def requested_def is_reject_def eq_ignore_ascii_case_def
      to_ascii_lowercase_def char_of_def bit_0)

text \<open>A delivery decision always names at least one target, and none of its targets is the
  pseudo transport \<open>"reject"\<close>; an empty recipient override never reaches a target.\<close>

lemma resolve_targets_deliverable:
  assumes "resolve c sender = Deliver ts"
  shows "ts \<noteq> [] \<and> (\<forall>t \<in> set ts. \<not> is_reject (rt_transport t) \<and> rt_recipients t \<noteq> Some [])"
proof -
  from assms obtain r where "ts = expand r" and "ts \<noteq> []"
    by (auto simp: resolve_def Let_def split: option.splits if_splits)
  then show ?thesis
    using expand_no_reject expand_recipients_nonempty by blast
qed

end
