(* ===== verification/Core_Auth.thy ===== *)
theory Core_Auth
  imports Core_Message Keyed_Maps
begin

text \<open>
  Models the authentication part of \<open>crates/core/src/config.rs\<close> with its error type. The process
  environment is a parameter: \<open>env v\<close> is the value of the variable \<open>v\<close>, \<open>None\<close> when
  \<open>std::env::var\<close> fails for it.
\<close>

section \<open>Configuration errors and secrets\<close>

datatype config_error =
    Read string string
  | Parse string
  | Invalid string
  | MissingEnv string

fun config_error_to_string :: "config_error \<Rightarrow> string" where
  "config_error_to_string (Read p s) = ''could not read config file '' @ p @ '': '' @ s"
| "config_error_to_string (Parse s) = ''could not parse config: '' @ s"
| "config_error_to_string (Invalid s) = ''invalid config: '' @ s"
| "config_error_to_string (MissingEnv v) = ''environment variable '' @ v @ '' is not set''"

definition resolve_env :: "(string \<Rightarrow> string option) \<Rightarrow> string \<Rightarrow> config_error + string" where
  "resolve_env env v = (case env v of Some s \<Rightarrow> Inr s | None \<Rightarrow> Inl (MissingEnv v))"

section \<open>Authentication\<close>

record anonymous_auth =
  anon_enabled :: bool
  subject_match :: "string option"

record service_auth =
  sa_username :: string
  sa_password_env :: string

definition service_password :: "(string \<Rightarrow> string option) \<Rightarrow> service_auth \<Rightarrow> config_error + string" where
  "service_password env s = resolve_env env (sa_password_env s)"

record self_register_auth =
  sr_enabled :: bool

record auth_config =
  anonymous :: anonymous_auth
  services :: "service_auth btree_map"
  self_register :: self_register_auth

fun authenticate_services ::
  "(string \<Rightarrow> string option) \<Rightarrow> service_auth btree_map \<Rightarrow> string \<Rightarrow> string \<Rightarrow>
   (config_error + string option) option" where
  "authenticate_services env [] user pw = None"
| "authenticate_services env ((name, s) # ss) user pw =
     (if sa_username s = user then
        Some (res_bind (service_password env s)
                (\<lambda>p. if p = pw then Inr (Some name) else Inr None))
      else authenticate_services env ss user pw)"

text \<open>The loop over the services returns from the function (\<open>Some\<close>) at the first service with
  the user name; after the loop, self-registration decides.\<close>

definition authenticate ::
  "(string \<Rightarrow> string option) \<Rightarrow> auth_config \<Rightarrow> string \<Rightarrow> string \<Rightarrow> config_error + string option" where
  "authenticate env c user pw =
     (case authenticate_services env (services c) user pw of
        Some r \<Rightarrow> r
      | None \<Rightarrow> if sr_enabled (self_register c) then Inr (Some user) else Inr None)"

section \<open>Facts\<close>

lemma authenticate_services_find:
  "authenticate_services env ss user pw =
     (case find (\<lambda>(n, s). sa_username s = user) ss of
        None \<Rightarrow> None
      | Some (n, s) \<Rightarrow>
          Some (case env (sa_password_env s) of
                  None \<Rightarrow> Inl (MissingEnv (sa_password_env s))
                | Some p \<Rightarrow> Inr (if p = pw then Some n else None)))"
  by (induction ss) (auto simp: service_password_def resolve_env_def split: option.split)

text \<open>The first entry of a \<open>BTreeMap\<close> that satisfies a predicate is the one with the least key.\<close>

lemma bt_find_least:
  assumes "bt_wf m"
  shows "find (\<lambda>(n, s). P s) m = Some (n, s) \<longleftrightarrow>
     (n, s) \<in> set m \<and> P s \<and> (\<forall>(n', s') \<in> set m. P s' \<longrightarrow> n \<le> n')"
  using assms
proof (induction m)
  case Nil
  then show ?case by simp
next
  case (Cons e m)
  obtain k v where e: "e = (k, v)" by (cases e)
  from Cons.prems have wf: "bt_wf m" and less: "\<forall>(n', s') \<in> set m. k < n'"
    by (auto simp: bt_wf_def e)
  show ?case
  proof (cases "P v")
    case True
    with less show ?thesis by (auto simp: e)
  next
    case False
    with Cons.IH [OF wf] show ?thesis by (auto simp: e)
  qed
qed

section \<open>Properties\<close>

text \<open>C28: Precedence of the authentication modes. When a configured service has the user name,
  only the one with the least service name in byte order is consulted: its password decides
  between that service's name and a rejection (self-registration is not tried), and an unset
  password variable is an error. When no service has the user name, self-registration accepts
  the user name as sender exactly when it is enabled.\<close>

theorem authenticate_precedence:
  assumes "bt_wf (services c)"
  shows "(\<forall>n s. (n, s) \<in> set (services c) \<and> sa_username s = user \<and>
            (\<forall>(n', s') \<in> set (services c). sa_username s' = user \<longrightarrow> n \<le> n') \<longrightarrow>
            authenticate env c user pw =
              (case env (sa_password_env s) of
                 None \<Rightarrow> Inl (MissingEnv (sa_password_env s))
               | Some p \<Rightarrow> Inr (if p = pw then Some n else None)))
       \<and> ((\<forall>(n, s) \<in> set (services c). sa_username s \<noteq> user) \<longrightarrow>
            authenticate env c user pw =
              Inr (if sr_enabled (self_register c) then Some user else None))"
proof (intro conjI allI impI; (elim conjE)?)
  fix n s
  assume "(n, s) \<in> set (services c)" "sa_username s = user"
    "\<forall>(n', s') \<in> set (services c). sa_username s' = user \<longrightarrow> n \<le> n'"
  then have "find (\<lambda>(n, s). sa_username s = user) (services c) = Some (n, s)"
    by (simp add: bt_find_least [OF assms])
  then show "authenticate env c user pw =
      (case env (sa_password_env s) of
         None \<Rightarrow> Inl (MissingEnv (sa_password_env s))
       | Some p \<Rightarrow> Inr (if p = pw then Some n else None))"
    by (simp add: authenticate_def authenticate_services_find)
next
  assume "\<forall>(n, s) \<in> set (services c). sa_username s \<noteq> user"
  then have "find (\<lambda>(n, s). sa_username s = user) (services c) = None"
    by (auto simp: find_None_iff)
  then show "authenticate env c user pw =
      Inr (if sr_enabled (self_register c) then Some user else None)"
    by (simp add: authenticate_def authenticate_services_find)
qed

definition demo_auth :: auth_config where
  "demo_auth = \<lparr>anonymous = \<lparr>anon_enabled = False, subject_match = None\<rparr>,
     services = [(''backup-host'', \<lparr>sa_username = ''backup'', sa_password_env = ''PW''\<rparr>)],
     self_register = \<lparr>sr_enabled = True\<rparr>\<rparr>"

theorem authenticate_precedence_witness:
  "bt_wf (services demo_auth) \<and>
   authenticate [''PW'' \<mapsto> ''s3cret''] demo_auth ''backup'' ''wrong'' = Inr None \<and>
   authenticate [''PW'' \<mapsto> ''s3cret''] demo_auth ''monitor'' ''any'' = Inr (Some ''monitor'')"
proof -
  have wf: "bt_wf (services demo_auth)" by (simp add: demo_auth_def bt_wf_def)
  from wf authenticate_precedence [OF wf, of "''backup''" "[''PW'' \<mapsto> ''s3cret'']" "''wrong''"]
    authenticate_precedence [OF wf, of "''monitor''" "[''PW'' \<mapsto> ''s3cret'']" "''any''"]
  show ?thesis by (simp add: demo_auth_def)
qed

end
