(* ===== verification/Core_Subject.thy ===== *)
theory Core_Subject
  imports Keyed_Maps
begin

text \<open>
  Models the subject label part of \<open>crates/core/src/config.rs\<close>: the global format, the overrides
  per sender and the substitution of the two placeholders, one after the other.
\<close>

section \<open>Labels\<close>

record sender_subject =
  ss_format :: string

record subject_config =
  sc_format :: string
  sc_senders :: "sender_subject btree_map"

definition default_subject_format :: string where
  "default_subject_format = ''[Abs: %name%] %original%''"

definition default_subject_config :: subject_config where
  "default_subject_config = \<lparr>sc_format = default_subject_format, sc_senders = []\<rparr>"

definition format_for :: "subject_config \<Rightarrow> string \<Rightarrow> string" where
  "format_for c sender =
     (case map_option ss_format (bt_get (sc_senders c) sender) of
        Some f \<Rightarrow> f
      | None \<Rightarrow> sc_format c)"

definition render :: "subject_config \<Rightarrow> string \<Rightarrow> string \<Rightarrow> string" where
  "render c sender original =
     replace_str ''%original%'' original (replace_str ''%name%'' sender (format_for c sender))"

section \<open>Facts\<close>

abbreviation clear_of_overlap :: "string \<Rightarrow> bool" where
  "clear_of_overlap f \<equiv>
     \<not> contains_str f ''%name%original%'' \<and> \<not> contains_str f ''%original%name%''"

lemma contains_str_tail: "contains_str s p \<Longrightarrow> contains_str (x # s) p"
  by simp

lemma replace_name_head:
  assumes "\<not> prefix ''name%'' b"
  shows "replace_str ''%name%'' t (''%original%'' @ b) = ''%original%'' @ replace_str ''%name%'' t b"
  using assms by (simp add: replace_str_skip)

text \<open>An occurrence of \<open>%original%\<close> that shares no character with a \<open>%name%\<close> survives the
  substitution of the name.\<close>

lemma replace_name_keeps_original:
  assumes "clear_of_overlap (a @ ''%original%'' @ b)"
  shows "contains_str (replace_str ''%name%'' t (a @ ''%original%'' @ b)) ''%original%''"
  using assms
proof (induction "length a" arbitrary: a rule: less_induct)
  case less
  show ?case
  proof (cases a)
    case Nil
    from less.prems have "\<not> prefix ''name%'' b" by (simp add: Nil)
    from replace_name_head [OF this] have "replace_str ''%name%'' t (a @ ''%original%'' @ b)
        = [] @ ''%original%'' @ replace_str ''%name%'' t b"
      by (simp add: Nil)
    then show ?thesis by (simp only: contains_strI)
  next
    case (Cons x a')
    show ?thesis
    proof (cases "prefix ''%name%'' (a @ ''%original%'' @ b)")
      case False
      have "clear_of_overlap (a' @ ''%original%'' @ b)"
        using less.prems contains_str_tail by (auto simp: Cons)
      with less.hyps [of a'] Cons
      have "contains_str (replace_str ''%name%'' t (a' @ ''%original%'' @ b)) ''%original%''"
        by simp
      with False show ?thesis by (simp add: Cons replace_str_skip)
    next
      case True
      then obtain r where r: "a @ ''%original%'' @ b = ''%name%'' @ r" by (auto simp: prefix_def)
      have "length ''%name%'' \<le> length a"
      proof (rule ccontr)
        assume "\<not> ?thesis"
        then have "length a \<le> 5" by simp
        with True less.prems show False
          by (auto simp: le_Suc_eq length_Suc_conv numeral_eq_Suc)
      qed
      then obtain a2 where a: "a = ''%name%'' @ a2" and r2: "r = a2 @ ''%original%'' @ b"
        using append_split_longer [OF r] by blast
      have "clear_of_overlap (a2 @ ''%original%'' @ b)"
        using less.prems contains_str_append [of "a2 @ ''%original%'' @ b" _ "''%name%''"]
        by (auto simp: a)
      with less.hyps [of a2] a
      have "contains_str (replace_str ''%name%'' t r) ''%original%''" by (simp add: r2)
      then have "contains_str (t @ replace_str ''%name%'' t r) ''%original%''"
        by (rule contains_str_append)
      then show ?thesis
        unfolding r using replace_str_match [of "''%name%''" t r] by simp
    qed
  qed
qed

section \<open>Properties\<close>

text \<open>A rendered subject contains the incoming subject as a substring, whatever the sender
  name is, provided the format in force contains \<open>%original%\<close> and the two placeholders never
  share a percent sign in it.\<close>

lemma render_contains:
  assumes "contains_str (format_for c sender) ''%original%''"
    and "\<not> contains_str (format_for c sender) ''%name%original%''"
    and "\<not> contains_str (format_for c sender) ''%original%name%''"
  shows "contains_str (render c sender original) original"
proof -
  from assms(1) obtain a b where "format_for c sender = a @ ''%original%'' @ b"
    by (auto simp: contains_str_iff)
  with assms(2,3) replace_name_keeps_original [of a b sender]
  have "contains_str (replace_str ''%name%'' sender (format_for c sender)) ''%original%''"
    by simp
  then show ?thesis
    unfolding render_def by (rule contains_replace_target) simp
qed

text \<open>With the default format and a sender name free of percent signs, the label is the
  documented one: \<open>[Abs: <name>] <original>\<close>.\<close>

lemma render_default_format:
  assumes "CHR ''%'' \<notin> set sender"
  shows "render default_subject_config sender original = ''[Abs: '' @ sender @ ''] '' @ original"
proof -
  have "replace_str ''%name%'' sender default_subject_format
      = ''[Abs: '' @ sender @ ''] %original%''"
    using replace_str_match [of "''%name%''" sender "''] %original%''"]
    by (simp add: default_subject_format_def replace_str_skip)
  moreover have "replace_str ''%original%'' original (''[Abs: '' @ sender @ ''] %original%'')
      = ''[Abs: '' @ sender @ ''] '' @ original"
    using replace_str_copy [of "CHR ''%''" "''[Abs: '' @ sender @ ''] ''" "''original%''" original
        "''%original%''"]
      replace_str_match [of "''%original%''" original "[]"] assms
    by simp
  ultimately show ?thesis
    by (simp add: render_def format_for_def default_subject_config_def bt_get_def)
qed

text \<open>Where the placeholders share a percent sign, the name is substituted first and takes it away from
  \<open>%original%\<close>: the subject of the message is not in the result, although the format passes for one that
  keeps it.\<close>

lemma replace_str_lone:
  assumes "c \<notin> set w" and "c \<in> set p"
  shows "replace_str (c # p) t (c # w) = c # w"
proof -
  have "\<not> prefix (c # p) (c # w)" using assms by (auto simp: prefix_def)
  with replace_str_copy [OF assms(1), of p t "[]"] show ?thesis by (simp add: replace_str_skip)
qed

lemma render_overlap:
  assumes "format_for c name = pre @ ''%name%original%'' @ post"
    and "CHR ''%'' \<notin> set pre \<union> set post \<union> set name"
  shows "render c name original = pre @ name @ ''original%'' @ post"
proof -
  let ?rest = "''original'' @ CHR ''%'' # post"
  have lone: "replace_str (CHR ''%'' # p) t (a @ CHR ''%'' # post) = a @ CHR ''%'' # post"
    if "CHR ''%'' \<notin> set a" and "CHR ''%'' \<in> set p" for p t a
    using replace_str_lone [of "CHR ''%''" post p t] assms(2) that by (simp add: replace_str_copy [OF that(1)])
  have "replace_str ''%name%'' name (''%name%'' @ ?rest) = name @ ?rest"
    using replace_str_match [of "''%name%''" name ?rest] lone [of "''original''" "''name%''" name] by simp
  then have "replace_str ''%name%'' name (format_for c name) = (pre @ name @ ''original'') @ CHR ''%'' # post"
    using replace_str_copy [of "CHR ''%''" pre "''name%''" name "''%name%'' @ ?rest"] assms by simp
  with lone [of "pre @ name @ ''original''" "''original%''" original] assms(2) show ?thesis
    by (simp add: render_def)
qed

end
