(* ===== verification/Core_Config.thy ===== *)
theory Core_Config
  imports Core_Routing Core_Auth Core_Subject
begin

text \<open>
  Models the rest of \<open>crates/core/src/config.rs\<close>: the root configuration with its defaults,
  loading, semantic validation and the resolved settings of a plugin. Reading the file, the TOML
  parser (which also fills in the defaults of missing fields) and the process environment are
  parameters.
\<close>

section \<open>Sections of the configuration\<close>

record smtp_config =
  host :: string
  port :: u16
  username :: string
  password_env :: string

definition smtp_password :: "(string \<Rightarrow> string option) \<Rightarrow> smtp_config \<Rightarrow> config_error + string" where
  "smtp_password env c = resolve_env env (password_env c)"

record mail_config =
  smtp :: "smtp_config option"
  default_transport :: "string option"

record queue_config =
  database :: string

definition default_queue_config :: queue_config where
  "default_queue_config = \<lparr>database = ''queue.db''\<rparr>"

record logging_config =
  level :: string

definition default_logging_config :: logging_config where
  "default_logging_config = \<lparr>level = ''info''\<rparr>"

record security_config =
  ip_whitelist :: "string list"

record smtp_ingress_config =
  bind_addr :: string
  hostname :: string

definition default_smtp_ingress_config :: smtp_ingress_config where
  "default_smtp_ingress_config = \<lparr>bind_addr = ''127.0.0.1:2525'', hostname = ''oxid-relay''\<rparr>"

record ingress_config =
  ingress_smtp :: "smtp_ingress_config option"

record dispatcher_settings =
  set_batch_size :: u32
  set_concurrency :: nat
  poll_interval_secs :: u64
  sending_lease_secs :: u64
  set_max_attempts :: u32
  retry_base_secs :: u64
  retry_max_secs :: u64

definition default_dispatcher_settings :: dispatcher_settings where
  "default_dispatcher_settings =
     \<lparr>set_batch_size = 64, set_concurrency = 8, poll_interval_secs = 5, sending_lease_secs = 120,
      set_max_attempts = 5, retry_base_secs = 30, retry_max_secs = 3600\<rparr>"

record config =
  cfg_mail :: mail_config
  cfg_queue :: queue_config
  cfg_logging :: logging_config
  cfg_subject :: subject_config
  cfg_security :: security_config
  cfg_auth :: auth_config
  cfg_plugins :: "string btree_map btree_map"
  cfg_ingress :: ingress_config
  cfg_routing :: routing_config
  cfg_dispatcher :: dispatcher_settings

definition default_config :: config where
  "default_config =
     \<lparr>cfg_mail = \<lparr>smtp = None, default_transport = None\<rparr>,
      cfg_queue = default_queue_config,
      cfg_logging = default_logging_config,
      cfg_subject = default_subject_config,
      cfg_security = \<lparr>ip_whitelist = []\<rparr>,
      cfg_auth = \<lparr>anonymous = \<lparr>anon_enabled = False, subject_match = None\<rparr>, services = [],
        self_register = \<lparr>sr_enabled = False\<rparr>\<rparr>,
      cfg_plugins = [],
      cfg_ingress = \<lparr>ingress_smtp = None\<rparr>,
      cfg_routing = \<lparr>rc_default = None, rc_senders = []\<rparr>,
      cfg_dispatcher = default_dispatcher_settings\<rparr>"

section \<open>Validation\<close>

definition LEVELS :: "string list" where
  "LEVELS = [''trace'', ''debug'', ''info'', ''warn'', ''error'']"

fun join_str :: "string \<Rightarrow> string list \<Rightarrow> string" where
  "join_str sep [] = []"
| "join_str sep [x] = x"
| "join_str sep (x # y # zs) = x @ sep @ join_str sep (y # zs)"

definition validate_smtp :: "smtp_config option \<Rightarrow> config_error + unit" where
  "validate_smtp sm =
     (case sm of
        None \<Rightarrow> Inr ()
      | Some s \<Rightarrow>
          if trim (host s) = [] then Inl (Invalid ''mail.smtp.host is empty'')
          else if port s = 0 then Inl (Invalid ''mail.smtp.port must be non-zero'')
          else Inr ())"

definition validate_dispatcher :: "dispatcher_settings \<Rightarrow> config_error + unit" where
  "validate_dispatcher d =
     (if set_batch_size d = 0 then Inl (Invalid ''dispatcher.batch_size must be >= 1'')
      else if set_concurrency d = 0 then Inl (Invalid ''dispatcher.concurrency must be >= 1'')
      else if poll_interval_secs d = 0 then
        Inl (Invalid ''dispatcher.poll_interval_secs must be >= 1'')
      else if set_max_attempts d = 0 then Inl (Invalid ''dispatcher.max_attempts must be >= 1'')
      else Inr ())"

fun validate_sender_formats :: "sender_subject btree_map \<Rightarrow> config_error + unit" where
  "validate_sender_formats [] = Inr ()"
| "validate_sender_formats ((name, s) # ss) =
     (if \<not> contains_str (ss_format s) ''%original%'' then
        Inl (Invalid (''subject.senders.'' @ [CHR 0x22] @ name @ [CHR 0x22] @
               ''.format must contain %original%''))
      else validate_sender_formats ss)"

definition validate_subject :: "subject_config \<Rightarrow> config_error + unit" where
  "validate_subject c =
     (if \<not> contains_str (sc_format c) ''%original%'' then
        Inl (Invalid ''subject.format must contain %original%'')
      else validate_sender_formats (sc_senders c))"

definition validate :: "config \<Rightarrow> config_error + unit" where
  "validate c =
     (if trim (database (cfg_queue c)) = [] then Inl (Invalid ''queue.database is empty'')
      else if level (cfg_logging c) \<notin> set LEVELS then
        Inl (Invalid (''unknown logging.level '' @ [CHR 0x27] @ level (cfg_logging c) @
               [CHR 0x27] @ '', expected one of ['' @ join_str '', '' (map debug_str LEVELS) @ '']''))
      else res_bind (validate_smtp (smtp (cfg_mail c))) (\<lambda>_.
        res_bind (validate_dispatcher (cfg_dispatcher c)) (\<lambda>_.
          validate_subject (cfg_subject c))))"

definition from_toml_str :: "(string \<Rightarrow> string + config) \<Rightarrow> string \<Rightarrow> config_error + config" where
  "from_toml_str toml raw =
     res_bind (map_err Parse (toml raw)) (\<lambda>c. res_bind (validate c) (\<lambda>_. Inr c))"

definition load :: "(string \<Rightarrow> string + string) \<Rightarrow> (string \<Rightarrow> string + config) \<Rightarrow> string
    \<Rightarrow> config_error + config" where
  "load read_to_string toml path =
     res_bind (map_err (Read path) (read_to_string path)) (from_toml_str toml)"

section \<open>Plugin settings\<close>

fun resolve_settings :: "(string \<Rightarrow> string option) \<Rightarrow> string btree_map \<Rightarrow> string btree_map \<Rightarrow>
    config_error + string btree_map" where
  "resolve_settings env [] resolved = Inr resolved"
| "resolve_settings env ((key, val) # raw) resolved =
     (case strip_suffix key ''_env'' of
        Some stripped \<Rightarrow>
          res_bind (resolve_env env val)
            (\<lambda>s. resolve_settings env raw (bt_insert stripped s resolved))
      | None \<Rightarrow> resolve_settings env raw (bt_insert key val resolved))"

definition plugin_settings :: "(string \<Rightarrow> string option) \<Rightarrow> config \<Rightarrow> string \<Rightarrow>
    config_error + string btree_map" where
  "plugin_settings env c name =
     (case bt_get (cfg_plugins c) name of
        None \<Rightarrow> Inr []
      | Some raw \<Rightarrow> resolve_settings env raw [])"

section \<open>Facts\<close>

definition config_wf :: "config \<Rightarrow> bool" where
  "config_wf c =
     (trim (database (cfg_queue c)) \<noteq> [] \<and>
      level (cfg_logging c) \<in> set LEVELS \<and>
      (\<forall>s. smtp (cfg_mail c) = Some s \<longrightarrow> trim (host s) \<noteq> [] \<and> port s \<noteq> 0) \<and>
      0 < set_batch_size (cfg_dispatcher c) \<and> 0 < set_concurrency (cfg_dispatcher c) \<and>
      0 < poll_interval_secs (cfg_dispatcher c) \<and> 0 < set_max_attempts (cfg_dispatcher c) \<and>
      (\<forall>sender. contains_str (format_for (cfg_subject c) sender) ''%original%''))"

lemma validate_sender_formats_iff:
  "validate_sender_formats ss = Inr u \<longleftrightarrow>
     (\<forall>(n, s) \<in> set ss. contains_str (ss_format s) ''%original%'')"
  by (induction ss) (auto split: if_splits)

lemma validate_subject_ok:
  assumes "bt_wf (sc_senders c)"
  shows "validate_subject c = Inr u \<longleftrightarrow>
     contains_str (sc_format c) ''%original%'' \<and>
     (\<forall>sender. contains_str (format_for c sender) ''%original%'')"
proof -
  have "(\<forall>(n, s) \<in> set (sc_senders c). contains_str (ss_format s) ''%original%'') \<and>
        contains_str (sc_format c) ''%original%''
    \<longleftrightarrow> contains_str (sc_format c) ''%original%'' \<and>
        (\<forall>sender. contains_str (format_for c sender) ''%original%'')" (is "?l \<longleftrightarrow> ?r")
  proof
    assume ?l
    then show ?r
      by (fastforce simp: format_for_def bt_get_iff [OF assms] split: option.split)
  next
    assume r: ?r
    have "contains_str (ss_format s) ''%original%''" if "(n, s) \<in> set (sc_senders c)" for n s
    proof -
      from that assms have "bt_get (sc_senders c) n = Some s" by (simp add: bt_get_iff)
      then have "format_for c n = ss_format s" by (simp add: format_for_def)
      with r show ?thesis by metis
    qed
    with r show ?l by auto
  qed
  moreover have "validate_subject c = Inr u \<longleftrightarrow>
      (\<forall>(n, s) \<in> set (sc_senders c). contains_str (ss_format s) ''%original%'') \<and>
      contains_str (sc_format c) ''%original%''"
    by (auto simp: validate_subject_def validate_sender_formats_iff)
  ultimately show ?thesis by blast
qed

lemma validate_smtp_iff:
  "validate_smtp sm = Inr u \<longleftrightarrow> (\<forall>s. sm = Some s \<longrightarrow> trim (host s) \<noteq> [] \<and> port s \<noteq> 0)"
  by (simp add: validate_smtp_def split: option.split)

lemma validate_dispatcher_iff:
  "validate_dispatcher d = Inr u \<longleftrightarrow>
     0 < set_batch_size d \<and> 0 < set_concurrency d \<and> 0 < poll_interval_secs d \<and>
     0 < set_max_attempts d"
  by (auto simp: validate_dispatcher_def word_gt_0)

text \<open>The pair a setting contributes: a key with the suffix \<open>_env\<close> loses it, its value is read
  from the environment.\<close>

definition setting_pair :: "(string \<Rightarrow> string option) \<Rightarrow> string \<times> string \<Rightarrow> string \<times> string" where
  "setting_pair env kv =
     (case strip_suffix (fst kv) ''_env'' of
        Some s \<Rightarrow> (s, the (env (snd kv)))
      | None \<Rightarrow> kv)"

definition env_missing :: "(string \<Rightarrow> string option) \<Rightarrow> string \<times> string \<Rightarrow> bool" where
  "env_missing env kv = (suffix ''_env'' (fst kv) \<and> env (snd kv) = None)"

lemma resolve_settings_ok:
  assumes "\<forall>kv \<in> set raw. \<not> env_missing env kv"
  shows "resolve_settings env raw m = Inr (fold (\<lambda>(k, v). bt_insert k v) (map (setting_pair env) raw) m)"
  using assms
proof (induction raw arbitrary: m)
  case (Cons kv raw)
  then show ?case
    by (cases kv; cases "strip_suffix (fst kv) ''_env''")
      (auto simp: setting_pair_def env_missing_def resolve_env_def strip_suffix_Some_iff
        suffix_def)
qed simp

lemma resolve_settings_error:
  "(\<exists>e. resolve_settings env raw m = Inl e) \<longleftrightarrow> (\<exists>kv \<in> set raw. env_missing env kv)"
proof (induction raw arbitrary: m)
  case (Cons kv raw)
  show ?case
  proof (cases "env_missing env kv")
    case True
    then show ?thesis
      by (cases kv) (auto simp: env_missing_def resolve_env_def strip_suffix_def)
  next
    case False
    with Cons.IH show ?thesis
      by (cases kv; cases "env (snd kv)")
        (auto simp: env_missing_def resolve_env_def strip_suffix_def)
  qed
qed simp

lemma setting_pair_key_iff:
  "fst (setting_pair env kv) = k \<longleftrightarrow>
     fst kv = k @ ''_env'' \<or> fst kv = k \<and> \<not> suffix ''_env'' k"
  by (auto simp: setting_pair_def strip_suffix_Some_iff strip_suffix_None_iff suffix_def
      split: option.split)

lemma less_env_key: "(k :: string) < k @ ''_env''"
  by (rule less_append) simp

lemma last_setting:
  assumes "raw = as @ kv # bs" and "fst (setting_pair env kv) = k"
    and "\<And>kv'. kv' \<in> set bs \<Longrightarrow> fst (setting_pair env kv') \<noteq> k"
  shows "map_of (rev (map (setting_pair env) raw)) k = Some (snd (setting_pair env kv))"
proof -
  have "map_of (rev (map (setting_pair env) bs)) k = None"
    using assms(3) by (force simp: map_of_eq_None_iff)
  with assms(2) show ?thesis by (simp add: assms(1) map_add_def split: option.splits)
qed

lemma map_of_settings:
  assumes wf: "bt_wf raw"
  shows "map_of (rev (map (setting_pair env) raw)) k =
     (case bt_get raw (k @ ''_env'') of
        Some v \<Rightarrow> Some (the (env v))
      | None \<Rightarrow> if suffix ''_env'' k then None else bt_get raw k)"
proof (cases "bt_get raw (k @ ''_env'')")
  case (Some v)
  then have "(k @ ''_env'', v) \<in> set raw" by (simp add: bt_get_iff [OF wf])
  then obtain as bs where raw: "raw = as @ (k @ ''_env'', v) # bs" by (meson split_list)
  have later: "k @ ''_env'' < fst kv" if "kv \<in> set bs" for kv
    using wf that by (auto simp: bt_wf_def raw sorted_wrt_append)
  have "fst (setting_pair env kv) \<noteq> k" if "kv \<in> set bs" for kv
    using later [OF that] less_env_key [of k] by (auto simp: setting_pair_key_iff)
  from last_setting [OF raw _ this] Some show ?thesis
    by (simp add: setting_pair_def)
next
  case None
  then have no_env: "fst kv \<noteq> k @ ''_env''" if "kv \<in> set raw" for kv
    using that by (metis bt_get_iff [OF wf] option.distinct(1) prod.collapse)
  show ?thesis
  proof (cases "\<not> suffix ''_env'' k \<and> (\<exists>v. (k, v) \<in> set raw)")
    case True
    then obtain v where v: "(k, v) \<in> set raw" by blast
    then obtain as bs where raw: "raw = as @ (k, v) # bs" by (meson split_list)
    have later: "k < fst kv" if "kv \<in> set bs" for kv
      using wf that by (auto simp: bt_wf_def raw sorted_wrt_append)
    have "fst (setting_pair env kv) \<noteq> k" if "kv \<in> set bs" for kv
      using later [OF that] no_env [of kv] that by (auto simp: setting_pair_key_iff raw)
    from last_setting [OF raw _ this] True None v show ?thesis
      using bt_get_iff [OF wf, of k v]
      by (simp add: setting_pair_def strip_suffix_None_iff [THEN iffD2])
  next
    case False
    then have "fst (setting_pair env kv) \<noteq> k" if "kv \<in> set raw" for kv
      using no_env [OF that] that by (metis prod.collapse setting_pair_key_iff)
    then have "map_of (rev (map (setting_pair env) raw)) k = None"
      by (force simp: map_of_eq_None_iff)
    moreover from False have "\<not> suffix ''_env'' k \<Longrightarrow> bt_get raw k = None"
      using bt_get_iff [OF wf] by (metis not_None_eq)
    ultimately show ?thesis using None by simp
  qed
qed

section \<open>Properties\<close>

text \<open>C31: A configuration that \<open>Config::load\<close> returns has a queue database, a known log level, a
  usable SMTP section if it has one, dispatcher knobs that are all at least one (so no knob can
  stall delivery), and for every sender a subject format that contains \<open>%original%\<close>; and every
  parsed configuration with these properties is accepted.\<close>

theorem load_accepts_exactly_well_formed:
  assumes "read_to_string path = Inr raw" and "toml raw = Inr c"
    and "bt_wf (sc_senders (cfg_subject c))"
  shows "load read_to_string toml path = Inr c' \<longleftrightarrow>
    c' = c \<and> config_wf c \<and> contains_str (sc_format (cfg_subject c)) ''%original%''"
proof -
  have "validate c = Inr () \<longleftrightarrow>
      config_wf c \<and> contains_str (sc_format (cfg_subject c)) ''%original%''"
    by (auto simp: validate_def config_wf_def res_bind_eq_Inr_iff validate_smtp_iff
        validate_dispatcher_iff validate_subject_ok [OF assms(3)])
  with assms(1,2) show ?thesis
    by (auto simp: load_def from_toml_str_def res_bind_eq_Inr_iff)
qed

theorem load_accepts_exactly_well_formed_witness:
  "load (\<lambda>_. Inr []) (\<lambda>_. Inr default_config) ''config.toml'' = Inr default_config \<and>
   config_wf default_config"
proof -
  let ?l = "load (\<lambda>_. Inr []) (\<lambda>_. Inr default_config) ''config.toml''"
  have wf: "bt_wf (sc_senders (cfg_subject default_config))"
    by (simp add: default_config_def default_subject_config_def bt_wf_def)
  have "validate default_config = Inr ()" by code_simp
  then have l: "?l = Inr default_config" by (simp add: load_def from_toml_str_def)
  with load_accepts_exactly_well_formed
    [of "\<lambda>_. Inr []" "''config.toml''" "[]" "\<lambda>_. Inr default_config" default_config default_config]
    wf
  show ?thesis by simp
qed

text \<open>The settings a plugin sees. Under a key \<open>k\<close> the script finds the value of the environment
  variable named by \<open>k_env\<close> when the configuration has such a key, even if it has a plain \<open>k\<close> as
  well; otherwise the plain value, and never a value under an unstripped \<open>_env\<close> key of the file.
  Resolution fails exactly when some \<open>_env\<close> key names a variable that is not set.\<close>

lemma plugin_settings_resolved:
  assumes "bt_get (cfg_plugins c) name = Some raw" and "bt_wf raw"
  shows "((\<exists>e. plugin_settings env c name = Inl e) \<longleftrightarrow>
            (\<exists>(key, var) \<in> set raw. suffix ''_env'' key \<and> env var = None)) \<and>
         (\<forall>st. plugin_settings env c name = Inr st \<longrightarrow> bt_wf st \<and>
            bt_get st k =
              (case bt_get raw (k @ ''_env'') of
                 Some var \<Rightarrow> env var
               | None \<Rightarrow> if suffix ''_env'' k then None else bt_get raw k))"
proof (intro conjI allI impI)
  show "(\<exists>e. plugin_settings env c name = Inl e) \<longleftrightarrow>
      (\<exists>(key, var) \<in> set raw. suffix ''_env'' key \<and> env var = None)"
    using assms(1) resolve_settings_error [of env raw "[]"]
    by (simp add: plugin_settings_def env_missing_def split_beta)
next
  fix st
  assume "plugin_settings env c name = Inr st"
  then have st: "resolve_settings env raw [] = Inr st"
    using assms(1) by (simp add: plugin_settings_def)
  then have ok: "\<forall>kv \<in> set raw. \<not> env_missing env kv"
    using resolve_settings_error [of env raw "[]"] by auto
  from st resolve_settings_ok [OF ok, of "[]"]
  have fold: "st = fold (\<lambda>(k, v). bt_insert k v) (map (setting_pair env) raw) []" by simp
  show "bt_wf st" unfolding fold by (rule bt.wf_insert_all [OF bt.wf_emp])
  have "env v \<noteq> None" if "bt_get raw (k @ ''_env'') = Some v" for v
  proof -
    from that have "(k @ ''_env'', v) \<in> set raw" by (simp add: bt_get_iff [OF assms(2)])
    with ok have "\<not> env_missing env (k @ ''_env'', v)" by blast
    then show ?thesis by (simp add: env_missing_def suffix_def)
  qed
  then show "bt_get st k =
      (case bt_get raw (k @ ''_env'') of
         Some var \<Rightarrow> env var
       | None \<Rightarrow> if suffix ''_env'' k then None else bt_get raw k)"
    unfolding fold bt.get_insert_all_emp map_of_settings [OF assms(2)]
    by (auto split: option.split)
qed

end
