(* ===== verification/Retry_Policy.thy ===== *)
theory Retry_Policy
  imports Prelude
begin

text \<open>
  Models \<open>crates/dispatcher/src/retry.rs\<close>: the attempt limit and the exponential backoff, on the
  machine integers of the source. A \<open>Duration\<close> of the standard library is a number of seconds
  and of nanoseconds below \<open>10^9\<close>, compared lexicographically.
\<close>

section \<open>Durations\<close>

datatype duration = Duration (as_secs: u64) (subsec_nanos: u32)

instantiation duration :: linorder
begin

definition less_eq_duration :: "duration \<Rightarrow> duration \<Rightarrow> bool" where
  "less_eq_duration a b =
     (as_secs a < as_secs b \<or> as_secs a = as_secs b \<and> subsec_nanos a \<le> subsec_nanos b)"

definition less_duration :: "duration \<Rightarrow> duration \<Rightarrow> bool" where
  "less_duration a b =
     (as_secs a < as_secs b \<or> as_secs a = as_secs b \<and> subsec_nanos a < subsec_nanos b)"

instance
  by standard (auto simp: less_eq_duration_def less_duration_def duration.expand)

end

definition from_secs :: "u64 \<Rightarrow> duration" where
  "from_secs s = Duration s 0"

definition dur_wf :: "duration \<Rightarrow> bool" where
  "dur_wf d = (unat (subsec_nanos d) < 10 ^ 9)"

definition dur_nanos :: "duration \<Rightarrow> nat" where
  "dur_nanos d = unat (as_secs d) * 10 ^ 9 + unat (subsec_nanos d)"

section \<open>The policy\<close>

record retry_policy =
  max_attempts :: u32
  base_delay :: duration
  max_delay :: duration

definition default_retry_policy :: retry_policy where
  "default_retry_policy =
     \<lparr>max_attempts = 5, base_delay = from_secs 30, max_delay = from_secs 3600\<rparr>"

definition backoff :: "retry_policy \<Rightarrow> u32 \<Rightarrow> duration" where
  "backoff p n =
     (let shift = min (saturating_sub n 1) 31;
          factor = (case checked_shl (1 :: u64) shift of Some f \<Rightarrow> f | None \<Rightarrow> - 1);
          secs = saturating_mul (as_secs (base_delay p)) factor
      in min (from_secs secs) (max_delay p))"

definition is_exhausted :: "retry_policy \<Rightarrow> u32 \<Rightarrow> bool" where
  "is_exhausted p n = (max_attempts p \<le> n)"

section \<open>Facts\<close>

lemma from_secs_inject [simp]: "from_secs a = from_secs b \<longleftrightarrow> a = b"
  by (simp add: from_secs_def)

lemma dur_wf_from_secs [simp]: "dur_wf (from_secs s)"
  by (simp add: dur_wf_def from_secs_def)

lemma dur_nanos_from_secs [simp]: "dur_nanos (from_secs s) = unat s * 10 ^ 9"
  by (simp add: dur_nanos_def from_secs_def)

lemma dur_le_iff:
  assumes "dur_wf a" and "dur_wf b"
  shows "a \<le> b \<longleftrightarrow> dur_nanos a \<le> dur_nanos b"
  using assms
  by (simp add: less_eq_duration_def dur_wf_def dur_nanos_def mixed_radix_le word_less_nat_alt
      word_le_nat_alt word_unat_eq_iff)

lemma dur_nanos_min:
  assumes "dur_wf a" and "dur_wf b"
  shows "dur_nanos (min a b) = min (dur_nanos a) (dur_nanos b)"
  using dur_le_iff [OF assms] by (auto simp: min_def)

text \<open>The factor of the source is a power of two: the shift never reaches the word's width.\<close>

lemma backoff_factor:
  "unat (case checked_shl (1 :: u64) (min (saturating_sub n 1) 31) of
           Some f \<Rightarrow> f | None \<Rightarrow> - 1) = 2 ^ min (unat n - 1) 31"
proof -
  have m: "unat (min (saturating_sub n 1) 31 :: u32) = min (unat n - 1) 31"
    by (auto simp: min_def word_le_nat_alt unat_saturating_sub)
  then have "unat (min (saturating_sub n 1) 31 :: u32) < LENGTH(64)" by simp
  from checked_shl_one [OF this] m show ?thesis by auto
qed

lemma dur_nanos_backoff:
  assumes "dur_wf (max_delay p)"
  shows "dur_nanos (backoff p n) =
     min (min (unat (as_secs (base_delay p)) * 2 ^ min (unat n - 1) 31) (2 ^ 64 - 1) * 10 ^ 9)
       (dur_nanos (max_delay p))"
  using assms
  by (simp add: backoff_def Let_def dur_nanos_min unat_saturating_mul backoff_factor)

lemma dur_wf_backoff [simp]: "dur_wf (max_delay p) \<Longrightarrow> dur_wf (backoff p n)"
  by (simp add: backoff_def Let_def min_def)

section \<open>Properties\<close>

text \<open>C26: The backoff after \<open>n\<close> attempts, computed with saturating 64-bit arithmetic, is exactly the
  whole seconds of \<open>base_delay\<close> times \<open>2 ^ min (n - 1) 31\<close>, clamped to the largest number of seconds a
  \<open>u64\<close> holds and to \<open>max_delay\<close>. It is the documented \<open>base * 2 ^ (n - 1)\<close> capped at \<open>max_delay\<close> whenever
  \<open>base_delay\<close> has whole seconds, \<open>n\<close> is at most 32 and \<open>max_delay\<close> is at most \<open>u64::MAX\<close> seconds.\<close>

theorem backoff_exact:
  assumes "dur_wf (max_delay p)"
  shows "dur_nanos (backoff p n) =
     min (min (unat (as_secs (base_delay p)) * 2 ^ min (unat n - 1) 31) (2 ^ 64 - 1) * 10 ^ 9)
       (dur_nanos (max_delay p)) \<and>
     (subsec_nanos (base_delay p) = 0 \<and> n \<le> 32 \<and> dur_nanos (max_delay p) \<le> (2 ^ 64 - 1) * 10 ^ 9 \<longrightarrow>
        dur_nanos (backoff p n) = min (dur_nanos (base_delay p) * 2 ^ (unat n - 1)) (dur_nanos (max_delay p)))"
proof (intro conjI impI, goal_cases)
  case 1
  from assms show ?case by (rule dur_nanos_backoff)
next
  case 2
  then have "unat n \<le> unat (32 :: u32)" by (simp add: word_le_nat_alt)
  then have e: "min (unat n - 1) 31 = unat n - 1" by simp
  have cap: "min (min a k * g) d = min (a * g) d" if "d \<le> k * g" for a k g d :: nat
  proof (cases "a \<le> k")
    case False
    then have "k * g \<le> a * g" by (intro mult_le_mono1) simp
    with that have "min (k * g) d = d" "min (a * g) d = d" by linarith+
    with False show ?thesis by simp
  qed simp
  from 2 have b: "dur_nanos (base_delay p) * 2 ^ (unat n - 1) = unat (as_secs (base_delay p)) * 2 ^ (unat n - 1) * 10 ^ 9"
    by (simp add: dur_nanos_def)
  from 2 show ?case unfolding dur_nanos_backoff [OF assms] e b by (intro cap) simp
qed

theorem backoff_exact_witness:
  "dur_wf (max_delay default_retry_policy) \<and>
   dur_nanos (backoff default_retry_policy 4) = 240 * 10 ^ 9 \<and>
   dur_nanos (backoff default_retry_policy 9) = 3600 * 10 ^ 9"
  using backoff_exact [of default_retry_policy 4] backoff_exact [of default_retry_policy 9]
  by (simp add: default_retry_policy_def from_secs_def dur_wf_def dur_nanos_def)

text \<open>The backoff never exceeds \<open>max_delay\<close> and never decreases from one attempt to the
  next.\<close>

lemma backoff_capped_and_monotone:
  assumes "dur_wf (max_delay p)" and "m \<le> n"
  shows "backoff p n \<le> max_delay p \<and> backoff p m \<le> backoff p n"
proof
  show "backoff p n \<le> max_delay p" by (simp add: backoff_def Let_def)
  from assms(2) have e: "min (unat m - 1) 31 \<le> min (unat n - 1) 31"
    by (auto simp: word_le_nat_alt)
  have "(2::nat) ^ min (unat m - 1) 31 \<le> 2 ^ min (unat n - 1) 31"
    using e by (rule power_increasing) simp
  then have "unat (as_secs (base_delay p)) * 2 ^ min (unat m - 1) 31
      \<le> unat (as_secs (base_delay p)) * 2 ^ min (unat n - 1) 31"
    by (rule mult_le_mono2)
  then have "dur_nanos (backoff p m) \<le> dur_nanos (backoff p n)"
    unfolding dur_nanos_backoff [OF assms(1)] by (intro min.mono mult_le_mono1) simp_all
  with assms(1) show "backoff p m \<le> backoff p n"
    by (simp add: dur_le_iff)
qed

end
