(* ===== verification/Core_Queue.thy ===== *)
theory Core_Queue
  imports Core_Message
begin

text \<open>
  Models \<open>crates/core/src/queue.rs\<close>. The trait object \<open>Arc<dyn Queue>\<close> is the record of its
  methods over a state type. Every call carries the environment's part in it, an \<open>io\<close>: the
  reading of \<open>Utc::now()\<close> the backend makes during the call, and whether the backend's statement
  fails (with which text). The locale \<open>mail_queue\<close> is the contract the trait's comments promise,
  over an abstract store of mails by id; the dispatcher's and the ingress's lemmas are proved in it.
\<close>

section \<open>The trait\<close>

record io =
  io_now :: datetime
  io_fault :: "string option"

record 'q queue_ops =
  q_enqueue :: "io \<Rightarrow> mail \<Rightarrow> 'q \<Rightarrow> 'q \<times> (core_error + mail)"
  q_fetch_due :: "io \<Rightarrow> u32 \<Rightarrow> datetime \<Rightarrow> 'q \<Rightarrow> core_error + mail list"
  q_mark_sending :: "io \<Rightarrow> mail_id \<Rightarrow> 'q \<Rightarrow> 'q \<times> (core_error + unit)"
  q_mark_sent :: "io \<Rightarrow> mail_id \<Rightarrow> 'q \<Rightarrow> 'q \<times> (core_error + unit)"
  q_mark_failed :: "io \<Rightarrow> mail_id \<Rightarrow> string \<Rightarrow> datetime \<Rightarrow> 'q \<Rightarrow> 'q \<times> (core_error + unit)"
  q_mark_dead :: "io \<Rightarrow> mail_id \<Rightarrow> string \<Rightarrow> 'q \<Rightarrow> 'q \<times> (core_error + unit)"
  q_requeue_sending :: "io \<Rightarrow> 'q \<Rightarrow> 'q \<times> (core_error + nat)"
  q_requeue_stale_sending :: "io \<Rightarrow> datetime \<Rightarrow> 'q \<Rightarrow> 'q \<times> (core_error + nat)"
  q_get :: "io \<Rightarrow> mail_id \<Rightarrow> 'q \<Rightarrow> core_error + mail"

section \<open>The abstract store\<close>

type_synonym store = "mail_id \<rightharpoonup> mail"

text \<open>The instants a backend can store as text with a four-digit year: from 0000-01-01 to the end
  of the year 9999.\<close>

definition ts_ok :: "datetime \<Rightarrow> bool" where
  "ts_ok t = (- 62167219200 * 10 ^ 9 \<le> t \<and> t < 253402300800 * 10 ^ 9)"

definition mail_ts_ok :: "mail \<Rightarrow> bool" where
  "mail_ts_ok m = (ts_ok (created_at m) \<and> ts_ok (updated_at m) \<and> ts_ok (next_attempt_at m))"

definition set_mail_status ::
  "datetime \<Rightarrow> mail_status \<Rightarrow> string option \<Rightarrow> bool \<Rightarrow> datetime option \<Rightarrow> mail \<Rightarrow> mail" where
  "set_mail_status now st err bump retry m =
     m\<lparr>status := st, last_error := err, updated_at := now,
       attempts := (if bump then attempts m + 1 else attempts m),
       next_attempt_at := (case retry of Some t \<Rightarrow> t | None \<Rightarrow> next_attempt_at m)\<rparr>"

definition requeued :: "datetime \<Rightarrow> mail \<Rightarrow> mail" where
  "requeued now m = m\<lparr>status := Pending, updated_at := now\<rparr>"

definition requeue_store :: "datetime \<Rightarrow> (mail \<Rightarrow> bool) \<Rightarrow> store \<Rightarrow> store" where
  "requeue_store now P M =
     (\<lambda>i. map_option (\<lambda>m. if status m = Sending \<and> P m then requeued now m else m) (M i))"

definition due :: "datetime \<Rightarrow> mail \<Rightarrow> bool" where
  "due now m = (live m \<and> next_attempt_at m \<le> now)"

text \<open>\<open>ms\<close> is an answer to \<open>fetch_due limit now\<close>: due mails of the store, each once, oldest first,
  as many as there are up to the limit, and no due mail older than these is left out.\<close>

definition due_batch :: "store \<Rightarrow> u32 \<Rightarrow> datetime \<Rightarrow> mail list \<Rightarrow> bool" where
  "due_batch M limit now ms =
     (distinct (map id_of ms) \<and>
      (\<forall>m \<in> set ms. M (id_of m) = Some m \<and> due now m) \<and>
      sorted (map next_attempt_at ms) \<and>
      length ms = min (unat limit) (card {i. \<exists>m. M i = Some m \<and> due now m}) \<and>
      (\<forall>i m. M i = Some m \<and> due now m \<and> m \<notin> set ms \<longrightarrow>
         (\<forall>b \<in> set ms. next_attempt_at b \<le> next_attempt_at m)))"

text \<open>What a status transition of one mail does: a failing statement and an unknown id leave the
  state as it is, otherwise the mail is updated.\<close>

definition marks ::
  "('q \<Rightarrow> bool) \<Rightarrow> ('q \<Rightarrow> store) \<Rightarrow> (mail_id \<Rightarrow> string) \<Rightarrow> io \<Rightarrow> mail_id \<Rightarrow>
   ('q \<Rightarrow> 'q \<times> (core_error + unit)) \<Rightarrow> (mail \<Rightarrow> mail) \<Rightarrow> bool" where
  "marks ok view ids io i f u =
     (\<forall>q. ok q \<longrightarrow>
        (case io_fault io of
           Some e \<Rightarrow> f q = (q, Inl (Queue e))
         | None \<Rightarrow>
             (case view q i of
                None \<Rightarrow> f q = (q, Inl (NotFound (ids i)))
              | Some m \<Rightarrow>
                  (\<exists>q'. f q = (q', Inr ()) \<and> ok q' \<and> view q' = (view q)(i \<mapsto> u m)))))"

definition requeues ::
  "('q \<Rightarrow> bool) \<Rightarrow> ('q \<Rightarrow> store) \<Rightarrow> io \<Rightarrow> ('q \<Rightarrow> 'q \<times> (core_error + nat)) \<Rightarrow> (mail \<Rightarrow> bool) \<Rightarrow> bool" where
  "requeues ok view io f P =
     (\<forall>q. ok q \<longrightarrow>
        (case io_fault io of
           Some e \<Rightarrow> f q = (q, Inl (Queue e))
         | None \<Rightarrow>
             (\<exists>q'. f q = (q', Inr (card {i. \<exists>m. view q i = Some m \<and> status m = Sending \<and> P m})) \<and>
                   ok q' \<and> view q' = requeue_store (io_now io) P (view q))))"

section \<open>The contract\<close>

locale mail_queue =
  fixes Q :: "'q queue_ops"
    and ok :: "'q \<Rightarrow> bool"
    and view :: "'q \<Rightarrow> store"
    and ids :: "mail_id \<Rightarrow> string"
  assumes keyed: "ok q \<Longrightarrow> view q i = Some m \<Longrightarrow> id_of m = i"
    and finite_store: "ok q \<Longrightarrow> finite (dom (view q))"
    and enqueue_fault: "ok q \<Longrightarrow> mail_ts_ok m \<Longrightarrow> io_fault io = Some e \<Longrightarrow>
          q_enqueue Q io m q = (q, Inl (Queue e))"
    and enqueue_new: "ok q \<Longrightarrow> mail_ts_ok m \<Longrightarrow> io_fault io = None \<Longrightarrow> view q (id_of m) = None \<Longrightarrow>
          \<exists>q'. q_enqueue Q io m q = (q', Inr m) \<and> ok q' \<and> view q' = (view q)(id_of m \<mapsto> m)"
    and enqueue_dup: "ok q \<Longrightarrow> mail_ts_ok m \<Longrightarrow> io_fault io = None \<Longrightarrow> view q (id_of m) \<noteq> None \<Longrightarrow>
          \<exists>e. q_enqueue Q io m q = (q, Inl (Queue e))"
    and fetch_fault: "ok q \<Longrightarrow> io_fault io = Some e \<Longrightarrow>
          q_fetch_due Q io limit now q = Inl (Queue e)"
    and fetch_ok: "ok q \<Longrightarrow> ts_ok now \<Longrightarrow> io_fault io = None \<Longrightarrow>
          \<exists>ms. q_fetch_due Q io limit now q = Inr ms \<and> due_batch (view q) limit now ms"
    and mark_sending_law: "ts_ok (io_now io) \<Longrightarrow>
          marks ok view ids io i (q_mark_sending Q io i)
            (set_mail_status (io_now io) Sending None False None)"
    and mark_sent_law: "ts_ok (io_now io) \<Longrightarrow>
          marks ok view ids io i (q_mark_sent Q io i)
            (set_mail_status (io_now io) Sent None False None)"
    and mark_failed_law: "ts_ok (io_now io) \<Longrightarrow> ts_ok retry \<Longrightarrow>
          marks ok view ids io i (q_mark_failed Q io i e retry)
            (set_mail_status (io_now io) Failed (Some e) True (Some retry))"
    and mark_dead_law: "ts_ok (io_now io) \<Longrightarrow>
          marks ok view ids io i (q_mark_dead Q io i e)
            (set_mail_status (io_now io) Dead (Some e) True None)"
    and requeue_sending_law: "ts_ok (io_now io) \<Longrightarrow>
          requeues ok view io (q_requeue_sending Q io) (\<lambda>_. True)"
    and requeue_stale_law: "ts_ok (io_now io) \<Longrightarrow> ts_ok cutoff \<Longrightarrow>
          requeues ok view io (q_requeue_stale_sending Q io cutoff) (\<lambda>m. updated_at m < cutoff)"
    and get_law: "ok q \<Longrightarrow>
          q_get Q io i q =
            (case io_fault io of
               Some e \<Rightarrow> Inl (Queue e)
             | None \<Rightarrow> (case view q i of None \<Rightarrow> Inl (NotFound (ids i)) | Some m \<Rightarrow> Inr m))"

section \<open>Facts\<close>

lemma set_mail_status_simps [simp]:
  "id_of (set_mail_status t st e b r m) = id_of m"
  "status (set_mail_status t st e b r m) = st"
  "last_error (set_mail_status t st e b r m) = e"
  "updated_at (set_mail_status t st e b r m) = t"
  "created_at (set_mail_status t st e b r m) = created_at m"
  "attempts (set_mail_status t st e b r m) = (if b then attempts m + 1 else attempts m)"
  "next_attempt_at (set_mail_status t st e b r m) =
     (case r of Some t' \<Rightarrow> t' | None \<Rightarrow> next_attempt_at m)"
  "content (set_mail_status t st e b r m) = content m"
  by (simp_all add: set_mail_status_def content_def)

lemma requeued_simps [simp]:
  "id_of (requeued t m) = id_of m"
  "status (requeued t m) = Pending"
  "attempts (requeued t m) = attempts m"
  "updated_at (requeued t m) = t"
  "created_at (requeued t m) = created_at m"
  "next_attempt_at (requeued t m) = next_attempt_at m"
  "content (requeued t m) = content m"
  by (simp_all add: requeued_def content_def)

lemma dom_requeue_store [simp]: "dom (requeue_store t P M) = dom M"
  by (auto simp: requeue_store_def)

lemma requeue_store_Some_iff:
  "requeue_store t P M i = Some m' \<longleftrightarrow>
     (\<exists>m. M i = Some m \<and> m' = (if status m = Sending \<and> P m then requeued t m else m))"
  by (cases "M i") (simp_all add: requeue_store_def eq_commute)

lemma requeue_store_none_sending:
  "requeue_store t (\<lambda>_. True) M i = Some m \<Longrightarrow> status m \<noteq> Sending"
  unfolding requeue_store_Some_iff by (elim exE conjE) simp

lemma due_batchD:
  assumes "due_batch M limit now ms"
  shows "distinct (map id_of ms)"
    and "\<And>m. m \<in> set ms \<Longrightarrow> M (id_of m) = Some m"
    and "\<And>m. m \<in> set ms \<Longrightarrow> due now m"
    and "sorted (map next_attempt_at ms)"
    and "length ms = min (unat limit) (card {i. \<exists>m. M i = Some m \<and> due now m})"
    and "length ms \<le> unat limit"
  using assms unfolding due_batch_def by - (elim conjE, simp)+

text \<open>Every due mail is in the batch when the limit is not reached.\<close>

lemma due_batch_complete:
  assumes b: "due_batch M limit now ms" and fin: "finite (dom M)"
    and key: "\<And>i m. M i = Some m \<Longrightarrow> id_of m = i"
    and room: "length ms < unat limit" and m: "M i = Some m" "due now m"
  shows "m \<in> set ms"
proof -
  let ?D = "{i. \<exists>m. M i = Some m \<and> due now m}"
  have sub: "id_of ` set ms \<subseteq> ?D" using due_batchD(2,3) [OF b] by blast
  have finD: "finite ?D" by (rule finite_subset [OF _ fin]) auto
  have "card (id_of ` set ms) = length ms"
    using due_batchD(1) [OF b] by (metis distinct_card length_map list.set_map)
  also have "\<dots> = card ?D" using due_batchD(5) [OF b] room by simp
  finally have "id_of ` set ms = ?D" using card_subset_eq [OF finD sub] by simp
  with m have "i \<in> id_of ` set ms" by blast
  then obtain m' where "m' \<in> set ms" "id_of m' = i" by blast
  with due_batchD(2) [OF b] m(1) show ?thesis by fastforce
qed

lemma mail_ts_ok_from_new [simp]: "mail_ts_ok (from_new n t i) = ts_ok t"
  by (simp add: mail_ts_ok_def)

end
