(* ===== verification/Dispatcher.thy ===== *)
theory Dispatcher
  imports Retry_Policy Core_Queue Keyed_Maps
begin

text \<open>
  Models \<open>crates/dispatcher/src/lib.rs\<close> with the traits of \<open>crates/core/src/transport.rs\<close>: the
  configuration, \<open>Inner\<close>, \<open>recover\<close>, the delivery of one mail, and \<open>tick\<close> and \<open>run\<close> as a labelled
  step function. A step is one interaction with the queue, the semaphore or a spawned task, so
  that the steps of the claim loop, of the deliveries in flight, of the ingress (which enqueues
  into the same queue) and a kill of the process interleave freely. Each step carries what the
  environment decides: readings of the clock, faults of the queue, the transport's exchange with
  the network.
\<close>

section \<open>Transports, clock arithmetic, configuration\<close>

text \<open>\<open>dyn Transport\<close>: \<open>send\<close> depends on the state of the outside world \<open>'n\<close>; it answers, or
  panics (\<open>None\<close>).\<close>

record 'n transport_ops =
  tr_name :: string
  tr_send :: "'n \<Rightarrow> mail \<Rightarrow> (core_error + unit) option"

text \<open>chrono: \<open>Duration::from_std\<close> refuses a duration beyond its maximum, as many milliseconds as an \<open>i64\<close>
  holds (\<open>None\<close>); adding to and
  subtracting from an instant panics outside the calendar's range (\<open>None\<close>).\<close>

record chrono =
  from_std :: "duration \<Rightarrow> time_delta option"
  dt_add :: "datetime \<Rightarrow> time_delta \<Rightarrow> datetime option"
  dt_sub :: "datetime \<Rightarrow> time_delta \<Rightarrow> datetime option"

definition chrono_ok :: "chrono \<Rightarrow> bool" where
  "chrono_ok C =
     ((\<forall>d. from_std C d =
        (if int (dur_nanos d) \<le> (2 ^ 63 - 1) * 10 ^ 6 then Some (int (dur_nanos d)) else None)) \<and>
      (\<forall>t d. ts_ok t \<and> ts_ok (t + d) \<longrightarrow> dt_add C t d = Some (t + d)) \<and>
      (\<forall>t d. ts_ok t \<and> ts_ok (t - d) \<longrightarrow> dt_sub C t d = Some (t - d)))"

record dispatcher_config =
  batch_size :: u32
  concurrency :: nat
  poll_interval :: duration
  sending_lease :: duration
  retry :: retry_policy

definition default_dispatcher_config :: dispatcher_config where
  "default_dispatcher_config =
     \<lparr>batch_size = 64, concurrency = 8, poll_interval = from_secs 5, sending_lease = from_secs 120,
      retry = default_retry_policy\<rparr>"

record 'n inner =
  transports :: "'n transport_ops hash_map"
  disp_default :: "string option"
  disp_config :: dispatcher_config

definition dispatcher_new ::
  "'n transport_ops hash_map \<Rightarrow> string option \<Rightarrow> dispatcher_config \<Rightarrow> 'n inner" where
  "dispatcher_new ts d c = \<lparr>transports = ts, disp_default = d, disp_config = c\<rparr>"

section \<open>Delivering one mail\<close>

text \<open>The environment's part in one delivery: the network, the clock when a retry is scheduled,
  the queue call that records the outcome.\<close>

record 'n denv =
  d_net :: 'n
  d_now :: datetime
  d_io :: io

definition no_transport_message :: "mail \<Rightarrow> string option \<Rightarrow> string" where
  "no_transport_message m d =
     ''no transport available (requested '' @ debug_opt_str (transport m) @ '', default '' @
     debug_opt_str d @ '')''"

definition retry_at :: "chrono \<Rightarrow> retry_policy \<Rightarrow> u32 \<Rightarrow> datetime \<Rightarrow> datetime option" where
  "retry_at C p n now =
     dt_add C now (case from_std C (backoff p n) of Some d \<Rightarrow> d | None \<Rightarrow> 60 * 10 ^ 9)"

text \<open>The transport a mail is delivered with, with its name.\<close>

definition pick_transport :: "'n inner \<Rightarrow> mail \<Rightarrow> (string \<times> 'n transport_ops) option" where
  "pick_transport I m =
     (case (case transport m of Some n \<Rightarrow> Some n | None \<Rightarrow> disp_default I) of
        None \<Rightarrow> None
      | Some n \<Rightarrow> map_option (Pair n) (hm_get (transports I) n))"

text \<open>\<open>deliver\<close> changes the queue by at most one call, after the transport has answered. The second
  component is the exchange with the transport, if there was one: its name and its answer. A
  panic (of the transport, of \<open>attempts + 1\<close>, of the clock arithmetic) ends the task there.\<close>

type_synonym exchange = "(string \<times> (core_error + unit) option) option"

definition deliver ::
  "bool \<Rightarrow> 'q queue_ops \<Rightarrow> chrono \<Rightarrow> 'n inner \<Rightarrow> 'n denv \<Rightarrow> mail \<Rightarrow> 'q \<Rightarrow> 'q \<times> exchange" where
  "deliver dbg Q C I env m q =
     (case pick_transport I m of
        None \<Rightarrow>
          (fst (q_mark_dead Q (d_io env) (id_of m) (no_transport_message m (disp_default I)) q), None)
      | Some (n, tr) \<Rightarrow>
          (case tr_send tr (d_net env) m of
             None \<Rightarrow> (q, Some (n, None))
           | Some (Inr _) \<Rightarrow> (fst (q_mark_sent Q (d_io env) (id_of m) q), Some (n, Some (Inr ())))
           | Some (Inl err) \<Rightarrow>
               ((case plain_add dbg (attempts m) 1 of
                   None \<Rightarrow> q
                 | Some a \<Rightarrow>
                     (if is_exhausted (retry (disp_config I)) a
                      then fst (q_mark_dead Q (d_io env) (id_of m) (core_error_to_string err) q)
                      else (case retry_at C (retry (disp_config I)) a (d_now env) of
                              None \<Rightarrow> q
                            | Some t \<Rightarrow>
                                fst (q_mark_failed Q (d_io env) (id_of m) (core_error_to_string err) t q)))),
                Some (n, Some (Inl err)))))"

definition recover :: "'q queue_ops \<Rightarrow> io \<Rightarrow> 'q \<Rightarrow> 'q" where
  "recover Q io q = fst (q_requeue_sending Q io q)"

section \<open>The run loop\<close>

text \<open>\<open>Claiming ms n\<close>: the \<open>for\<close> loop with the mails still to claim and the number of tasks
  spawned so far; \<open>Acquiring m ms n\<close>: \<open>m\<close> is claimed and waits for a permit; with no mail left
  the loop waits for the tasks (\<open>handle.await\<close>), answers \<open>n\<close> and polls again. \<open>Crashed\<close>: the
  dispatcher's own task panicked, as \<open>tokio::time::interval\<close> does on a zero period. \<open>Kill lost\<close>
  ends the process at any point and starts it again: \<open>lost\<close> are the deliveries in flight, by their
  position, whose exchange with the transport had taken place and was not recorded yet.\<close>

datatype phase =
    Starting
  | Polling
  | Fetching datetime
  | Claiming "mail list" nat
  | Acquiring mail "mail list" nat
  | Stopped
  | Crashed

record 'q dstate =
  queue_of :: 'q
  phase_of :: phase
  flight :: "mail list"
  sends :: "(mail_id \<times> exchange) list"
  processed :: "nat list"

datatype 'n action =
    Recover io
  | Reclaim datetime io
  | Fetch io
  | Claim io
  | Spawn
  | Finish nat "'n denv"
  | Join
  | Ingress new_mail datetime mail_id io
  | Shutdown
  | Kill "(nat \<times> 'n denv) list"

definition lease_delta :: "chrono \<Rightarrow> dispatcher_config \<Rightarrow> time_delta" where
  "lease_delta C cfg = (case from_std C (sending_lease cfg) of Some d \<Rightarrow> d | None \<Rightarrow> 120 * 10 ^ 9)"

definition max_permits :: nat where
  "max_permits = 2 ^ 61 - 1"

text \<open>After \<open>fetch_due\<close>: an error or an empty answer ends the tick with \<open>0\<close>; \<open>Semaphore::new\<close> panics
  above its limit.\<close>

definition fetched :: "dispatcher_config \<Rightarrow> core_error + mail list \<Rightarrow> 'q dstate \<Rightarrow> 'q dstate" where
  "fetched cfg res s =
     (case res of
        Inl _ \<Rightarrow> s\<lparr>phase_of := Polling, processed := processed s @ [0]\<rparr>
      | Inr ms \<Rightarrow>
          (if ms = [] then s\<lparr>phase_of := Polling, processed := processed s @ [0]\<rparr>
           else if max_permits < concurrency cfg then s\<lparr>phase_of := Crashed\<rparr>
           else s\<lparr>phase_of := Claiming ms 0\<rparr>))"

definition claimed :: "mail \<Rightarrow> mail list \<Rightarrow> nat \<Rightarrow> 'q \<times> (core_error + unit) \<Rightarrow> 'q dstate \<Rightarrow> 'q dstate" where
  "claimed m ms n res s =
     s\<lparr>queue_of := fst res,
       phase_of := (case snd res of Inl _ \<Rightarrow> Claiming ms n | Inr _ \<Rightarrow> Acquiring m ms n)\<rparr>"

definition finished :: "nat \<Rightarrow> 'q \<times> exchange \<Rightarrow> 'q dstate \<Rightarrow> 'q dstate" where
  "finished k res s =
     s\<lparr>queue_of := fst res, flight := take k (flight s) @ drop (Suc k) (flight s),
       sends := sends s @ [(id_of (flight s ! k), snd res)]\<rparr>"

fun step ::
  "bool \<Rightarrow> 'q queue_ops \<Rightarrow> chrono \<Rightarrow> 'n inner \<Rightarrow> 'n action \<Rightarrow> 'q dstate \<Rightarrow> 'q dstate option" where
  "step dbg Q C I (Recover io) s =
     (if phase_of s = Starting
      then Some (s\<lparr>queue_of := recover Q io (queue_of s),
                   phase_of := (if poll_interval (disp_config I) = from_secs 0 then Crashed else Polling)\<rparr>)
      else None)"
| "step dbg Q C I (Reclaim now io) s =
     (if phase_of s = Polling
      then (case dt_sub C now (lease_delta C (disp_config I)) of
              None \<Rightarrow> Some (s\<lparr>phase_of := Crashed\<rparr>)
            | Some cutoff \<Rightarrow>
                Some (s\<lparr>queue_of := fst (q_requeue_stale_sending Q io cutoff (queue_of s)),
                        phase_of := Fetching now\<rparr>))
      else None)"
| "step dbg Q C I (Fetch io) s =
     (case phase_of s of
        Fetching now \<Rightarrow>
          Some (fetched (disp_config I)
            (q_fetch_due Q io (batch_size (disp_config I)) now (queue_of s)) s)
      | _ \<Rightarrow> None)"
| "step dbg Q C I (Claim io) s =
     (case phase_of s of
        Claiming (m # ms) n \<Rightarrow>
          Some (claimed m ms n (q_mark_sending Q io (id_of m) (queue_of s)) s)
      | _ \<Rightarrow> None)"
| "step dbg Q C I Spawn s =
     (case phase_of s of
        Acquiring m ms n \<Rightarrow>
          (if length (flight s) < concurrency (disp_config I)
           then Some (s\<lparr>flight := flight s @ [m], phase_of := Claiming ms (Suc n)\<rparr>)
           else None)
      | _ \<Rightarrow> None)"
| "step dbg Q C I (Finish k env) s =
     (if k < length (flight s)
      then Some (finished k (deliver dbg Q C I env (flight s ! k) (queue_of s)) s)
      else None)"
| "step dbg Q C I Join s =
     (case phase_of s of
        Claiming [] n \<Rightarrow>
          (if flight s = [] then Some (s\<lparr>phase_of := Polling, processed := processed s @ [n]\<rparr>) else None)
      | _ \<Rightarrow> None)"
| "step dbg Q C I (Ingress new t i io) s =
     Some (s\<lparr>queue_of := fst (q_enqueue Q io (from_new new t i) (queue_of s))\<rparr>)"
| "step dbg Q C I Shutdown s =
     (if phase_of s = Polling then Some (s\<lparr>phase_of := Stopped\<rparr>) else None)"
| "step dbg Q C I (Kill lost) s =
     (if distinct (map fst lost) \<and> (\<forall>(k, env) \<in> set lost. k < length (flight s))
      then Some (s\<lparr>phase_of := Starting, flight := [],
                   sends := sends s @ map (\<lambda>(k, env). (id_of (flight s ! k),
                     snd (deliver dbg Q C I env (flight s ! k) (queue_of s)))) lost\<rparr>)
      else None)"

fun steps ::
  "bool \<Rightarrow> 'q queue_ops \<Rightarrow> chrono \<Rightarrow> 'n inner \<Rightarrow> 'n action list \<Rightarrow> 'q dstate \<Rightarrow> 'q dstate option" where
  "steps dbg Q C I [] s = Some s"
| "steps dbg Q C I (a # as) s =
     (case step dbg Q C I a s of None \<Rightarrow> None | Some s' \<Rightarrow> steps dbg Q C I as s')"

definition start :: "'q \<Rightarrow> 'q dstate" where
  "start q = \<lparr>queue_of = q, phase_of = Starting, flight = [], sends = [], processed = []\<rparr>"

section \<open>What the environment may do\<close>

text \<open>The clock shows a year between 0000 and 9999, also after the longest delay and before the
  lease.\<close>

definition denv_ok :: "'n inner \<Rightarrow> 'n denv \<Rightarrow> bool" where
  "denv_ok I env =
     (ts_ok (io_now (d_io env)) \<and> ts_ok (d_now env) \<and>
      ts_ok (d_now env + int (max (dur_nanos (max_delay (retry (disp_config I)))) (60 * 10 ^ 9))))"

fun action_ok :: "'n inner \<Rightarrow> 'n action \<Rightarrow> bool" where
  "action_ok I (Recover io) = ts_ok (io_now io)"
| "action_ok I (Reclaim now io) =
     (ts_ok (io_now io) \<and> ts_ok now \<and>
      ts_ok (now - int (max (dur_nanos (sending_lease (disp_config I))) (120 * 10 ^ 9))))"
| "action_ok I (Claim io) = ts_ok (io_now io)"
| "action_ok I (Finish k env) = denv_ok I env"
| "action_ok I (Ingress new t i io) = ts_ok t"
| "action_ok I _ = True"

text \<open>The states the loop reaches from a queue \<open>q0\<close> by actions in \<open>P\<close>.\<close>

inductive reachable ::
  "('n action \<Rightarrow> bool) \<Rightarrow> bool \<Rightarrow> 'q queue_ops \<Rightarrow> chrono \<Rightarrow> 'n inner \<Rightarrow> 'q \<Rightarrow> 'q dstate \<Rightarrow> bool"
  for P dbg Q C I q0 where
  init: "reachable P dbg Q C I q0 (start q0)"
| next_step: "reachable P dbg Q C I q0 s \<Longrightarrow> P a \<Longrightarrow> step dbg Q C I a s = Some s' \<Longrightarrow>
     reachable P dbg Q C I q0 s'"

end
