(* ===== verification/Transport_Smtp.thy ===== *)
theory Transport_Smtp
  imports Core_Config Dispatcher
begin

text \<open>
  Models \<open>crates/transport-smtp/src/lib.rs\<close>: construction of the SMTP transport, the conversion of a
  mail into a message and \<open>send\<close>. The record \<open>lettre\<close> collects what the file calls of the lettre
  crate: the parser of mailboxes, the end of the message builder (sender, subject, recipients in
  order, body), the lookup of a STARTTLS relay, and the exchange with the server.
\<close>

section \<open>Third-party functions\<close>

record smtp_mailer =
  mailer_host :: string
  mailer_port :: u16
  mailer_user :: string
  mailer_password :: string

record ('b, 'msg, 'n) lettre =
  parse_mailbox :: "string \<Rightarrow> string + 'b"
  build_body :: "'b \<Rightarrow> string \<Rightarrow> 'b list \<Rightarrow> string \<Rightarrow> string + 'msg"
  starttls_relay :: "string \<Rightarrow> string + unit"
  mailer_send :: "'n \<Rightarrow> smtp_mailer \<Rightarrow> 'msg \<Rightarrow> (string + unit) option"

section \<open>The transport\<close>

record smtp_transport =
  smtp_name :: string
  mailer :: smtp_mailer

definition smtp_new ::
  "('b, 'msg, 'n) lettre \<Rightarrow> (string \<Rightarrow> string option) \<Rightarrow> smtp_config \<Rightarrow> core_error + smtp_transport" where
  "smtp_new L env c =
     res_bind (map_err (\<lambda>e. Transport (config_error_to_string e)) (smtp_password env c)) (\<lambda>pw.
     res_bind (map_err Transport (starttls_relay L (host c))) (\<lambda>_.
     Inr \<lparr>smtp_name = ''smtp'',
          mailer = \<lparr>mailer_host = host c, mailer_port = port c, mailer_user = username c, mailer_password = pw\<rparr>\<rparr>))"

definition mailbox :: "('b, 'msg, 'n) lettre \<Rightarrow> address \<Rightarrow> core_error + 'b" where
  "mailbox L a =
     (let raw = (case addr_name a of Some n \<Rightarrow> n @ '' <'' @ email a @ ''>'' | None \<Rightarrow> email a)
      in map_err InvalidMail (parse_mailbox L raw))"

definition build_message :: "('b, 'msg, 'n) lettre \<Rightarrow> mail \<Rightarrow> core_error + 'msg" where
  "build_message L m =
     res_bind (mailbox L (from_addr m)) (\<lambda>frm.
     res_bind (collect_res (mailbox L) (to_addrs m)) (\<lambda>tos.
     map_err InvalidMail (build_body L frm (subject m) tos (body m))))"

definition smtp_send ::
  "('b, 'msg, 'n) lettre \<Rightarrow> smtp_transport \<Rightarrow> 'n \<Rightarrow> mail \<Rightarrow> (core_error + unit) option" where
  "smtp_send L t net m =
     (case build_message L m of
        Inl e \<Rightarrow> Some (Inl e)
      | Inr msg \<Rightarrow> map_option (map_err Transport) (mailer_send L net (mailer t) msg))"

definition smtp_ops :: "('b, 'msg, 'n) lettre \<Rightarrow> smtp_transport \<Rightarrow> 'n transport_ops" where
  "smtp_ops L t = \<lparr>tr_name = smtp_name t, tr_send = smtp_send L t\<rparr>"

section \<open>Properties\<close>

lemma mailbox_InvalidMail: "mailbox L a = Inl e \<Longrightarrow> \<exists>s. e = InvalidMail s"
  by (auto simp: mailbox_def Let_def map_err_def split: sum.splits)

lemma build_message_error: "build_message L m = Inl e \<Longrightarrow> \<exists>s. e = InvalidMail s"
proof -
  assume err: "build_message L m = Inl e"
  have list: "collect_res (mailbox L) as = Inl e' \<Longrightarrow> \<exists>s. e' = InvalidMail s" for as e'
    by (induction as) (auto simp: res_bind_def split: sum.splits dest: mailbox_InvalidMail)
  show ?thesis
    using err by (auto simp: build_message_def res_bind_def map_err_def split: sum.splits
        dest: mailbox_InvalidMail list)
qed

lemma build_message_ok_iff:
  "build_message L m = Inr msg \<longleftrightarrow>
     (\<exists>frm tos. mailbox L (from_addr m) = Inr frm \<and>
        list_all2 (\<lambda>a b. mailbox L a = Inr b) (to_addrs m) tos \<and>
        build_body L frm (subject m) tos (body m) = Inr msg)"
  by (auto simp: build_message_def res_bind_eq_Inr_iff collect_res_eq_Inr_iff)

text \<open>C33: \<open>send\<close> reports success exactly when the sender and every recipient parse as mailboxes, the
  message builds from them in order, and the server takes that message; the mail server is only
  asked when the message could be built. An address or message that cannot be built is reported
  as an invalid mail, every refusal of the server as a transport error.\<close>

theorem smtp_send_outcome:
  "(smtp_send L t net m = Some (Inr ()) \<longleftrightarrow>
      (\<exists>frm tos msg. mailbox L (from_addr m) = Inr frm \<and>
         list_all2 (\<lambda>a b. mailbox L a = Inr b) (to_addrs m) tos \<and>
         build_body L frm (subject m) tos (body m) = Inr msg \<and>
         mailer_send L net (mailer t) msg = Some (Inr ()))) \<and>
   (\<forall>e. smtp_send L t net m = Some (Inl e) \<longrightarrow>
      (\<exists>s. e = InvalidMail s \<and> build_message L m = Inl e) \<or>
      (\<exists>s msg. e = Transport s \<and> build_message L m = Inr msg \<and> mailer_send L net (mailer t) msg = Some (Inl s)))"
proof (intro conjI allI impI)
  show "smtp_send L t net m = Some (Inr ()) \<longleftrightarrow>
      (\<exists>frm tos msg. mailbox L (from_addr m) = Inr frm \<and>
         list_all2 (\<lambda>a b. mailbox L a = Inr b) (to_addrs m) tos \<and>
         build_body L frm (subject m) tos (body m) = Inr msg \<and>
         mailer_send L net (mailer t) msg = Some (Inr ()))"
  proof -
    have "smtp_send L t net m = Some (Inr ()) \<longleftrightarrow>
        (\<exists>msg. build_message L m = Inr msg \<and> mailer_send L net (mailer t) msg = Some (Inr ()))"
      by (auto simp: smtp_send_def split: sum.split)
    then show ?thesis unfolding build_message_ok_iff by blast
  qed
next
  fix e assume "smtp_send L t net m = Some (Inl e)"
  then show "(\<exists>s. e = InvalidMail s \<and> build_message L m = Inl e) \<or>
      (\<exists>s msg. e = Transport s \<and> build_message L m = Inr msg \<and> mailer_send L net (mailer t) msg = Some (Inl s))"
    by (auto simp: smtp_send_def map_err_eq_Inl_iff dest: build_message_error split: sum.splits)
qed

definition sample_lettre :: "(string, string list, bool) lettre" where
  "sample_lettre =
     \<lparr>parse_mailbox = (\<lambda>s. if s = [] then Inl ''empty'' else Inr s), build_body = (\<lambda>f s ts b. Inr (f # s # b # ts)),
      starttls_relay = (\<lambda>_. Inr ()), mailer_send = (\<lambda>up s msg. Some (if up then Inr () else Inl ''refused''))\<rparr>"

definition sample_smtp :: smtp_transport where
  "sample_smtp =
     \<lparr>smtp_name = ''smtp'',
      mailer = \<lparr>mailer_host = ''mx'', mailer_port = 587, mailer_user = ''u'', mailer_password = ''p''\<rparr>\<rparr>"

theorem smtp_send_outcome_witness:
  "smtp_send sample_lettre sample_smtp True
     (from_new \<lparr>nm_from = address_new ''a'', nm_to = [address_new ''b''], nm_subject = ''s'', nm_body = ''x'', nm_transport = None\<rparr> 0 1) =
   Some (Inr ())"
proof -
  let ?m = "from_new \<lparr>nm_from = address_new ''a'', nm_to = [address_new ''b''], nm_subject = ''s'', nm_body = ''x'', nm_transport = None\<rparr> 0 1"
  have "mailbox sample_lettre (address_new s) = Inr s" if "s \<noteq> []" for s
    using that by (simp add: mailbox_def sample_lettre_def)
  then show ?thesis
    unfolding smtp_send_outcome [THEN conjunct1, of sample_lettre sample_smtp True ?m]
    by (simp add: list_all2_Cons1) (simp add: sample_lettre_def)
qed

end
