(* ===== verification/Plugin_Host.thy ===== *)
theory Plugin_Host
  imports Core_Config Dispatcher
begin

text \<open>
  Models \<open>crates/plugin/src\<close>: the manifest, the HTTP request a script can make, the host functions
  registered in the Rhai engine (\<open>engine.rs\<close>), discovery and loading (\<open>loader.rs\<close>), and the
  adapter that makes a loaded script a transport (\<open>transport.rs\<close>). Rhai, reqwest, serde_json, toml
  and the file system are parameters. A Rhai map is a \<open>BTreeMap\<close>.
\<close>

section \<open>Errors and manifests\<close>

datatype plugin_error =
    PluginIo string string
  | PluginManifest string
  | PluginCompile string
  | PluginInvalid string

fun plugin_error_to_string :: "plugin_error \<Rightarrow> string" where
  "plugin_error_to_string (PluginIo p s) = ''could not read '' @ p @ '': '' @ s"
| "plugin_error_to_string (PluginManifest s) = ''invalid manifest: '' @ s"
| "plugin_error_to_string (PluginCompile s) = ''script compile error: '' @ s"
| "plugin_error_to_string (PluginInvalid s) = ''invalid plugin: '' @ s"

record manifest =
  mf_name :: string
  mf_version :: string
  mf_kind :: string
  mf_capabilities :: "string list"
  mf_description :: string
  mf_entry :: string

definition default_entry :: string where
  "default_entry = ''script.rhai''"

definition has_capability :: "manifest \<Rightarrow> string \<Rightarrow> bool" where
  "has_capability mf c = list_ex (\<lambda>x. x = c) (mf_capabilities mf)"

section \<open>HTTP\<close>

datatype http_body = NoBody | TextBody string | FormBody "(string \<times> string) list"

record http_request =
  req_method :: string
  req_url :: string
  req_headers :: "(string \<times> string) list"
  req_body :: http_body

record http_response =
  resp_status :: u16
  resp_body :: string

text \<open>An HTTP client (the trait \<open>HttpClient\<close>) answers a request and may change the world \<open>'w\<close> it acts on:
  the network for the real client, the list of recorded requests for the tests' one.\<close>

type_synonym 'w http_client = "'w \<Rightarrow> http_request \<Rightarrow> 'w \<times> (string + http_response)"

text \<open>reqwest: building the client, parsing the method, sending (the status and the body's text, which
  may fail to read). The timeouts of the client are not modelled.\<close>

record ('meth, 'n) reqwest =
  client_build :: "string + unit"
  method_from_bytes :: "string \<Rightarrow> string + 'meth"
  send_request :: "'n \<Rightarrow> 'meth \<Rightarrow> string \<Rightarrow> (string \<times> string) list \<Rightarrow> http_body \<Rightarrow>
     'n \<times> (string + (u16 \<times> (string + string)))"

definition reqwest_execute :: "('meth, 'n) reqwest \<Rightarrow> 'n http_client" where
  "reqwest_execute R net r =
     (case client_build R of
        Inl e \<Rightarrow> (net, Inl e)
      | Inr _ \<Rightarrow>
          (case method_from_bytes R (req_method r) of
             Inl e \<Rightarrow> (net, Inl (''invalid HTTP method: '' @ e))
           | Inr meth \<Rightarrow>
               (case send_request R net meth (req_url r) (req_headers r) (req_body r) of
                  (net', Inl e) \<Rightarrow> (net', Inl e)
                | (net', Inr (st, txt)) \<Rightarrow>
                    (net', res_bind txt (\<lambda>b. Inr \<lparr>resp_status = st, resp_body = b\<rparr>)))))"

section \<open>The host API\<close>

datatype dyn =
    DUnit
  | DBool bool
  | DInt int
  | DStr string
  | DArray "dyn list"
  | DMap "(string \<times> dyn) list"
  | DOther string

text \<open>\<open>into_string\<close> fails with the name of the actual type.\<close>

definition into_string :: "(dyn \<Rightarrow> string) \<Rightarrow> dyn \<Rightarrow> string + string" where
  "into_string type_name d = (case d of DStr s \<Rightarrow> Inr s | _ \<Rightarrow> Inl (type_name d))"

definition map_to_pairs :: "(dyn \<Rightarrow> string) \<Rightarrow> dyn btree_map \<Rightarrow> string + (string \<times> string) list" where
  "map_to_pairs type_name m =
     collect_res (\<lambda>(k, v). res_bind
         (map_err (\<lambda>actual. ''value for '' @ [CHR 0x27] @ k @ [CHR 0x27] @ '' must be a string, got '' @ actual)
            (into_string type_name v))
         (\<lambda>txt. Inr (k, txt))) m"

text \<open>The errors of an evaluation (\<open>EvalAltResult\<close>) that the host API and the scripts can meet. A string
  converted into one is a runtime error, as is a thrown value.\<close>

datatype rhai_error =
    ErrorRuntime string
  | ErrorFunctionNotFound string
  | ErrorDotExpr string
  | ErrorFor

text \<open>A computation of the engine acts on the world and ends in a value or an error; \<open>?\<close> and an
  uncaught error end it at once (\<open>host_bind\<close>), and \<open>host_res\<close> is a step that makes no request.\<close>

type_synonym ('w, 'a) host = "'w \<Rightarrow> 'w \<times> (rhai_error + 'a)"

definition host_bind :: "('w, 'a) host \<Rightarrow> ('a \<Rightarrow> ('w, 'b) host) \<Rightarrow> ('w, 'b) host" where
  "host_bind c f w = (case c w of (w', Inl e) \<Rightarrow> (w', Inl e) | (w', Inr x) \<Rightarrow> f x w')"

definition host_res :: "rhai_error + 'a \<Rightarrow> ('w, 'a) host" where
  "host_res r w = (w, r)"

definition exec :: "'w http_client \<Rightarrow> http_request \<Rightarrow> ('w, dyn btree_map) host" where
  "exec http r w =
     (case http w r of
        (w', Inl e) \<Rightarrow> (w', Inl (ErrorRuntime (''http error: '' @ e)))
      | (w', Inr resp) \<Rightarrow>
          (w', Inr (bt_insert ''body'' (DStr (resp_body resp))
                      (bt_insert ''status'' (DInt (int (unat (resp_status resp)))) []))))"

definition http_get ::
  "(dyn \<Rightarrow> string) \<Rightarrow> 'w http_client \<Rightarrow> string \<Rightarrow> dyn btree_map \<Rightarrow> ('w, dyn btree_map) host" where
  "http_get ty http url headers =
     host_bind (host_res (map_err ErrorRuntime (map_to_pairs ty headers))) (\<lambda>hs.
     exec http \<lparr>req_method = ''GET'', req_url = url, req_headers = hs, req_body = NoBody\<rparr>)"

definition http_post ::
  "(dyn \<Rightarrow> string) \<Rightarrow> 'w http_client \<Rightarrow> string \<Rightarrow> dyn btree_map \<Rightarrow> string \<Rightarrow> ('w, dyn btree_map) host" where
  "http_post ty http url headers b =
     host_bind (host_res (map_err ErrorRuntime (map_to_pairs ty headers))) (\<lambda>hs.
     exec http \<lparr>req_method = ''POST'', req_url = url, req_headers = hs, req_body = TextBody b\<rparr>)"

definition http_post_form ::
  "(dyn \<Rightarrow> string) \<Rightarrow> 'w http_client \<Rightarrow> string \<Rightarrow> dyn btree_map \<Rightarrow> dyn btree_map \<Rightarrow> ('w, dyn btree_map) host" where
  "http_post_form ty http url headers form =
     host_bind (host_res (map_err ErrorRuntime (map_to_pairs ty headers))) (\<lambda>hs.
     host_bind (host_res (map_err ErrorRuntime (map_to_pairs ty form))) (\<lambda>fs.
     exec http \<lparr>req_method = ''POST'', req_url = url, req_headers = hs, req_body = FormBody fs\<rparr>))"

definition to_json :: "(dyn \<Rightarrow> string + string) \<Rightarrow> dyn \<Rightarrow> rhai_error + string" where
  "to_json ser d = map_err (\<lambda>e. ErrorRuntime (''to_json: '' @ e)) (ser d)"

definition parse_json :: "(string \<Rightarrow> string + 'j) \<Rightarrow> ('j \<Rightarrow> rhai_error + dyn) \<Rightarrow> string \<Rightarrow> rhai_error + dyn" where
  "parse_json de to_dynamic raw =
     res_bind (map_err (\<lambda>e. ErrorRuntime (''parse_json: '' @ e)) (de raw)) to_dynamic"

section \<open>Loading\<close>

datatype platform = Windows | MacOS | OtherUnix

definition plugin_dirs ::
  "(string \<Rightarrow> string option) \<Rightarrow> (string \<Rightarrow> string list) \<Rightarrow> (string \<Rightarrow> string \<Rightarrow> string) \<Rightarrow> bool \<Rightarrow> platform \<Rightarrow> string list" where
  "plugin_dirs env split_paths join debug_assertions os =
     (case env ''OXID_RELAY_PLUGIN_DIR'' of
        Some v \<Rightarrow> split_paths v
      | None \<Rightarrow>
          (if debug_assertions then [''plugins'']
           else (case os of
                   Windows \<Rightarrow>
                     [join (join (case env ''PROGRAMDATA'' of Some b \<Rightarrow> b | None \<Rightarrow> ''C:'' @ [CHR 0x5C] @ ''ProgramData'')
                        ''OxidRelay'') ''plugins'']
                 | MacOS \<Rightarrow> [''/Library/Application Support/OxidRelay/plugins'']
                 | OtherUnix \<Rightarrow> [''/etc/oxid-relay/plugins''])))"

record file_system =
  read_to_string :: "string \<Rightarrow> string + string"
  read_dir :: "string \<Rightarrow> (string + string) list option"
  is_dir :: "string \<Rightarrow> bool"
  path_exists :: "string \<Rightarrow> bool"
  path_join :: "string \<Rightarrow> string \<Rightarrow> string"

record 'ast plugin =
  pl_manifest :: manifest
  pl_ast :: 'ast
  pl_dir :: string

definition load_plugin ::
  "file_system \<Rightarrow> (string \<Rightarrow> string + manifest) \<Rightarrow> (string \<Rightarrow> string + 'ast) \<Rightarrow> string \<Rightarrow> plugin_error + 'ast plugin" where
  "load_plugin fs de compile dir =
     (let manifest_path = path_join fs dir ''plugin.toml'' in
      res_bind (map_err (PluginIo manifest_path) (read_to_string fs manifest_path)) (\<lambda>raw.
      res_bind (map_err PluginManifest (de raw)) (\<lambda>mf.
      let script_path = path_join fs dir (mf_entry mf) in
      res_bind (map_err (PluginIo script_path) (read_to_string fs script_path)) (\<lambda>script.
      res_bind (map_err PluginCompile (compile script)) (\<lambda>ast.
      Inr \<lparr>pl_manifest = mf, pl_ast = ast, pl_dir = dir\<rparr>)))))"

fun discover_entries ::
  "file_system \<Rightarrow> (string \<Rightarrow> plugin_error + 'p) \<Rightarrow> string \<Rightarrow> (string + string) list \<Rightarrow> 'p list \<Rightarrow> plugin_error + 'p list" where
  "discover_entries fs ld dir [] plugins = Inr plugins"
| "discover_entries fs ld dir (e # es) plugins =
     res_bind (map_err (PluginIo dir) e) (\<lambda>plugin_dir.
     if \<not> is_dir fs plugin_dir \<or> \<not> path_exists fs (path_join fs plugin_dir ''plugin.toml'')
     then discover_entries fs ld dir es plugins
     else res_bind (ld plugin_dir) (\<lambda>p. discover_entries fs ld dir es (plugins @ [p])))"

definition discover ::
  "file_system \<Rightarrow> (string \<Rightarrow> string + manifest) \<Rightarrow> (string \<Rightarrow> string + 'ast) \<Rightarrow> string \<Rightarrow> plugin_error + 'ast plugin list" where
  "discover fs de compile dir =
     (case read_dir fs dir of
        None \<Rightarrow> Inr []
      | Some entries \<Rightarrow> discover_entries fs (load_plugin fs de compile) dir entries [])"

section \<open>The script as a transport\<close>

definition string_config_map :: "(string \<times> string) list \<Rightarrow> dyn btree_map" where
  "string_config_map pairs = fold (\<lambda>(k, v). bt_insert k v) (map (\<lambda>(k, v). (k, DStr v)) pairs) []"

definition addr_to_map :: "address \<Rightarrow> dyn btree_map" where
  "addr_to_map a =
     (let m = bt_insert ''email'' (DStr (email a)) []
      in case addr_name a of Some n \<Rightarrow> bt_insert ''name'' (DStr n) m | None \<Rightarrow> m)"

definition mail_to_map :: "mail \<Rightarrow> dyn btree_map" where
  "mail_to_map m =
     bt_insert ''body'' (DStr (body m))
       (bt_insert ''subject'' (DStr (subject m))
         (bt_insert ''to'' (DArray (map (\<lambda>a. DMap (addr_to_map a)) (to_addrs m)))
           (bt_insert ''from'' (DMap (addr_to_map (from_addr m))) [])))"

record 'ast rhai_transport =
  rh_manifest :: manifest
  rh_ast :: 'ast
  rh_config :: "dyn btree_map"

definition rhai_new :: "'ast plugin \<Rightarrow> dyn btree_map \<Rightarrow> 'ast rhai_transport" where
  "rhai_new p c = \<lparr>rh_manifest = pl_manifest p, rh_ast = pl_ast p, rh_config = c\<rparr>"

text \<open>\<open>run net ast f args\<close> is \<open>call_fn\<close> on a blocking thread: the join of the thread may fail (a panic
  of the script's host functions), and so may the call.\<close>

definition rhai_send ::
  "('n \<Rightarrow> 'ast \<Rightarrow> string \<Rightarrow> dyn btree_map \<times> dyn btree_map \<Rightarrow> string + (string + unit)) \<Rightarrow> 'ast rhai_transport \<Rightarrow> 'n \<Rightarrow>
   mail \<Rightarrow> (core_error + unit) option" where
  "rhai_send run t net m =
     Some (res_bind (map_err (\<lambda>e. Transport (''plugin task failed: '' @ e))
                      (run net (rh_ast t) ''send'' (mail_to_map m, rh_config t))) (\<lambda>outcome.
           map_err (\<lambda>e. Transport (''plugin send: '' @ e)) outcome))"

definition rhai_ops ::
  "('n \<Rightarrow> 'ast \<Rightarrow> string \<Rightarrow> dyn btree_map \<times> dyn btree_map \<Rightarrow> string + (string + unit)) \<Rightarrow> 'ast rhai_transport \<Rightarrow>
   'n transport_ops" where
  "rhai_ops run t = \<lparr>tr_name = mf_name (rh_manifest t), tr_send = rhai_send run t\<rparr>"

section \<open>Facts\<close>

definition plugin_dir_at :: "file_system \<Rightarrow> string \<Rightarrow> bool" where
  "plugin_dir_at fs d = (is_dir fs d \<and> path_exists fs (path_join fs d ''plugin.toml''))"

text \<open>The entries before the first one that cannot be read are loaded one by one.\<close>

lemma discover_entries_append:
  "discover_entries fs ld dir (map Inr dirs @ es) acc =
     res_bind (collect_res ld (filter (plugin_dir_at fs) dirs)) (\<lambda>ps. discover_entries fs ld dir es (acc @ ps))"
proof (induction dirs arbitrary: acc)
  case (Cons d dirs)
  show ?case
  proof (cases "plugin_dir_at fs d")
    case True
    then have "is_dir fs d" "path_exists fs (path_join fs d ''plugin.toml'')"
      by (simp_all add: plugin_dir_at_def)
    with True show ?thesis
      by (cases "ld d"; cases "collect_res ld (filter (plugin_dir_at fs) dirs)")
        (simp_all add: Cons.IH)
  next
    case False
    then have "\<not> is_dir fs d \<or> \<not> path_exists fs (path_join fs d ''plugin.toml'')"
      by (simp add: plugin_dir_at_def)
    with False show ?thesis by (simp add: Cons.IH)
  qed
qed simp

text \<open>What stops a discovery at an entry, and with which error.\<close>

fun stops_with :: "file_system \<Rightarrow> (string \<Rightarrow> plugin_error + 'p) \<Rightarrow> string \<Rightarrow> string + string \<Rightarrow> plugin_error \<Rightarrow> bool" where
  "stops_with fs ld dir (Inl err) e = (e = PluginIo dir err)"
| "stops_with fs ld dir (Inr d) e = (plugin_dir_at fs d \<and> ld d = Inl e)"

lemma discover_entries_stops:
  assumes "collect_res ld (filter (plugin_dir_at fs) dirs) = Inr ps" and "stops_with fs ld dir x e"
  shows "discover_entries fs ld dir (map Inr dirs @ x # rest) acc = Inl e"
  using assms by (cases x) (simp_all add: discover_entries_append plugin_dir_at_def)

lemma entries_cases:
  "(\<exists>dirs ps. entries = map Inr dirs \<and> collect_res ld (filter (plugin_dir_at fs) dirs) = Inr ps) \<or>
   (\<exists>dirs ps x rest e. entries = map Inr dirs @ x # rest \<and>
      collect_res ld (filter (plugin_dir_at fs) dirs) = Inr ps \<and> stops_with fs ld dir x e)"
proof (induction entries rule: rev_induct)
  case Nil
  show ?case by simp
next
  case (snoc x entries)
  then consider (all) dirs ps where "entries = map Inr dirs" "collect_res ld (filter (plugin_dir_at fs) dirs) = Inr ps"
    | (stop) dirs ps y rest e where "entries = map Inr dirs @ y # rest"
        "collect_res ld (filter (plugin_dir_at fs) dirs) = Inr ps" "stops_with fs ld dir y e" by blast
  then show ?case
  proof cases
    case all
    show ?thesis
    proof (cases "\<exists>e. stops_with fs ld dir x e")
      case True
      with all show ?thesis by blast
    next
      case False
      then obtain d where d: "x = Inr d" "plugin_dir_at fs d \<Longrightarrow> \<exists>p. ld d = Inr p"
        by (cases x; cases "ld (projr x)") auto
      obtain qs where "list_all2 (\<lambda>d p. ld d = Inr p) (filter (plugin_dir_at fs) [d]) qs"
        using d(2) by (cases "plugin_dir_at fs d") auto
      with all(2) have "collect_res ld (filter (plugin_dir_at fs) (dirs @ [d])) = Inr (ps @ qs)"
        by (simp only: collect_res_eq_Inr_iff filter_append list_all2_appendI)
      with all(1) d(1) show ?thesis by (intro disjI1 exI [of _ "dirs @ [d]"]) simp
    qed
  next
    case stop
    then show ?thesis by (intro disjI2) (metis append.assoc append_Cons)
  qed
qed

lemma discover_entries_Inr_iff:
  "discover_entries fs ld dir entries [] = Inr ps \<longleftrightarrow>
     (\<exists>dirs. entries = map Inr dirs \<and> collect_res ld (filter (plugin_dir_at fs) dirs) = Inr ps)"
proof
  assume "discover_entries fs ld dir entries [] = Inr ps"
  with entries_cases [of entries ld fs dir] discover_entries_stops [of ld fs _ _ dir _ _ _ "[]"]
  show "\<exists>dirs. entries = map Inr dirs \<and> collect_res ld (filter (plugin_dir_at fs) dirs) = Inr ps"
    using discover_entries_append [of fs ld dir _ "[]" "[]"] by fastforce
qed (use discover_entries_append [of fs ld dir _ "[]" "[]"] in auto)

lemma discover_entries_Inl_iff:
  "discover_entries fs ld dir entries [] = Inl e \<longleftrightarrow>
     (\<exists>dirs ps x rest. entries = map Inr dirs @ x # rest \<and>
        collect_res ld (filter (plugin_dir_at fs) dirs) = Inr ps \<and> stops_with fs ld dir x e)"
proof
  assume l: "discover_entries fs ld dir entries [] = Inl e"
  then have "\<nexists>dirs ps. entries = map Inr dirs \<and> collect_res ld (filter (plugin_dir_at fs) dirs) = Inr ps"
    using discover_entries_Inr_iff [of fs ld dir entries] by (metis sum.distinct(1))
  with entries_cases [of entries ld fs dir] obtain dirs ps x rest e' where s: "entries = map Inr dirs @ x # rest"
    "collect_res ld (filter (plugin_dir_at fs) dirs) = Inr ps" "stops_with fs ld dir x e'" by blast
  from discover_entries_stops [OF s(2,3), of rest "[]"] s(1) l have "e' = e" by simp
  with s show "\<exists>dirs ps x rest. entries = map Inr dirs @ x # rest \<and>
        collect_res ld (filter (plugin_dir_at fs) dirs) = Inr ps \<and> stops_with fs ld dir x e" by blast
qed (auto intro: discover_entries_stops)

lemma addr_to_map_eq:
  "addr_to_map a =
     (''email'', DStr (email a)) # (case addr_name a of Some n \<Rightarrow> [(''name'', DStr n)] | None \<Rightarrow> [])"
  by (simp add: addr_to_map_def less_char_def split: option.split)

lemma addr_to_map_inj: "addr_to_map a = addr_to_map b \<longleftrightarrow> a = b"
  by (cases a; cases b) (auto simp: addr_to_map_eq split: option.splits)

lemma mail_to_map_eq:
  "mail_to_map m =
     [(''body'', DStr (body m)), (''from'', DMap (addr_to_map (from_addr m))),
      (''subject'', DStr (subject m)), (''to'', DArray (map (\<lambda>a. DMap (addr_to_map a)) (to_addrs m)))]"
  by (simp add: mail_to_map_def less_char_def)

section \<open>Properties\<close>

text \<open>C34: Discovery in a directory is all or nothing. It yields plugins exactly if every entry can be
  read and every subdirectory with a \<open>plugin.toml\<close> loads, and then these plugins in the order of the
  directory; it fails with an error exactly if that is the error of the first entry that cannot be read or
  does not load, and the plugins loaded before it are dropped. A directory that cannot be listed has
  none.\<close>

theorem discover_all_or_nothing:
  assumes "read_dir fs dir = Some entries"
  defines "candidates \<equiv> filter (\<lambda>d. is_dir fs d \<and> path_exists fs (path_join fs d ''plugin.toml''))"
  shows "(discover fs de compile dir = Inr ps \<longleftrightarrow>
        (\<exists>dirs. entries = map Inr dirs \<and>
           list_all2 (\<lambda>d p. load_plugin fs de compile d = Inr p) (candidates dirs) ps)) \<and>
     (discover fs de compile dir = Inl e \<longleftrightarrow>
        (\<exists>dirs loaded x rest. entries = map Inr dirs @ x # rest \<and>
           list_all2 (\<lambda>d p. load_plugin fs de compile d = Inr p) (candidates dirs) loaded \<and>
           ((\<exists>err. x = Inl err \<and> e = PluginIo dir err) \<or>
            (\<exists>d. x = Inr d \<and> candidates [d] = [d] \<and> load_plugin fs de compile d = Inl e)))) \<and>
     (\<forall>dir'. read_dir fs dir' = None \<longrightarrow> discover fs de compile dir' = Inr [])"
proof -
  have c: "candidates = filter (plugin_dir_at fs)" by (simp add: candidates_def plugin_dir_at_def [abs_def])
  have x: "stops_with fs ld dir x e \<longleftrightarrow> (\<exists>err. x = Inl err \<and> e = PluginIo dir err) \<or>
      (\<exists>d. x = Inr d \<and> candidates [d] = [d] \<and> ld d = Inl e)" for ld :: "string \<Rightarrow> plugin_error + 'a plugin" and x e
    unfolding c by (cases x) auto
  show ?thesis
    unfolding c [symmetric] x [symmetric]
    using assms(1) by (auto simp: discover_def discover_entries_Inr_iff discover_entries_Inl_iff collect_res_eq_Inr_iff c x)
qed

definition sample_fs :: file_system where
  "sample_fs =
     \<lparr>read_to_string = (\<lambda>p. if p = ''b/plugin.toml'' then Inl ''denied'' else Inr p),
      read_dir = (\<lambda>d. if d = ''plugins'' then Some [Inr ''a'', Inr ''b''] else None),
      is_dir = (\<lambda>_. True), path_exists = (\<lambda>_. True), path_join = (\<lambda>a b. a @ ''/'' @ b)\<rparr>"

definition sample_manifest :: manifest where
  "sample_manifest =
     \<lparr>mf_name = ''ntfy'', mf_version = ''1'', mf_kind = ''transport'', mf_capabilities = [''send''],
      mf_description = [], mf_entry = default_entry\<rparr>"

theorem discover_all_or_nothing_witness:
  "discover sample_fs (\<lambda>_. Inr sample_manifest) (\<lambda>s. Inr s) ''plugins'' = Inl (PluginIo ''b/plugin.toml'' ''denied'') \<and>
   (\<exists>p. load_plugin sample_fs (\<lambda>_. Inr sample_manifest) (\<lambda>s. Inr s) ''a'' = Inr p)"
proof -
  let ?ld = "load_plugin sample_fs (\<lambda>_. Inr sample_manifest) (\<lambda>s. Inr s)"
  have r: "read_dir sample_fs ''plugins'' = Some [Inr ''a'', Inr ''b'']" by (simp add: sample_fs_def)
  obtain p where a: "?ld ''a'' = Inr p"
    by (simp add: load_plugin_def sample_fs_def Let_def sample_manifest_def default_entry_def)
  have b: "?ld ''b'' = Inl (PluginIo ''b/plugin.toml'' ''denied'')" by (simp add: load_plugin_def sample_fs_def Let_def)
  have "\<exists>dirs loaded x rest. [Inr ''a'', Inr ''b''] = map Inr dirs @ x # rest \<and>
      list_all2 (\<lambda>d p. ?ld d = Inr p) (filter (\<lambda>d. is_dir sample_fs d \<and>
        path_exists sample_fs (path_join sample_fs d ''plugin.toml'')) dirs) loaded \<and>
      ((\<exists>err. x = Inl err \<and> PluginIo ''b/plugin.toml'' ''denied'' = PluginIo ''plugins'' err) \<or>
       (\<exists>d. x = Inr d \<and> filter (\<lambda>d. is_dir sample_fs d \<and>
          path_exists sample_fs (path_join sample_fs d ''plugin.toml'')) [d] = [d] \<and>
          ?ld d = Inl (PluginIo ''b/plugin.toml'' ''denied'')))"
    using a b by (intro exI [of _ "[''a'']"] exI [of _ "[p]"] exI [of _ "Inr ''b''"] exI [of _ "[]"]) (simp add: sample_fs_def)
  with discover_all_or_nothing [OF r, of "\<lambda>_. Inr sample_manifest" "\<lambda>s. Inr s"] a show ?thesis by blast
qed

text \<open>A script sees the sender, all recipients in order, the subject and the body of a mail, with
  the display names where there are any, and nothing else: two mails give the same map exactly
  when they agree on these.\<close>

lemma mail_to_map_faithful:
  "mail_to_map m = mail_to_map m' \<longleftrightarrow>
     from_addr m = from_addr m' \<and> to_addrs m = to_addrs m' \<and> subject m = subject m' \<and> body m = body m'"
proof -
  have "map (\<lambda>a. DMap (addr_to_map a)) xs = map (\<lambda>a. DMap (addr_to_map a)) ys \<longleftrightarrow> xs = ys" for xs ys
    by (rule inj_map_eq_map) (simp add: inj_def addr_to_map_inj)
  then show ?thesis by (auto simp: mail_to_map_eq addr_to_map_inj)
qed

text \<open>The \<open>config\<close> map of a script answers every key of the resolved settings with that setting as a
  string, and no other key.\<close>

lemma config_map_lookup:
  assumes "bt_wf settings"
  shows "bt_wf (string_config_map settings) \<and>
     bt_get (string_config_map settings) k = map_option DStr (bt_get settings k)"
proof -
  let ?ps = "map (\<lambda>(k, v). (k, DStr v)) settings"
  have d: "distinct (map fst settings)" using bt_wf_distinct [OF assms] .
  have "map_of ?ps k = map_option DStr (map_of settings k)"
    by (induction settings) auto
  moreover have "map_of (rev ?ps) = map_of ?ps"
    by (rule map_of_rev_distinct) (use d in \<open>simp add: comp_def case_prod_unfold\<close>)
  ultimately show ?thesis
    using bt.get_insert_all_emp [of ?ps k] bt.wf_insert_all [OF bt.wf_emp, of ?ps]
    by (simp add: string_config_map_def bt_get_def)
qed

text \<open>A header or form value that is not a string ends the host function with an error before any
  request is made; with string values the request carries every pair in the map's order.\<close>

lemma map_to_pairs_strings:
  assumes "\<forall>(k, v) \<in> set m. \<exists>s. v = DStr s"
  shows "map_to_pairs ty m = Inr (map (\<lambda>(k, v). (k, case v of DStr s \<Rightarrow> s | _ \<Rightarrow> [])) m)"
  using assms unfolding map_to_pairs_def by (intro collect_res_Inr) (auto simp: into_string_def)

lemma map_to_pairs_not_string:
  assumes "\<not> (\<forall>(k, v) \<in> set m. \<exists>s. v = DStr s)"
  shows "\<exists>e. map_to_pairs ty m = Inl e"
proof -
  from assms obtain k v where kv: "(k, v) \<in> set m" "\<forall>s. v \<noteq> DStr s" by auto
  then have "\<exists>e. into_string ty v = Inl e" by (cases v) (simp_all add: into_string_def)
  with kv(1) show ?thesis
    unfolding map_to_pairs_def collect_res_error_iff by (intro bexI [of _ "(k, v)"]) auto
qed

lemma http_values_must_be_strings:
  "(if \<forall>(k, v) \<in> set headers. \<exists>s. v = DStr s
    then http_post ty http url headers b w =
           exec http \<lparr>req_method = ''POST'', req_url = url,
             req_headers = map (\<lambda>(k, v). (k, case v of DStr s \<Rightarrow> s | _ \<Rightarrow> [])) headers, req_body = TextBody b\<rparr> w
    else \<exists>e. http_post ty http url headers b w = (w, Inl e))"
proof (cases "\<forall>(k, v) \<in> set headers. \<exists>s. v = DStr s")
  case True
  then show ?thesis unfolding if_P [OF True]
    by (simp add: http_post_def host_bind_def host_res_def map_to_pairs_strings)
next
  case False
  obtain e where "map_to_pairs ty headers = Inl e" using map_to_pairs_not_string [OF False] by blast
  then have "http_post ty http url headers b w = (w, Inl (ErrorRuntime e))"
    by (simp add: http_post_def host_bind_def host_res_def)
  then show ?thesis unfolding if_not_P [OF False] by blast
qed

end
