(* ===== verification/Dispatcher_Run.thy ===== *)
theory Dispatcher_Run
  imports Dispatcher
begin

text \<open>
  What the dispatcher does to the store, proved in the contract \<open>mail_queue\<close> and so for every queue
  that satisfies it: the effect of a delivery, the invariant of the run loop, what a step can and
  cannot change of a mail, the exchanges with the transports, and progress of a tick.
\<close>

section \<open>Deliveries as marks\<close>

datatype mark = MSent | MFailed string datetime | MDead string

fun run_mark :: "'q queue_ops \<Rightarrow> io \<Rightarrow> mail_id \<Rightarrow> mark option \<Rightarrow> 'q \<Rightarrow> 'q" where
  "run_mark Q io i None q = q"
| "run_mark Q io i (Some MSent) q = fst (q_mark_sent Q io i q)"
| "run_mark Q io i (Some (MFailed e t)) q = fst (q_mark_failed Q io i e t q)"
| "run_mark Q io i (Some (MDead e)) q = fst (q_mark_dead Q io i e q)"

fun mark_mail :: "datetime \<Rightarrow> mark option \<Rightarrow> mail \<Rightarrow> mail" where
  "mark_mail now None m = m"
| "mark_mail now (Some MSent) m = set_mail_status now Sent None False None m"
| "mark_mail now (Some (MFailed e t)) m = set_mail_status now Failed (Some e) True (Some t) m"
| "mark_mail now (Some (MDead e)) m = set_mail_status now Dead (Some e) True None m"

fun mark_ts_ok :: "mark option \<Rightarrow> bool" where
  "mark_ts_ok (Some (MFailed e t)) = ts_ok t"
| "mark_ts_ok _ = True"

definition delivery_mark :: "bool \<Rightarrow> chrono \<Rightarrow> 'n inner \<Rightarrow> 'n denv \<Rightarrow> mail \<Rightarrow> mark option" where
  "delivery_mark dbg C I env m =
     (case pick_transport I m of
        None \<Rightarrow> Some (MDead (no_transport_message m (disp_default I)))
      | Some (n, tr) \<Rightarrow>
          (case tr_send tr (d_net env) m of
             None \<Rightarrow> None
           | Some (Inr _) \<Rightarrow> Some MSent
           | Some (Inl err) \<Rightarrow>
               (case plain_add dbg (attempts m) 1 of
                  None \<Rightarrow> None
                | Some a \<Rightarrow>
                    (if is_exhausted (retry (disp_config I)) a then Some (MDead (core_error_to_string err))
                     else map_option (MFailed (core_error_to_string err))
                            (retry_at C (retry (disp_config I)) a (d_now env))))))"

definition exchange_of :: "'n inner \<Rightarrow> 'n denv \<Rightarrow> mail \<Rightarrow> exchange" where
  "exchange_of I env m =
     map_option (\<lambda>(n, tr). (n, tr_send tr (d_net env) m)) (pick_transport I m)"

lemma deliver_eq:
  "deliver dbg Q C I env m q =
     (run_mark Q (d_io env) (id_of m) (delivery_mark dbg C I env m) q, exchange_of I env m)"
  by (auto simp: deliver_def delivery_mark_def exchange_of_def split: option.split sum.split)

lemma mark_mail_simps [simp]:
  "id_of (mark_mail t mk m) = id_of m" "content (mark_mail t mk m) = content m"
  by (cases "(t, mk, m)" rule: mark_mail.cases; simp)+

lemma mark_mail_eqs:
  "mark_mail t None = (\<lambda>m. m)"
  "mark_mail t (Some MSent) = set_mail_status t Sent None False None"
  "mark_mail t (Some (MFailed e r)) = set_mail_status t Failed (Some e) True (Some r)"
  "mark_mail t (Some (MDead e)) = set_mail_status t Dead (Some e) True None"
  by (simp_all add: fun_eq_iff)

subsection \<open>Times\<close>

lemma ts_ok_between: "ts_ok a \<Longrightarrow> ts_ok c \<Longrightarrow> a \<le> b \<Longrightarrow> b \<le> c \<Longrightarrow> ts_ok b"
  by (simp add: ts_ok_def)

lemma retry_at_ok:
  assumes C: "chrono_ok C" and env: "denv_ok I env"
    and wf: "dur_wf (max_delay (retry (disp_config I)))"
  shows "\<exists>t. retry_at C (retry (disp_config I)) n (d_now env) = Some t \<and> ts_ok t \<and> d_now env \<le> t"
proof -
  let ?p = "retry (disp_config I)"
  let ?d = "case from_std C (backoff ?p n) of Some d \<Rightarrow> d | None \<Rightarrow> 60 * 10 ^ 9"
  have "dur_nanos (backoff ?p n) \<le> dur_nanos (max_delay ?p)"
    by (simp add: dur_nanos_backoff [OF wf])
  then have "int (dur_nanos (backoff ?p n)) \<le> int (dur_nanos (max_delay ?p))"
    by (rule zle_int [THEN iffD2])
  then have d: "0 \<le> ?d" "?d \<le> int (max (dur_nanos (max_delay ?p)) (60 * 10 ^ 9))"
    using C by (auto simp: chrono_ok_def max_def split: option.splits if_splits)
  from env have e: "ts_ok (d_now env)"
    "ts_ok (d_now env + int (max (dur_nanos (max_delay ?p)) (60 * 10 ^ 9)))"
    unfolding denv_ok_def by - (elim conjE, assumption)+
  have "ts_ok (d_now env + ?d)"
    by (rule ts_ok_between [OF e]) (use d in linarith)+
  with C d(1) e(1) show ?thesis by (simp add: retry_at_def chrono_ok_def)
qed

text \<open>A delay that leaves the calendar's range untouched is far below chrono's own limit, so the
  fallback of sixty seconds is not taken.\<close>

lemma retry_at_exact:
  assumes C: "chrono_ok C" and env: "denv_ok I env"
    and wf: "dur_wf (max_delay (retry (disp_config I)))"
  shows "retry_at C (retry (disp_config I)) n (d_now env) =
     Some (d_now env + int (dur_nanos (backoff (retry (disp_config I)) n)))"
proof -
  let ?p = "retry (disp_config I)"
  from retry_at_ok [OF assms, of n] obtain t where t: "retry_at C ?p n (d_now env) = Some t" "ts_ok t" by blast
  have le: "int (dur_nanos (backoff ?p n)) \<le> int (dur_nanos (max_delay ?p))"
    unfolding zle_int by (simp add: dur_nanos_backoff [OF wf])
  from env have e: "ts_ok (d_now env)"
    "ts_ok (d_now env + int (max (dur_nanos (max_delay ?p)) (60 * 10 ^ 9)))"
    unfolding denv_ok_def by - (elim conjE, assumption)+
  have "int (dur_nanos (max_delay ?p)) \<le> int (max (dur_nanos (max_delay ?p)) (60 * 10 ^ 9))"
    unfolding zle_int by (rule max.cobounded1)
  with le e have "int (dur_nanos (backoff ?p n)) < 315569520000 * 10 ^ 9"
    unfolding ts_ok_def by linarith
  then have "int (dur_nanos (backoff ?p n)) \<le> (2 ^ 63 - 1) * 10 ^ 6" by simp
  with C have f: "from_std C (backoff ?p n) = Some (int (dur_nanos (backoff ?p n)))"
    by (simp add: chrono_ok_def)
  have "ts_ok (d_now env + int (dur_nanos (backoff ?p n)))"
    by (rule ts_ok_between [OF e]) (use le \<open>int (dur_nanos (max_delay ?p)) \<le> _\<close> in linarith)+
  with C e(1) f show ?thesis by (simp add: retry_at_def chrono_ok_def)
qed

lemma lease_ok:
  assumes C: "chrono_ok C" and a: "action_ok I (Reclaim now io)"
  shows "\<exists>t. dt_sub C now (lease_delta C (disp_config I)) = Some t \<and> ts_ok t"
proof -
  let ?d = "lease_delta C (disp_config I)"
  have d: "0 \<le> ?d" "?d \<le> int (max (dur_nanos (sending_lease (disp_config I))) (120 * 10 ^ 9))"
    using C by (auto simp: chrono_ok_def lease_delta_def max_def split: option.splits if_splits)
  from a have e: "ts_ok (now - int (max (dur_nanos (sending_lease (disp_config I))) (120 * 10 ^ 9)))"
    "ts_ok now" unfolding action_ok.simps by - (elim conjE, assumption)+
  have "ts_ok (now - ?d)"
    by (rule ts_ok_between [OF e]) (use d in linarith)+
  with C e(2) show ?thesis by (simp add: chrono_ok_def)
qed

section \<open>Effects on the store\<close>

text \<open>A queue call on one mail, as the store sees it.\<close>

definition upd_at :: "io \<Rightarrow> mail_id \<Rightarrow> (mail \<Rightarrow> mail) \<Rightarrow> store \<Rightarrow> store" where
  "upd_at io i u M = (if io_fault io = None then M(i := map_option u (M i)) else M)"

lemma upd_at_None: "upd_at io i u M j = None \<longleftrightarrow> M j = None"
  by (simp add: upd_at_def)

lemma upd_at_other [simp]: "j \<noteq> i \<Longrightarrow> upd_at io i u M j = M j"
  by (simp add: upd_at_def)

lemma upd_at_same:
  "M i = Some m \<Longrightarrow> upd_at io i u M i = Some (if io_fault io = None then u m else m)"
  by (simp add: upd_at_def)

definition requeue_at :: "io \<Rightarrow> (mail \<Rightarrow> bool) \<Rightarrow> store \<Rightarrow> store" where
  "requeue_at io P M = (if io_fault io = None then requeue_store (io_now io) P M else M)"

definition add_at :: "io \<Rightarrow> mail \<Rightarrow> store \<Rightarrow> store" where
  "add_at io m M = (if io_fault io = None \<and> M (id_of m) = None then M(id_of m \<mapsto> m) else M)"

text \<open>The dispatcher as a client of the contract: nothing but the laws of \<open>mail_queue\<close> is used of the
  queue.\<close>

locale mail_dispatch = mail_queue
begin

lemma marks_upd_at:
  assumes "marks ok view ids io i f u" and "ok q"
  shows "ok (fst (f q))" and "view (fst (f q)) = upd_at io i u (view q)"
    and "(\<exists>e. snd (f q) = Inl e) \<longleftrightarrow> io_fault io \<noteq> None \<or> view q i = None"
proof -
  note law = assms(1) [unfolded marks_def, rule_format, OF assms(2)]
  have "ok (fst (f q)) \<and> view (fst (f q)) = upd_at io i u (view q) \<and>
      ((\<exists>e. snd (f q) = Inl e) \<longleftrightarrow> io_fault io \<noteq> None \<or> view q i = None)"
  proof (cases "io_fault io")
    case None
    show ?thesis
    proof (cases "view q i")
      case nv: None
      from law None nv assms(2) show ?thesis by (simp add: upd_at_def fun_upd_idem)
    next
      case (Some m)
      from law None Some obtain q' where "f q = (q', Inr ())" "ok q'" "view q' = (view q)(i \<mapsto> u m)" by auto
      with None Some show ?thesis by (simp add: upd_at_def)
    qed
  next
    case (Some e)
    from law Some assms(2) show ?thesis by (simp add: upd_at_def)
  qed
  then show "ok (fst (f q))" "view (fst (f q)) = upd_at io i u (view q)"
    "(\<exists>e. snd (f q) = Inl e) \<longleftrightarrow> io_fault io \<noteq> None \<or> view q i = None" by - (elim conjE, assumption)+
qed

lemma run_mark_view:
  assumes "ok q" and "ts_ok (io_now io)" and "mark_ts_ok mk"
  shows "ok (run_mark Q io i mk q) \<and>
         view (run_mark Q io i mk q) = upd_at io i (mark_mail (io_now io) mk) (view q)"
proof (cases mk)
  case None
  with assms(1) show ?thesis by (simp add: upd_at_def mark_mail_eqs option.map_ident)
next
  case (Some k)
  show ?thesis
    using Some assms marks_upd_at(1,2) [OF mark_sent_law [OF assms(2)] assms(1)]
      marks_upd_at(1,2) [OF mark_failed_law [OF assms(2)] assms(1)]
      marks_upd_at(1,2) [OF mark_dead_law [OF assms(2)] assms(1)]
    by (cases k) (simp_all add: mark_mail_eqs)
qed

lemma requeues_at:
  assumes "requeues ok view io f P" and "ok q"
  shows "ok (fst (f q)) \<and> view (fst (f q)) = requeue_at io P (view q)"
proof (cases "io_fault io")
  case None
  with assms obtain q' n where "f q = (q', Inr n)" "ok q'"
    "view q' = requeue_store (io_now io) P (view q)" unfolding requeues_def by force
  with None show ?thesis by (simp add: requeue_at_def)
next
  case (Some e)
  with assms have "f q = (q, Inl (Queue e))" unfolding requeues_def by force
  with Some assms(2) show ?thesis by (simp add: requeue_at_def)
qed

lemma enqueue_view:
  assumes "ok q" and "mail_ts_ok m"
  shows "ok (fst (q_enqueue Q io m q)) \<and> view (fst (q_enqueue Q io m q)) = add_at io m (view q)"
proof (cases "io_fault io")
  case None
  show ?thesis
  proof (cases "view q (id_of m)")
    case nv: None
    from enqueue_new [OF assms None nv] None nv show ?thesis by (auto simp: add_at_def)
  next
    case (Some m')
    then have "view q (id_of m) \<noteq> None" by simp
    from enqueue_dup [OF assms None this] None Some assms(1) show ?thesis by (auto simp: add_at_def)
  qed
next
  case (Some e)
  from enqueue_fault [OF assms Some] Some assms(1) show ?thesis by (simp add: add_at_def)
qed

end

section \<open>The invariant of the run loop\<close>

fun waiting :: "phase \<Rightarrow> mail list" where
  "waiting (Claiming ms n) = ms"
| "waiting (Acquiring m ms n) = ms"
| "waiting _ = []"

fun holding :: "phase \<Rightarrow> mail list" where
  "holding (Acquiring m ms n) = [m]"
| "holding _ = []"

fun ticking :: "phase \<Rightarrow> bool" where
  "ticking (Claiming ms n) = True"
| "ticking (Acquiring m ms n) = True"
| "ticking _ = False"

text \<open>The mail \<open>m\<close> of the store is the one the dispatcher claimed when it looked like \<open>f\<close>.\<close>

definition claimed_as :: "mail \<Rightarrow> mail \<Rightarrow> bool" where
  "claimed_as f m = (status m = Sending \<and> attempts m = attempts f \<and> content m = content f)"

definition disp_inv :: "nat \<Rightarrow> store \<Rightarrow> phase \<Rightarrow> mail list \<Rightarrow> bool" where
  "disp_inv c M p fl =
     (distinct (map id_of (fl @ holding p @ waiting p)) \<and>
      (\<forall>f \<in> set (fl @ holding p). \<exists>m. M (id_of f) = Some m \<and> claimed_as f m) \<and>
      (\<forall>w \<in> set (waiting p). M (id_of w) = Some w \<and> live w) \<and>
      (\<not> ticking p \<longrightarrow> fl = []) \<and> length fl \<le> c \<and>
      (\<forall>now. p = Fetching now \<longrightarrow> ts_ok now))"

text \<open>No mail that can still be sent has used up its attempts, and none has more than allowed.\<close>

definition budget :: "u32 \<Rightarrow> store \<Rightarrow> bool" where
  "budget n M =
     (\<forall>i m. M i = Some m \<longrightarrow> attempts m \<le> n \<and> (terminal m \<or> attempts m < n))"

definition params_ok :: "chrono \<Rightarrow> 'n inner \<Rightarrow> bool" where
  "params_ok C I =
     (chrono_ok C \<and> dur_wf (max_delay (retry (disp_config I))) \<and> 0 < max_attempts (retry (disp_config I)))"

text \<open>What a step does to the store.\<close>

fun store_after :: "bool \<Rightarrow> chrono \<Rightarrow> 'n inner \<Rightarrow> 'n action \<Rightarrow> 'q dstate \<Rightarrow> store \<Rightarrow> store" where
  "store_after dbg C I (Recover io) s M = requeue_at io (\<lambda>_. True) M"
| "store_after dbg C I (Reclaim now io) s M =
     requeue_at io (\<lambda>m. updated_at m < the (dt_sub C now (lease_delta C (disp_config I)))) M"
| "store_after dbg C I (Claim io) s M =
     upd_at io (id_of (hd (waiting (phase_of s)))) (set_mail_status (io_now io) Sending None False None) M"
| "store_after dbg C I (Finish k env) s M =
     upd_at (d_io env) (id_of (flight s ! k))
       (mark_mail (io_now (d_io env)) (delivery_mark dbg C I env (flight s ! k))) M"
| "store_after dbg C I (Ingress new t i io) s M = add_at io (from_new new t i) M"
| "store_after dbg C I _ s M = M"

text \<open>What a mail's history looks like between two stores.\<close>

definition evolves :: "store \<Rightarrow> store \<Rightarrow> bool" where
  "evolves M M' =
     (\<forall>i m. M i = Some m \<longrightarrow>
        (\<exists>m'. M' i = Some m' \<and> content m' = content m \<and> attempts m \<le> attempts m' \<and>
              (terminal m \<longrightarrow> m' = m)))"

lemma evolves_refl [simp]: "evolves M M"
  by (simp add: evolves_def)

lemma evolves_trans: "evolves M M' \<Longrightarrow> evolves M' M'' \<Longrightarrow> evolves M M''"
  unfolding evolves_def
proof (intro allI impI)
  fix i m
  assume ab: "\<forall>i m. M i = Some m \<longrightarrow> (\<exists>m'. M' i = Some m' \<and> content m' = content m \<and>
      attempts m \<le> attempts m' \<and> (terminal m \<longrightarrow> m' = m))"
    and bc: "\<forall>i m. M' i = Some m \<longrightarrow> (\<exists>m'. M'' i = Some m' \<and> content m' = content m \<and>
      attempts m \<le> attempts m' \<and> (terminal m \<longrightarrow> m' = m))"
    and m: "M i = Some m"
  from ab m obtain m1 where 1: "M' i = Some m1" "content m1 = content m" "attempts m \<le> attempts m1"
    "terminal m \<longrightarrow> m1 = m" by fastforce
  from bc 1(1) obtain m2 where 2: "M'' i = Some m2" "content m2 = content m1" "attempts m1 \<le> attempts m2"
    "terminal m1 \<longrightarrow> m2 = m1" by fastforce
  from 1 2 show "\<exists>m'. M'' i = Some m' \<and> content m' = content m \<and> attempts m \<le> attempts m' \<and>
      (terminal m \<longrightarrow> m' = m)" by (intro exI [of _ m2]) auto
qed

subsection \<open>Deliveries\<close>

lemma params_okD:
  assumes "params_ok C I"
  shows "chrono_ok C" and "dur_wf (max_delay (retry (disp_config I)))"
    and "0 < max_attempts (retry (disp_config I))"
  using assms by (simp_all add: params_ok_def)

lemma delivery_mark_ts:
  assumes "params_ok C I" and "denv_ok I env"
  shows "mark_ts_ok (delivery_mark dbg C I env m)"
proof -
  have "mark_ts_ok (map_option (MFailed e) (retry_at C (retry (disp_config I)) n (d_now env)))" for e n
    using retry_at_ok [OF params_okD(1) [OF assms(1)] assms(2) params_okD(2) [OF assms(1)], of n] by auto
  then show ?thesis
    by (simp add: delivery_mark_def split: option.split prod.split sum.split)
qed

text \<open>The four outcomes of a delivery, for a mail with an attempt left: \<open>attempts + 1\<close> does not
  overflow, and the schedule of a retry can be computed.\<close>

lemma delivery_mark_cases:
  assumes p: "params_ok C I" and env: "denv_ok I env"
    and b: "attempts m < max_attempts (retry (disp_config I))"
  shows "delivery_mark dbg C I env m =
     (case exchange_of I env m of
        None \<Rightarrow> Some (MDead (no_transport_message m (disp_default I)))
      | Some (n, None) \<Rightarrow> None
      | Some (n, Some (Inr _)) \<Rightarrow> Some MSent
      | Some (n, Some (Inl err)) \<Rightarrow>
          (if unat (attempts m) + 1 = unat (max_attempts (retry (disp_config I)))
           then Some (MDead (core_error_to_string err))
           else Some (MFailed (core_error_to_string err)
                  (the (retry_at C (retry (disp_config I)) (attempts m + 1) (d_now env))))))"
proof -
  let ?p = "retry (disp_config I)"
  note add = plain_add_one [OF b]
  have "is_exhausted ?p (attempts m + 1) \<longleftrightarrow> unat (attempts m) + 1 = unat (max_attempts ?p)"
    using b add(2) by (auto simp: is_exhausted_def word_le_nat_alt word_less_nat_alt)
  moreover obtain t where "retry_at C ?p (attempts m + 1) (d_now env) = Some t"
    using retry_at_ok [OF params_okD(1) [OF p] env params_okD(2) [OF p]] by blast
  ultimately show ?thesis
    by (auto simp: delivery_mark_def exchange_of_def add(1) split: option.split sum.split)
qed

text \<open>A delivery of a mail that is \<open>Sending\<close> keeps within the budget and never goes back.\<close>

lemma mark_mail_budget:
  assumes p: "params_ok C I" and env: "denv_ok I env" and c: "claimed_as f m"
    and b: "attempts m < max_attempts (retry (disp_config I))"
  fixes t dbg
  defines "m' \<equiv> mark_mail t (delivery_mark dbg C I env f) m"
  shows "attempts m' \<le> max_attempts (retry (disp_config I)) \<and>
     (terminal m' \<or> attempts m' < max_attempts (retry (disp_config I))) \<and> attempts m \<le> attempts m'"
proof -
  from c have af: "attempts f = attempts m" by (simp add: claimed_as_def)
  then have bf: "attempts f < max_attempts (retry (disp_config I))" using b by simp
  note inc = plain_add_one(2) [OF b]
  from delivery_mark_cases [OF p env bf] b inc show ?thesis
    unfolding m'_def
    by (auto simp: af terminal_def word_le_nat_alt word_less_nat_alt split: option.splits sum.splits)
qed

subsection \<open>Store effects keep budget and history\<close>

lemma budgetD: "budget n M \<Longrightarrow> M i = Some m \<Longrightarrow> \<not> terminal m \<Longrightarrow> attempts m < n"
  by (auto simp: budget_def)

lemma requeue_at_budget: "budget n M \<Longrightarrow> budget n (requeue_at io P M)"
proof (cases "io_fault io")
  case None
  assume b: "budget n M"
  show ?thesis
    unfolding budget_def requeue_at_def
  proof (intro allI impI)
    fix i m' assume "(if io_fault io = None then requeue_store (io_now io) P M else M) i = Some m'"
    with None obtain m where m: "M i = Some m"
      "m' = (if status m = Sending \<and> P m then requeued (io_now io) m else m)"
      by (auto simp: requeue_store_Some_iff)
    with b [unfolded budget_def, rule_format, OF m(1)]
    show "attempts m' \<le> n \<and> (terminal m' \<or> attempts m' < n)" by (auto simp: terminal_def)
  qed
qed (simp add: requeue_at_def)

lemma requeue_at_evolves: "evolves M (requeue_at io P M)"
  by (auto simp: requeue_at_def evolves_def requeue_store_def terminal_def)

lemma upd_at_budget:
  assumes "budget n M"
    and "\<And>m. M i = Some m \<Longrightarrow> attempts (u m) \<le> n \<and> (terminal (u m) \<or> attempts (u m) < n)"
  shows "budget n (upd_at io i u M)"
  using assms by (auto simp: budget_def upd_at_def split: if_splits)

lemma upd_at_evolves:
  assumes "\<And>m. M i = Some m \<Longrightarrow> content (u m) = content m \<and> attempts m \<le> attempts (u m) \<and> \<not> terminal m"
  shows "evolves M (upd_at io i u M)"
  using assms by (auto simp: evolves_def upd_at_def)

lemma add_at_budget: "budget n M \<Longrightarrow> 0 < n \<Longrightarrow> budget n (add_at io (from_new new t i) M)"
  by (auto simp: budget_def add_at_def)

lemma add_at_evolves: "evolves M (add_at io m M)"
  by (auto simp: evolves_def add_at_def)

subsection \<open>The loop's bookkeeping\<close>

lemma disp_invD:
  assumes "disp_inv c M p fl"
  shows "distinct (map id_of (fl @ holding p @ waiting p))"
    and "f \<in> set (fl @ holding p) \<Longrightarrow> \<exists>m. M (id_of f) = Some m \<and> claimed_as f m"
    and "w \<in> set (waiting p) \<Longrightarrow> M (id_of w) = Some w"
    and "w \<in> set (waiting p) \<Longrightarrow> live w"
    and "\<not> ticking p \<Longrightarrow> fl = []"
    and "length fl \<le> c"
    and "p = Fetching now \<Longrightarrow> ts_ok now"
  using assms unfolding disp_inv_def by - (elim conjE, simp)+

lemma disp_invI:
  assumes "distinct (map id_of (fl @ holding p @ waiting p))"
    and "\<And>f. f \<in> set (fl @ holding p) \<Longrightarrow> \<exists>m. M (id_of f) = Some m \<and> claimed_as f m"
    and "\<And>w. w \<in> set (waiting p) \<Longrightarrow> M (id_of w) = Some w"
    and "\<And>w. w \<in> set (waiting p) \<Longrightarrow> live w"
    and "\<not> ticking p \<Longrightarrow> fl = []" and "length fl \<le> c"
    and "\<And>now. p = Fetching now \<Longrightarrow> ts_ok now"
  shows "disp_inv c M p fl"
  using assms unfolding disp_inv_def by blast

lemma disp_inv_known:
  assumes "disp_inv c M p fl" and "x \<in> set (fl @ holding p @ waiting p)"
  shows "M (id_of x) \<noteq> None"
proof -
  from assms(2) consider "x \<in> set (fl @ holding p)" | "x \<in> set (waiting p)" by auto
  then show ?thesis
    by cases (use disp_invD(2) [OF assms(1), of x] disp_invD(3) [OF assms(1), of x] in auto)
qed

lemma disp_inv_cong:
  assumes inv: "disp_inv c M p fl"
    and eq: "\<And>x. x \<in> set (fl @ holding p @ waiting p) \<Longrightarrow> M' (id_of x) = M (id_of x)"
  shows "disp_inv c M' p fl"
proof (rule disp_invI)
  fix f assume f: "f \<in> set (fl @ holding p)"
  then have "M' (id_of f) = M (id_of f)" by (intro eq) auto
  with disp_invD(2) [OF inv f] show "\<exists>m. M' (id_of f) = Some m \<and> claimed_as f m" by simp
next
  fix w assume w: "w \<in> set (waiting p)"
  then have "M' (id_of w) = M (id_of w)" by (intro eq) simp
  with disp_invD(3) [OF inv w] show "M' (id_of w) = Some w" by simp
qed (use disp_invD [OF inv] in simp_all)

lemma disp_inv_idle [relay_inv]:
  "disp_inv c M Starting []" "disp_inv c M Polling []" "disp_inv c M Stopped []"
  "disp_inv c M Crashed []" "disp_inv c M (Fetching now) [] \<longleftrightarrow> ts_ok now"
  by (simp_all add: disp_inv_def)

lemma disp_inv_add:
  assumes "disp_inv c M p fl"
  shows "disp_inv c (add_at io m M) p fl"
proof (rule disp_inv_cong [OF assms])
  fix x assume "x \<in> set (fl @ holding p @ waiting p)"
  from disp_inv_known [OF assms this] show "add_at io m M (id_of x) = M (id_of x)"
    by (auto simp: add_at_def)
qed

lemma disp_inv_fetched:
  assumes "due_batch M limit now ms"
  shows "disp_inv c M (Claiming ms n) []"
  using due_batchD(1,2,3) [OF assms] by (simp add: disp_inv_def due_def)

lemma disp_inv_claim:
  assumes inv: "disp_inv c M (Claiming (m # ms) n) fl" and io: "io_fault io = None"
  shows "disp_inv c (upd_at io (id_of m) (set_mail_status t Sending None False None) M)
           (Acquiring m ms n) fl"
proof -
  have m: "M (id_of m) = Some m" using disp_invD(3) [OF inv, of m] by simp
  have d: "distinct (map id_of (fl @ m # ms))" using disp_invD(1) [OF inv] by simp
  then have "id_of m \<notin> id_of ` set (fl @ ms)" by (simp add: image_Un)
  from not_image [OF this] have ne: "id_of f \<noteq> id_of m" if "f \<in> set fl \<or> f \<in> set ms" for f
    using that by simp
  let ?M = "upd_at io (id_of m) (set_mail_status t Sending None False None) M"
  show ?thesis
  proof (rule disp_invI)
    show "distinct (map id_of (fl @ holding (Acquiring m ms n) @ waiting (Acquiring m ms n)))"
      using d by simp
  next
    fix f assume "f \<in> set (fl @ holding (Acquiring m ms n))"
    then consider "f = m" | "f \<in> set fl" by auto
    then show "\<exists>m'. ?M (id_of f) = Some m' \<and> claimed_as f m'"
    proof cases
      case 1
      with m io show ?thesis by (simp add: upd_at_same claimed_as_def)
    next
      case 2
      with disp_invD(2) [OF inv, of f] ne [of f] show ?thesis by simp
    qed
  next
    fix w assume "w \<in> set (waiting (Acquiring m ms n))"
    with disp_invD(3,4) [OF inv, of w] ne [of w] show "?M (id_of w) = Some w" "live w" by simp_all
  qed (use disp_invD(5,6) [OF inv] in simp_all)
qed

lemma disp_inv_skip: "disp_inv c M (Claiming (m # ms) n) fl \<Longrightarrow> disp_inv c M (Claiming ms n) fl"
  by (simp add: disp_inv_def)

lemma disp_inv_spawn [relay_inv]:
  assumes "disp_inv c M (Acquiring m ms n) fl" and "length fl < c"
  shows "disp_inv c M (Claiming ms n') (fl @ [m])"
  using assms by (auto simp: disp_inv_def)

lemma set_remove_nth: "set (take k xs @ drop (Suc k) xs) \<subseteq> set xs"
  by (auto dest: in_set_takeD in_set_dropD)

lemma map_remove_nth: "map f (take k xs @ drop (Suc k) xs) = take k (map f xs) @ drop (Suc k) (map f xs)"
  by (simp add: take_map drop_map)

lemma disp_inv_finish:
  assumes inv: "disp_inv c M p fl" and k: "k < length fl"
    and same: "\<And>i. i \<noteq> id_of (fl ! k) \<Longrightarrow> M' i = M i"
  shows "disp_inv c M' p (take k fl @ drop (Suc k) fl)"
proof -
  let ?fl = "take k fl @ drop (Suc k) fl"
  have split: "fl = take k fl @ fl ! k # drop (Suc k) fl" using k by (rule id_take_nth_drop)
  have "distinct (map id_of ((take k fl @ fl ! k # drop (Suc k) fl) @ holding p @ waiting p))"
    using disp_invD(1) [OF inv] split by simp
  then have d: "distinct (map id_of (?fl @ holding p @ waiting p))"
    and ne: "id_of (fl ! k) \<notin> id_of ` set (?fl @ holding p @ waiting p)" by auto
  have "disp_inv c M p ?fl"
  proof (rule disp_invI [OF d])
    fix f assume "f \<in> set (?fl @ holding p)"
    with set_remove_nth [of k fl] have "f \<in> set (fl @ holding p)" by auto
    then show "\<exists>m. M (id_of f) = Some m \<and> claimed_as f m" by (rule disp_invD(2) [OF inv])
  qed (use disp_invD(3-7) [OF inv] k in auto)
  then show ?thesis by (rule disp_inv_cong) (rule same, rule not_image [OF ne])
qed

section \<open>Steps\<close>

definition sys_inv :: "'n inner \<Rightarrow> store \<Rightarrow> 'q dstate \<Rightarrow> bool" where
  "sys_inv I M s =
     (disp_inv (concurrency (disp_config I)) M (phase_of s) (flight s) \<and>
      budget (max_attempts (retry (disp_config I))) M)"

text \<open>The cases in which a step is enabled.\<close>

lemma step_Claim:
  assumes "step dbg Q C I (Claim io) s = Some s'"
  obtains m ms n where "phase_of s = Claiming (m # ms) n"
    and "s' = claimed m ms n (q_mark_sending Q io (id_of m) (queue_of s)) s"
proof (cases "phase_of s")
  case (Claiming ms n)
  with assms that show thesis by (cases ms) auto
qed (use assms in simp_all)

lemma step_Spawn:
  assumes "step dbg Q C I Spawn s = Some s'"
  obtains m ms n where "phase_of s = Acquiring m ms n"
    and "length (flight s) < concurrency (disp_config I)"
    and "s' = s\<lparr>flight := flight s @ [m], phase_of := Claiming ms (Suc n)\<rparr>"
  using assms that by (cases "phase_of s") (auto split: if_splits)

lemma step_Join:
  assumes "step dbg Q C I Join s = Some s'"
  obtains n where "phase_of s = Claiming [] n" and "flight s = []"
    and "s' = s\<lparr>phase_of := Polling, processed := processed s @ [n]\<rparr>"
proof (cases "phase_of s")
  case (Claiming ms n)
  with assms that show thesis by (cases ms) (auto split: if_splits)
qed (use assms in simp_all)

lemma step_Fetch:
  assumes "step dbg Q C I (Fetch io) s = Some s'"
  obtains now where "phase_of s = Fetching now"
    and "s' = fetched (disp_config I) (q_fetch_due Q io (batch_size (disp_config I)) now (queue_of s)) s"
  using assms that by (cases "phase_of s") auto

lemma fetched_simps [simp]:
  "queue_of (fetched cfg r s) = queue_of s"
  "flight (fetched cfg r s) = flight s"
  "sends (fetched cfg r s) = sends s"
  by (simp_all add: fetched_def split: sum.split)

context mail_dispatch
begin

lemma step_store:
  assumes q: "ok (queue_of s)" and p: "params_ok C I" and a: "action_ok I a"
    and st: "step dbg Q C I a s = Some s'"
  shows "ok (queue_of s') \<and> view (queue_of s') = store_after dbg C I a s (view (queue_of s))"
proof (cases a)
  case (Recover io)
  with st a requeues_at [OF requeue_sending_law q, of io] show ?thesis
    by (auto simp: recover_def split: if_splits)
next
  case (Reclaim now io)
  from lease_ok [OF params_okD(1) [OF p]] a Reclaim obtain t where
    t: "dt_sub C now (lease_delta C (disp_config I)) = Some t" "ts_ok t" by blast
  with st a Reclaim requeues_at [OF requeue_stale_law q, of io t] show ?thesis
    by (auto split: if_splits)
next
  case (Fetch io)
  from st [unfolded Fetch] q Fetch show ?thesis by (elim step_Fetch) simp
next
  case (Claim io)
  from st [unfolded Claim] obtain m ms n where ph: "phase_of s = Claiming (m # ms) n"
    and s': "s' = claimed m ms n (q_mark_sending Q io (id_of m) (queue_of s)) s" by (rule step_Claim)
  with a Claim marks_upd_at(1,2) [OF mark_sending_law q, of io "id_of m"] show ?thesis
    by (simp add: claimed_def)
next
  case Spawn
  from st [unfolded Spawn] q Spawn show ?thesis by (elim step_Spawn) simp
next
  case (Finish k env)
  from a Finish have env: "denv_ok I env" by simp
  then have "ts_ok (io_now (d_io env))" unfolding denv_ok_def by (elim conjE)
  from run_mark_view [OF q this delivery_mark_ts [OF p env], of "id_of (flight s ! k)" dbg "flight s ! k"]
    st Finish show ?thesis by (auto simp: finished_def deliver_eq split: if_splits)
next
  case Join
  from st [unfolded Join] q Join show ?thesis by (elim step_Join) simp
next
  case (Ingress new t i io)
  with st a enqueue_view [OF q, of "from_new new t i" io] show ?thesis by auto
qed (use st q in \<open>auto split: if_splits\<close>)

lemma step_fetch_inv:
  assumes q: "ok (queue_of s)" and inv: "disp_inv c (view (queue_of s)) (phase_of s) (flight s)"
    and st: "step dbg Q C I (Fetch io) s = Some s'"
  shows "disp_inv c (view (queue_of s')) (phase_of s') (flight s')"
proof -
  from st obtain now where ph: "phase_of s = Fetching now"
    and s': "s' = fetched (disp_config I) (q_fetch_due Q io (batch_size (disp_config I)) now (queue_of s)) s"
    by (rule step_Fetch)
  from inv ph have fl: "flight s = []" and now: "ts_ok now"
    using disp_invD(5,7) [OF inv] by auto
  have "disp_inv c (view (queue_of s)) (phase_of s') []"
  proof (cases "io_fault io")
    case None
    from fetch_ok [OF q now None] obtain ms where
      ms: "q_fetch_due Q io (batch_size (disp_config I)) now (queue_of s) = Inr ms"
      "due_batch (view (queue_of s)) (batch_size (disp_config I)) now ms" by blast
    with s' disp_inv_fetched [OF ms(2)] show ?thesis
      by (simp add: fetched_def relay_inv)
  next
    case (Some e)
    from fetch_fault [OF q Some] s' show ?thesis by (simp add: fetched_def relay_inv)
  qed
  with s' fl show ?thesis by simp
qed

lemma step_claim_inv:
  assumes q: "ok (queue_of s)" and now: "ts_ok (io_now io)"
    and inv: "disp_inv c (view (queue_of s)) (phase_of s) (flight s)"
    and st: "step dbg Q C I (Claim io) s = Some s'"
  shows "disp_inv c (view (queue_of s')) (phase_of s') (flight s')"
proof -
  from st obtain m ms n where ph: "phase_of s = Claiming (m # ms) n"
    and s': "s' = claimed m ms n (q_mark_sending Q io (id_of m) (queue_of s)) s" by (rule step_Claim)
  note M = marks_upd_at [OF mark_sending_law [OF now] q, of "id_of m"]
  from inv ph have inv': "disp_inv c (view (queue_of s)) (Claiming (m # ms) n) (flight s)" by simp
  then have known: "view (queue_of s) (id_of m) \<noteq> None" by (auto dest: disp_inv_known)
  show ?thesis
  proof (cases "io_fault io")
    case None
    with M(3) known obtain u where "snd (q_mark_sending Q io (id_of m) (queue_of s)) = Inr u"
      by (cases "snd (q_mark_sending Q io (id_of m) (queue_of s))") auto
    with s' M(2) disp_inv_claim [OF inv' None] show ?thesis by (simp add: claimed_def)
  next
    case (Some e)
    with M(3) obtain e' where "snd (q_mark_sending Q io (id_of m) (queue_of s)) = Inl e'" by auto
    with s' M(2) Some disp_inv_skip [OF inv'] show ?thesis by (simp add: claimed_def upd_at_def)
  qed
qed

lemma step_disp_inv:
  assumes q: "ok (queue_of s)" and p: "params_ok C I" and a: "action_ok I a"
    and inv: "disp_inv c (view (queue_of s)) (phase_of s) (flight s)"
    and c: "c = concurrency (disp_config I)"
    and st: "step dbg Q C I a s = Some s'"
  shows "disp_inv c (view (queue_of s')) (phase_of s') (flight s')"
proof (cases a)
  case (Recover io)
  with st disp_invD(5) [OF inv] show ?thesis by (auto simp: relay_inv split: if_splits)
next
  case (Reclaim now io)
  with st a disp_invD(5) [OF inv] show ?thesis
    by (auto simp: relay_inv split: if_splits option.splits)
next
  case (Fetch io)
  from step_fetch_inv [OF q inv st [unfolded Fetch]] show ?thesis .
next
  case (Claim io)
  from a Claim step_claim_inv [OF q _ inv st [unfolded Claim]] show ?thesis by simp
next
  case Spawn
  from st [unfolded Spawn] inv c show ?thesis by (elim step_Spawn) (simp add: relay_inv)
next
  case (Finish k env)
  with st have k: "k < length (flight s)" and s': "phase_of s' = phase_of s"
    "flight s' = take k (flight s) @ drop (Suc k) (flight s)" by (auto simp: finished_def split: if_splits)
  from step_store [OF q p a st] Finish have "view (queue_of s') i = view (queue_of s) i"
    if "i \<noteq> id_of (flight s ! k)" for i using that by simp
  from disp_inv_finish [OF inv k this] s' show ?thesis by simp
next
  case Join
  from st [unfolded Join] show ?thesis by (elim step_Join) (simp add: relay_inv)
next
  case (Ingress new t i io)
  with st disp_inv_add [OF inv] step_store [OF q p a st] show ?thesis by auto
qed (use st disp_invD(5) [OF inv] in \<open>auto simp: relay_inv split: if_splits\<close>)

end

subsection \<open>Budget and history\<close>

lemma claim_head:
  assumes "disp_inv c M (Claiming (m # ms) n) fl"
  shows "M (id_of m) = Some m" and "live m"
  using disp_invD(3,4) [OF assms, of m] by simp_all

lemma flight_nth:
  assumes "disp_inv c M p fl" and "k < length fl"
  obtains m where "M (id_of (fl ! k)) = Some m" and "claimed_as (fl ! k) m" and "\<not> terminal m"
proof -
  have "fl ! k \<in> set (fl @ holding p)" using assms(2) by simp
  from disp_invD(2) [OF assms(1) this] that show thesis by (auto simp: claimed_as_def terminal_def)
qed

lemma store_after_budget_evolves:
  assumes p: "params_ok C I" and a: "action_ok I a" and inv: "sys_inv I M s"
    and st: "step dbg Q C I a s = Some s'"
  shows "budget (max_attempts (retry (disp_config I))) (store_after dbg C I a s M) \<and>
     evolves M (store_after dbg C I a s M)"
proof -
  let ?n = "max_attempts (retry (disp_config I))"
  from inv have d: "disp_inv (concurrency (disp_config I)) M (phase_of s) (flight s)"
    and b: "budget ?n M" by (simp_all add: sys_inv_def)
  show ?thesis
  proof (cases a)
    case (Claim io)
    from st [unfolded Claim] obtain m ms n where ph: "phase_of s = Claiming (m # ms) n" by (rule step_Claim)
    from claim_head [OF d [unfolded ph]] have m: "M (id_of m) = Some m" "\<not> terminal m"
      by (simp_all add: live_not_terminal)
    from budgetD [OF b m] have "attempts m < ?n" .
    with m b show ?thesis
      by (auto simp: Claim ph intro!: upd_at_budget upd_at_evolves)
  next
    case (Finish k env)
    from st Finish have k: "k < length (flight s)" by (simp split: if_splits)
    from flight_nth [OF d k] obtain m where m: "M (id_of (flight s ! k)) = Some m"
      "claimed_as (flight s ! k) m" "\<not> terminal m" .
    from a Finish have env: "denv_ok I env" by simp
    from mark_mail_budget [OF p env m(2) budgetD [OF b m(1,3)], of "io_now (d_io env)" dbg] m b show ?thesis
      by (auto simp: Finish intro!: upd_at_budget upd_at_evolves)
  qed (use b params_okD(3) [OF p] in
      \<open>simp_all add: requeue_at_budget requeue_at_evolves add_at_budget add_at_evolves\<close>)
qed

context mail_dispatch
begin

lemma step_inv:
  assumes "ok (queue_of s)" and "params_ok C I" and "action_ok I a"
    and "sys_inv I (view (queue_of s)) s" and "step dbg Q C I a s = Some s'"
  shows "ok (queue_of s')" and "sys_inv I (view (queue_of s')) s'"
    and "evolves (view (queue_of s)) (view (queue_of s'))"
proof -
  from assms(4) have d: "disp_inv (concurrency (disp_config I)) (view (queue_of s)) (phase_of s) (flight s)"
    by (simp add: sys_inv_def)
  note S = step_store [OF assms(1,2,3,5)]
  then show "ok (queue_of s')" by simp
  from store_after_budget_evolves [OF assms(2,3,4,5)] step_disp_inv [OF assms(1,2,3) d refl assms(5)] S
  show "sys_inv I (view (queue_of s')) s'" and "evolves (view (queue_of s)) (view (queue_of s'))"
    by (simp_all add: sys_inv_def)
qed

lemma reachable_inv:
  assumes "reachable P dbg Q C I q0 s" and "ok q0" and "params_ok C I"
    and "budget (max_attempts (retry (disp_config I))) (view q0)"
    and P: "\<And>a. P a \<Longrightarrow> action_ok I a"
  shows "ok (queue_of s) \<and> sys_inv I (view (queue_of s)) s \<and> evolves (view q0) (view (queue_of s))"
  using assms(1)
proof (induction rule: reachable.induct)
  case init
  with assms(2,4) show ?case by (simp add: start_def sys_inv_def relay_inv)
next
  case (next_step s a s')
  then have i: "ok (queue_of s)" "sys_inv I (view (queue_of s)) s"
    and e: "evolves (view q0) (view (queue_of s))" by simp_all
  from step_inv [OF i(1) assms(3) P [OF next_step(2)] i(2) next_step(3)]
  show ?case using evolves_trans [OF e] by simp
qed

end

section \<open>Exchanges with the transports\<close>

definition success :: "exchange \<Rightarrow> bool" where
  "success x = (\<exists>n. x = Some (n, Some (Inr ())))"

lemma success_code [code, simp]:
  "success None = False" "success (Some (n, None)) = False"
  "success (Some (n, Some (Inl e))) = False" "success (Some (n, Some (Inr ()))) = True"
  by (simp_all add: success_def)

lemma store_after_sent:
  assumes "disp_inv c M (phase_of s) (flight s)" and "step dbg Q C I a s = Some s'"
    and "store_after dbg C I a s M i = Some m" and "status m = Sent" and "action_ok I a"
    and "params_ok C I" and "budget (max_attempts (retry (disp_config I))) M"
  shows "(\<exists>m0. M i = Some m0 \<and> status m0 = Sent) \<or>
     (\<exists>k env. a = Finish k env \<and> k < length (flight s) \<and> i = id_of (flight s ! k) \<and>
        success (exchange_of I env (flight s ! k)))"
proof (cases a)
  case (Claim io)
  with assms(3,4) show ?thesis by (auto simp: upd_at_def split: if_splits)
next
  case (Finish k env)
  from assms(2) Finish have k: "k < length (flight s)" by (simp split: if_splits)
  from flight_nth [OF assms(1) k] obtain m0 where m0: "M (id_of (flight s ! k)) = Some m0"
    "claimed_as (flight s ! k) m0" "\<not> terminal m0" .
  from assms(5) Finish have env: "denv_ok I env" by simp
  from budgetD [OF assms(7) m0(1,3)] m0(2) have
    b: "attempts (flight s ! k) < max_attempts (retry (disp_config I))" by (simp add: claimed_as_def)
  show ?thesis
  proof (cases "i = id_of (flight s ! k) \<and> io_fault (d_io env) = None")
    case True
    with assms(3) Finish m0(1) have
      m: "m = mark_mail (io_now (d_io env)) (delivery_mark dbg C I env (flight s ! k)) m0"
      by (simp add: upd_at_same)
    have "success (exchange_of I env (flight s ! k))"
      using assms(4) m0(2) unfolding m delivery_mark_cases [OF assms(6) env b]
      by (auto simp: claimed_as_def split: option.splits sum.splits if_splits)
    with True Finish k show ?thesis by blast
  next
    case False
    with assms(3) Finish have "M i = Some m" by (auto simp: upd_at_def split: if_splits)
    with assms(4) show ?thesis by blast
  qed
next
  case (Ingress new t j io)
  with assms(3,4) show ?thesis by (auto simp: add_at_def split: if_splits)
qed (use assms(3,4) in \<open>auto simp: requeue_at_def requeue_store_Some_iff split: if_splits\<close>)

lemma step_sends:
  assumes "step dbg Q C I a s = Some s'"
  shows "sends s' = sends s @
     (case a of Finish k env \<Rightarrow> [(id_of (flight s ! k), exchange_of I env (flight s ! k))]
      | Kill lost \<Rightarrow> map (\<lambda>(k, env). (id_of (flight s ! k), exchange_of I env (flight s ! k))) lost
      | _ \<Rightarrow> [])"
proof (cases a)
  case (Fetch io)
  from assms [unfolded Fetch] Fetch show ?thesis by (elim step_Fetch) simp
next
  case (Claim io)
  from assms [unfolded Claim] Claim show ?thesis by (elim step_Claim) (simp add: claimed_def)
next
  case Spawn
  from assms [unfolded Spawn] Spawn show ?thesis by (elim step_Spawn) simp
next
  case Join
  from assms [unfolded Join] Join show ?thesis by (elim step_Join) simp
qed (use assms in \<open>auto simp: finished_def deliver_eq split: if_splits option.splits\<close>)

definition successes :: "mail_id \<Rightarrow> (mail_id \<times> exchange) list \<Rightarrow> nat" where
  "successes i xs = length (filter (\<lambda>(j, x). j = i \<and> success x) xs)"

lemma successes_append [simp]: "successes i (xs @ ys) = successes i xs + successes i ys"
  by (simp add: successes_def)

lemma successes_simps [simp]:
  "successes i [] = 0" "successes i [(j, x)] = (if j = i \<and> success x then 1 else 0)"
  by (simp_all add: successes_def)

text \<open>Actions that neither lose a record of a delivery nor kill the process.\<close>

fun calm_action :: "'n action \<Rightarrow> bool" where
  "calm_action (Finish k env) = (io_fault (d_io env) = None)"
| "calm_action (Kill lost) = False"
| "calm_action a = True"

context mail_dispatch
begin

lemma reachable_sent:
  assumes "reachable P dbg Q C I q0 s" and "ok q0" and "params_ok C I"
    and "budget (max_attempts (retry (disp_config I))) (view q0)"
    and P: "\<And>a. P a \<Longrightarrow> action_ok I a"
    and "view (queue_of s) i = Some m" and "status m = Sent"
  shows "(\<exists>m0. view q0 i = Some m0 \<and> status m0 = Sent) \<or> 0 < successes i (sends s)"
  using assms(1,6,7)
proof (induction arbitrary: i m rule: reachable.induct)
  case init
  then show ?case by (auto simp: start_def)
next
  case (next_step s a s')
  from reachable_inv [OF next_step(1) assms(2,3,4) P]
  have q: "ok (queue_of s)" and inv: "sys_inv I (view (queue_of s)) s" by simp_all
  note a = P [OF next_step(2)]
  from step_store [OF q assms(3) a next_step(3)] next_step(5)
  have m: "store_after dbg C I a s (view (queue_of s)) i = Some m" by simp
  note inv' = inv [unfolded sys_inv_def]
  from store_after_sent [OF conjunct1 [OF inv'] next_step(3) m next_step(6) a assms(3) conjunct2 [OF inv']]
  show ?case
  proof (elim disjE exE conjE)
    fix m0 assume "view (queue_of s) i = Some m0" "status m0 = Sent"
    from next_step(4) [OF this] show ?thesis by (auto simp: step_sends [OF next_step(3)])
  next
    fix k env assume "a = Finish k env" "i = id_of (flight s ! k)" "success (exchange_of I env (flight s ! k))"
    then show ?thesis by (simp add: step_sends [OF next_step(3)])
  qed
qed

text \<open>A mail delivered successfully once is \<open>Sent\<close> from then on.\<close>

lemma reachable_once:
  assumes "reachable P dbg Q C I q0 s" and "ok q0" and "params_ok C I"
    and "budget (max_attempts (retry (disp_config I))) (view q0)"
    and P: "\<And>a. P a \<Longrightarrow> action_ok I a \<and> calm_action a"
  shows "successes i (sends s) = 0 \<or>
     successes i (sends s) = 1 \<and> (\<exists>m. view (queue_of s) i = Some m \<and> status m = Sent)"
  using assms(1)
proof (induction rule: reachable.induct)
  case init
  then show ?case by (simp add: start_def)
next
  case (next_step s a s')
  have P': "\<And>a. P a \<Longrightarrow> action_ok I a" using P by blast
  from reachable_inv [OF next_step(1) assms(2,3,4) P']
  have q: "ok (queue_of s)" and inv: "sys_inv I (view (queue_of s)) s" by simp_all
  from P [OF next_step(2)] have a: "action_ok I a" "calm_action a" by simp_all
  note S = step_store [OF q assms(3) a(1) next_step(3)]
  note E = step_inv(3) [OF q assms(3) a(1) inv next_step(3)]
  have keep: "\<exists>m. view (queue_of s') i = Some m \<and> status m = Sent"
    if "view (queue_of s) i = Some m" "status m = Sent" for m
    using E that unfolding evolves_def terminal_def by fastforce
  show ?case
  proof (cases "successes i (sends s') = successes i (sends s)")
    case True
    with next_step(4) keep show ?thesis by auto
  next
    case False
    with step_sends [OF next_step(3)] a(2) obtain k env where F: "a = Finish k env"
      "i = id_of (flight s ! k)" "success (exchange_of I env (flight s ! k))"
      by (auto split: action.splits if_splits)
    from next_step(3) F(1) have k: "k < length (flight s)" by (simp split: if_splits)
    from inv have inv': "disp_inv (concurrency (disp_config I)) (view (queue_of s)) (phase_of s) (flight s)"
      "budget (max_attempts (retry (disp_config I))) (view (queue_of s))" by (simp_all add: sys_inv_def)
    from flight_nth [OF inv'(1) k] obtain m0 where m0: "view (queue_of s) i = Some m0"
      "claimed_as (flight s ! k) m0" "\<not> terminal m0" unfolding F(2) .
    from a F(1) have env: "denv_ok I env" "io_fault (d_io env) = None" by simp_all
    from budgetD [OF inv'(2) m0(1,3)] m0(2) have
      b: "attempts (flight s ! k) < max_attempts (retry (disp_config I))" by (simp add: claimed_as_def)
    have "delivery_mark dbg C I env (flight s ! k) = Some MSent"
      using F(3) unfolding delivery_mark_cases [OF assms(3) env(1) b] success_def by auto
    with S F(1,2) m0(1) env(2) have "view (queue_of s') i = Some (set_mail_status (io_now (d_io env)) Sent None False None m0)"
      by (simp add: upd_at_same mark_mail_eqs)
    moreover from m0 next_step(4) have "successes i (sends s) = 0" by (auto simp: terminal_def)
    ultimately show ?thesis using F by (simp add: step_sends [OF next_step(3)])
  qed
qed

end

section \<open>Progress of a tick\<close>

text \<open>The steps a tick takes by itself once it has fetched mails.\<close>

fun tick_action :: "'n action \<Rightarrow> bool" where
  "tick_action (Claim io) = True"
| "tick_action Spawn = True"
| "tick_action (Finish k env) = True"
| "tick_action Join = True"
| "tick_action a = False"

definition tick_measure :: "'q dstate \<Rightarrow> nat" where
  "tick_measure s =
     3 * length (waiting (phase_of s)) + 2 * length (holding (phase_of s)) + length (flight s) +
     (if ticking (phase_of s) then 1 else 0)"

lemma tick_step_decreases:
  assumes "tick_action a" and st: "step dbg Q C I a s = Some s'"
  shows "tick_measure s' < tick_measure s"
proof (cases a)
  case (Claim io)
  from st [unfolded Claim] show ?thesis
    by (elim step_Claim) (simp add: tick_measure_def claimed_def split: sum.split)
next
  case Spawn
  from st [unfolded Spawn] show ?thesis by (elim step_Spawn) (simp add: tick_measure_def)
next
  case (Finish k env)
  with st show ?thesis by (auto simp: tick_measure_def finished_def split: if_splits)
next
  case Join
  from st [unfolded Join] show ?thesis by (elim step_Join) (simp add: tick_measure_def)
qed (use assms in simp_all)

text \<open>Whatever the clock and the network do, a tick has a step to take, and its steps lead back to
  polling.\<close>

lemma tick_not_stuck:
  assumes t: "ticking (phase_of s)" and c: "0 < concurrency (disp_config I)"
  obtains a s' where "a \<in> {Claim io, Spawn, Finish 0 env, Join}"
    and "step dbg Q C I a s = Some s'" and "ticking (phase_of s') \<or> phase_of s' = Polling"
proof (cases "phase_of s")
  case (Claiming ms n)
  show thesis
  proof (cases ms)
    case Nil
    show thesis
    proof (cases "flight s = []")
      case True
      with Claiming Nil that [of Join] show thesis by simp
    next
      case False
      with Claiming that [of "Finish 0 env"] show thesis by (simp add: finished_def)
    qed
  next
    case (Cons m ms')
    with Claiming that [of "Claim io"] show thesis by (simp add: claimed_def split: sum.splits)
  qed
next
  case (Acquiring m ms n)
  show thesis
  proof (cases "flight s = []")
    case True
    with Acquiring c that [of Spawn] show thesis by simp
  next
    case False
    with Acquiring that [of "Finish 0 env"] show thesis by (simp add: finished_def)
  qed
qed (use t in simp_all)

lemma tick_completes:
  assumes "ticking (phase_of s)" and c: "0 < concurrency (disp_config I)"
  shows "\<exists>as s'. set as \<subseteq> {Claim io, Spawn, Finish 0 env, Join} \<and> length as \<le> tick_measure s \<and>
           steps dbg Q C I as s = Some s' \<and> phase_of s' = Polling"
  using assms(1)
proof (induction "tick_measure s" arbitrary: s rule: less_induct)
  case less
  from tick_not_stuck [OF less(2) c] obtain a s' where
    a: "a \<in> {Claim io, Spawn, Finish 0 env, Join}" and st: "step dbg Q C I a s = Some s'"
    and ph: "ticking (phase_of s') \<or> phase_of s' = Polling" .
  from a have "tick_action a" by auto
  from tick_step_decreases [OF this st] have lt: "tick_measure s' < tick_measure s" .
  show ?case
  proof (cases "phase_of s' = Polling")
    case True
    with a st lt show ?thesis by (intro exI [of _ "[a]"]) auto
  next
    case False
    with ph have "ticking (phase_of s')" by simp
    from less(1) [OF lt this] obtain as s'' where
      "set as \<subseteq> {Claim io, Spawn, Finish 0 env, Join}" "length as \<le> tick_measure s'"
      "steps dbg Q C I as s' = Some s''" "phase_of s'' = Polling" by blast
    with a st lt show ?thesis by (intro exI [of _ "a # as"] exI [of _ s'']) auto
  qed
qed

section \<open>Failing deliveries\<close>

definition failure :: "exchange \<Rightarrow> bool" where
  "failure x = (\<exists>n e. x = Some (n, Some (Inl e)))"

definition failures :: "mail_id \<Rightarrow> (mail_id \<times> exchange) list \<Rightarrow> nat" where
  "failures i xs = length (filter (\<lambda>(j, x). j = i \<and> failure x) xs)"

lemma failures_append [simp]: "failures i (xs @ ys) = failures i xs + failures i ys"
  by (simp add: failures_def)

lemma failures_simps [simp]:
  "failures i [] = 0" "failures i [(j, x)] = (if j = i \<and> failure x then 1 else 0)"
  by (simp_all add: failures_def)

lemma failing_mark:
  assumes "params_ok C I" and "denv_ok I env" and "claimed_as f m"
    and b: "attempts m < max_attempts (retry (disp_config I))" and "failure (exchange_of I env f)"
  shows "attempts (mark_mail t (delivery_mark dbg C I env f) m) = attempts m + 1"
proof -
  from assms(3) b have bf: "attempts f < max_attempts (retry (disp_config I))"
    by (simp add: claimed_as_def)
  show ?thesis
    using assms(5) unfolding delivery_mark_cases [OF assms(1,2) bf] failure_def by auto
qed

section \<open>A tick delivers what it fetched\<close>

text \<open>Actions under which nothing goes wrong for the mails in \<open>ms\<close>: the queue takes every claim and
  every record, the process lives, and every transport accepts.\<close>

fun smooth :: "'n inner \<Rightarrow> mail list \<Rightarrow> 'n action \<Rightarrow> bool" where
  "smooth I ms (Claim io) = (ts_ok (io_now io) \<and> io_fault io = None)"
| "smooth I ms Spawn = True"
| "smooth I ms (Finish k env) =
     (denv_ok I env \<and> io_fault (d_io env) = None \<and> (\<forall>m \<in> set ms. success (exchange_of I env m)))"
| "smooth I ms Join = True"
| "smooth I ms (Ingress new t i io) = ts_ok t"
| "smooth I ms _ = False"

lemma smooth_action_ok: "smooth I ms a \<Longrightarrow> action_ok I a"
  by (cases a) simp_all

definition in_hand :: "'q dstate \<Rightarrow> mail list" where
  "in_hand s = flight s @ holding (phase_of s) @ waiting (phase_of s)"

lemma smooth_step_in_hand:
  assumes "smooth I ms a" and st: "step dbg Q C I a s = Some s'"
  shows "set (in_hand s') \<subseteq> set (in_hand s)"
proof (cases a)
  case (Claim io)
  from st [unfolded Claim] show ?thesis
    by (elim step_Claim) (auto simp: in_hand_def claimed_def split: sum.split)
next
  case Spawn
  from st [unfolded Spawn] show ?thesis by (elim step_Spawn) (auto simp: in_hand_def)
next
  case (Finish k env)
  with st set_remove_nth [of k "flight s"] show ?thesis
    by (auto simp: in_hand_def finished_def split: if_splits)
next
  case Join
  from st [unfolded Join] show ?thesis by (elim step_Join) (auto simp: in_hand_def)
next
  case (Ingress new t i io)
  with st show ?thesis by (auto simp: in_hand_def)
qed (use assms in simp_all)

lemma in_remove_nth:
  assumes "x \<in> set xs" and "k < length xs"
  shows "x = xs ! k \<or> x \<in> set (take k xs @ drop (Suc k) xs)"
proof -
  have "set xs = set (take k xs @ xs ! k # drop (Suc k) xs)" using id_take_nth_drop [OF assms(2)] by simp
  with assms(1) show ?thesis by auto
qed

context mail_dispatch
begin

lemma smooth_step_done:
  assumes q: "ok (queue_of s)" and p: "params_ok C I" and sm: "smooth I ms a"
    and inv: "sys_inv I (view (queue_of s)) s" and st: "step dbg Q C I a s = Some s'"
    and sub: "set (in_hand s) \<subseteq> set ms" and w: "w \<in> set (in_hand s)"
  shows "w \<in> set (in_hand s') \<or> (\<exists>m. view (queue_of s') (id_of w) = Some m \<and> status m = Sent)"
proof (cases a)
  case (Claim io)
  from st [unfolded Claim] obtain m ms' n where ph: "phase_of s = Claiming (m # ms') n"
    and s': "s' = claimed m ms' n (q_mark_sending Q io (id_of m) (queue_of s)) s" by (rule step_Claim)
  from sm Claim have now: "ts_ok (io_now io)" "io_fault io = None" by simp_all
  from inv ph have "disp_inv (concurrency (disp_config I)) (view (queue_of s)) (Claiming (m # ms') n) (flight s)"
    by (simp add: sys_inv_def)
  from claim_head(1) [OF this] marks_upd_at(3) [OF mark_sending_law [OF now(1)] q, of "id_of m"] now(2)
  obtain u where "snd (q_mark_sending Q io (id_of m) (queue_of s)) = Inr u"
    by (cases "snd (q_mark_sending Q io (id_of m) (queue_of s))") auto
  with w ph s' show ?thesis by (auto simp: in_hand_def claimed_def)
next
  case Spawn
  from st [unfolded Spawn] w show ?thesis by (elim step_Spawn) (auto simp: in_hand_def)
next
  case (Finish k env)
  with st have k: "k < length (flight s)" by (simp split: if_splits)
  from inv have inv': "disp_inv (concurrency (disp_config I)) (view (queue_of s)) (phase_of s) (flight s)"
    "budget (max_attempts (retry (disp_config I))) (view (queue_of s))" by (simp_all add: sys_inv_def)
  from flight_nth [OF inv'(1) k] obtain m0 where m0: "view (queue_of s) (id_of (flight s ! k)) = Some m0"
    "claimed_as (flight s ! k) m0" "\<not> terminal m0" .
  have "flight s ! k \<in> set ms" using sub k by (auto simp: in_hand_def)
  with sm Finish have env: "denv_ok I env" "io_fault (d_io env) = None"
    and sx: "success (exchange_of I env (flight s ! k))" by simp_all
  from budgetD [OF inv'(2) m0(1,3)] m0(2) have
    b: "attempts (flight s ! k) < max_attempts (retry (disp_config I))" by (simp add: claimed_as_def)
  have "delivery_mark dbg C I env (flight s ! k) = Some MSent"
    using sx unfolding delivery_mark_cases [OF p env(1) b] success_def by auto
  with step_store [OF q p smooth_action_ok [OF sm] st] Finish m0(1) env(2)
  have sent: "view (queue_of s') (id_of (flight s ! k)) =
      Some (set_mail_status (io_now (d_io env)) Sent None False None m0)"
    by (simp add: upd_at_same mark_mail_eqs)
  from st Finish have s': "phase_of s' = phase_of s" "flight s' = take k (flight s) @ drop (Suc k) (flight s)"
    by (auto simp: finished_def split: if_splits)
  from w in_remove_nth [OF _ k, of w] s' sent show ?thesis by (auto simp: in_hand_def)
next
  case Join
  from st [unfolded Join] w show ?thesis by (elim step_Join) (simp add: in_hand_def)
next
  case (Ingress new t i io)
  with st w show ?thesis by (auto simp: in_hand_def)
qed (use sm in simp_all)

lemma smooth_run_done:
  assumes "steps dbg Q C I as s = Some s'" and p: "params_ok C I" and "ok (queue_of s)"
    and "sys_inv I (view (queue_of s)) s" and "set (in_hand s) \<subseteq> set ms"
    and "\<forall>a \<in> set as. smooth I ms a"
    and "w \<in> set (in_hand s) \<or> (\<exists>m. view (queue_of s) (id_of w) = Some m \<and> status m = Sent)"
  shows "ok (queue_of s') \<and> sys_inv I (view (queue_of s')) s' \<and>
     (w \<in> set (in_hand s') \<or> (\<exists>m. view (queue_of s') (id_of w) = Some m \<and> status m = Sent))"
  using assms(1,3-7)
proof (induction as arbitrary: s)
  case (Cons a as)
  from Cons.prems(1) obtain s1 where st: "step dbg Q C I a s = Some s1" and rest: "steps dbg Q C I as s1 = Some s'"
    by (auto split: option.splits)
  from Cons.prems(5) have sm: "smooth I ms a" "\<forall>a \<in> set as. smooth I ms a" by simp_all
  note N = step_inv [OF Cons.prems(2) p smooth_action_ok [OF sm(1)] Cons.prems(3) st]
  have sub: "set (in_hand s1) \<subseteq> set ms"
    using smooth_step_in_hand [OF sm(1) st] Cons.prems(4) by blast
  have "w \<in> set (in_hand s1) \<or> (\<exists>m. view (queue_of s1) (id_of w) = Some m \<and> status m = Sent)"
    using Cons.prems(6)
  proof
    assume "w \<in> set (in_hand s)"
    then show ?thesis by (rule smooth_step_done [OF Cons.prems(2) p sm(1) Cons.prems(3) st Cons.prems(4)])
  next
    assume "\<exists>m. view (queue_of s) (id_of w) = Some m \<and> status m = Sent"
    with N(3) show ?thesis unfolding evolves_def terminal_def by fastforce
  qed
  from Cons.IH [OF rest N(1,2) sub sm(2) this] show ?case .
qed auto

text \<open>A tick that fetched \<open>ms\<close> and ended in polling, with nothing going wrong, has delivered them all.\<close>

lemma smooth_tick_delivers:
  assumes "steps dbg Q C I as s = Some s'" and "params_ok C I" and "ok (queue_of s)"
    and "sys_inv I (view (queue_of s)) s" and "phase_of s = Claiming ms n" and "flight s = []"
    and "\<forall>a \<in> set as. smooth I ms a" and "phase_of s' = Polling" and "w \<in> set ms"
  shows "\<exists>m. view (queue_of s') (id_of w) = Some m \<and> status m = Sent"
proof -
  have ih: "in_hand s = ms" using assms(5,6) by (simp add: in_hand_def)
  then have w: "w \<in> set (in_hand s)" using assms(9) by simp
  from smooth_run_done [OF assms(1,2,3,4) _ assms(7) disjI1 [OF w]] ih
  have inv: "sys_inv I (view (queue_of s')) s'"
    and d: "w \<in> set (in_hand s') \<or> (\<exists>m. view (queue_of s') (id_of w) = Some m \<and> status m = Sent)"
    by simp_all
  from inv assms(8) have "flight s' = []" by (simp add: sys_inv_def disp_inv_def)
  with d assms(8) show ?thesis by (simp add: in_hand_def)
qed

end

end
