(* ===== verification/Dispatcher_Liveness.thy ===== *)
theory Dispatcher_Liveness
  imports Dispatcher_Run
begin

text \<open>
  Runs of many ticks, in the contract \<open>mail_queue\<close>: whatever the schedule, as long as the queue works,
  the process lives and the transports accept, every complete tick that finds a due mail finishes at
  least one, so that after as many ticks as there are unfinished mails nothing that was due is left.
\<close>

section \<open>Fair runs\<close>

text \<open>Actions under which nothing goes wrong for the unfinished mails of \<open>M\<close> from the time \<open>now\<close> on. The
  reclaim of a tick may fail.\<close>

fun fair :: "'n inner \<Rightarrow> datetime \<Rightarrow> store \<Rightarrow> 'n action \<Rightarrow> bool" where
  "fair I now M (Reclaim t io) = (action_ok I (Reclaim t io) \<and> now \<le> t)"
| "fair I now M (Fetch io) = (io_fault io = None)"
| "fair I now M (Claim io) = (ts_ok (io_now io) \<and> io_fault io = None)"
| "fair I now M Spawn = True"
| "fair I now M (Finish k env) =
     (denv_ok I env \<and> io_fault (d_io env) = None \<and>
      (\<forall>i m m'. M i = Some m \<and> \<not> terminal m \<and> content m' = content m \<longrightarrow> success (exchange_of I env m')))"
| "fair I now M Join = True"
| "fair I now M _ = False"

lemma fair_action_ok: "fair I now M a \<Longrightarrow> action_ok I a"
  by (cases a) simp_all

text \<open>The unfinished mails the dispatcher has not in hand.\<close>

definition hand_ids :: "'q dstate \<Rightarrow> mail_id set" where
  "hand_ids s = id_of ` set (in_hand s)"

definition unfinished :: "store \<Rightarrow> mail_id set" where
  "unfinished M = {i. \<exists>m. M i = Some m \<and> \<not> terminal m}"

definition undelivered :: "datetime \<Rightarrow> store \<Rightarrow> store \<Rightarrow> mail_id set" where
  "undelivered now M0 M =
     {i. (\<exists>m. M0 i = Some m \<and> due now m) \<and> \<not> (\<exists>m. M i = Some m \<and> status m = Sent)}"

lemma undelivered_mono: "evolves M M' \<Longrightarrow> undelivered now M0 M' \<subseteq> undelivered now M0 M"
  unfolding undelivered_def evolves_def terminal_def by fastforce

text \<open>A tick logs its result once: when it joins its tasks, or at once when there was nothing to do.\<close>

lemma tick_logs:
  assumes "tick_action a" and st: "step dbg Q C I a s = Some s'"
  shows "length (processed s') + (if ticking (phase_of s') then 1 else 0) =
     length (processed s) + (if ticking (phase_of s) then 1 else 0)"
proof (cases a)
  case (Claim io)
  from st [unfolded Claim] show ?thesis by (elim step_Claim) (simp add: claimed_def split: sum.split)
next
  case Spawn
  from st [unfolded Spawn] show ?thesis by (elim step_Spawn) simp
next
  case (Finish k env)
  with st show ?thesis by (auto simp: finished_def split: if_splits)
next
  case Join
  from st [unfolded Join] show ?thesis by (elim step_Join) simp
qed (use assms in simp_all)

lemma ticks_log:
  assumes "steps dbg Q C I as s = Some s'" and "\<forall>a \<in> set as. tick_action a"
  shows "length (processed s') + (if ticking (phase_of s') then 1 else 0) =
     length (processed s) + (if ticking (phase_of s) then 1 else 0)"
  using assms
proof (induction as arbitrary: s)
  case (Cons a as)
  then obtain s1 where st: "step dbg Q C I a s = Some s1" and "steps dbg Q C I as s1 = Some s'"
    by (auto split: option.splits)
  with Cons.IH [of s1] tick_logs [OF _ st] Cons.prems(2) show ?case by auto
qed simp

text \<open>A batch is empty only when nothing is due, and taking it up leaves fewer mails.\<close>

lemma due_not_terminal: "due t m \<Longrightarrow> \<not> terminal m"
  by (auto simp: due_def live_def terminal_def)

lemma due_batch_nonempty:
  assumes "due_batch M limit t ms" and "0 < limit" and "finite (dom M)" and "M i = Some m" and "due t m"
  shows "ms \<noteq> []"
proof -
  have "finite {i. \<exists>m. M i = Some m \<and> due t m}" by (rule finite_subset [OF _ assms(3)]) auto
  then have "0 < card {i. \<exists>m. M i = Some m \<and> due t m}" using assms(4,5) by (auto simp: card_gt_0_iff)
  with due_batchD(5) [OF assms(1)] assms(2) show ?thesis by (auto simp: word_less_nat_alt)
qed

lemma due_batch_card:
  assumes "due_batch M limit t ms" and "ms \<noteq> []" and "finite (unfinished M)"
  shows "card (unfinished M - id_of ` set ms) + 1 \<le> card (unfinished M)"
proof -
  have sub: "id_of ` set ms \<subseteq> unfinished M"
    using due_batchD(2) [OF assms(1)] due_not_terminal [OF due_batchD(3) [OF assms(1)]]
    unfolding unfinished_def by blast
  moreover have "0 < card (id_of ` set ms)" using assms(2) by (simp add: card_gt_0_iff)
  ultimately show ?thesis using card_Diff_subset [of "id_of ` set ms" "unfinished M"] card_mono [OF assms(3) sub] by simp
qed

text \<open>The invariant of a fair run from a store \<open>M0\<close>: a mail that was due then is delivered, in hand or as it
  was, and unless all of them are delivered, the ticks so far and the mails still to take up are
  no more than \<open>n\<close> together.\<close>

definition drain_inv :: "datetime \<Rightarrow> store \<Rightarrow> nat \<Rightarrow> store \<Rightarrow> 'q dstate \<Rightarrow> bool" where
  "drain_inv now M0 n M s =
     (evolves M0 M \<and> (\<forall>i. M i = None \<longleftrightarrow> M0 i = None) \<and> (\<forall>t. phase_of s = Fetching t \<longrightarrow> now \<le> t) \<and>
      (\<forall>i m. M0 i = Some m \<and> due now m \<longrightarrow>
         i \<in> hand_ids s \<or> M i = Some m \<or> (\<exists>m'. M i = Some m' \<and> status m' = Sent)) \<and>
      (undelivered now M0 M = {} \<or>
       length (processed s) + (if ticking (phase_of s) then 1 else 0) + card (unfinished M - hand_ids s) \<le> n))"

lemma drain_invD:
  assumes "drain_inv now M0 n M s"
  shows "evolves M0 M" and "\<And>i. M i = None \<longleftrightarrow> M0 i = None" and "\<And>t. phase_of s = Fetching t \<Longrightarrow> now \<le> t"
    and "\<And>i m. M0 i = Some m \<Longrightarrow> due now m \<Longrightarrow>
         i \<in> hand_ids s \<or> M i = Some m \<or> (\<exists>m'. M i = Some m' \<and> status m' = Sent)"
    and "undelivered now M0 M = {} \<or>
       length (processed s) + (if ticking (phase_of s) then 1 else 0) + card (unfinished M - hand_ids s) \<le> n"
  using assms unfolding drain_inv_def by - (elim conjE, (blast | assumption))+

lemma not_ticking_hand: "sys_inv I M s \<Longrightarrow> \<not> ticking (phase_of s) \<Longrightarrow> hand_ids s = {}"
  by (cases "phase_of s") (auto simp: sys_inv_def disp_inv_def hand_ids_def in_hand_def)

lemma steps_append:
  "steps dbg Q C I (as @ bs) s = (case steps dbg Q C I as s of None \<Rightarrow> None | Some s' \<Rightarrow> steps dbg Q C I bs s')"
  by (induction as arbitrary: s) (simp_all split: option.split)

context mail_dispatch
begin

lemma steps_inv:
  assumes "steps dbg Q C I as s = Some s'" and p: "params_ok C I" and "\<forall>a \<in> set as. action_ok I a"
    and "ok (queue_of s)" and "sys_inv I (view (queue_of s)) s"
  shows "ok (queue_of s') \<and> sys_inv I (view (queue_of s')) s' \<and> evolves (view (queue_of s)) (view (queue_of s'))"
  using assms(1,3-5)
proof (induction as arbitrary: s)
  case (Cons a as)
  from Cons.prems(1) obtain s1 where st: "step dbg Q C I a s = Some s1" and rest: "steps dbg Q C I as s1 = Some s'"
    by (auto split: option.splits)
  from Cons.prems(2) have a: "action_ok I a" "\<forall>a \<in> set as. action_ok I a" by simp_all
  note N = step_inv [OF Cons.prems(3) p a(1) Cons.prems(4) st]
  from Cons.IH [OF rest a(2) N(1,2)] N(3) evolves_trans show ?case by blast
qed simp

lemma fair_dom:
  assumes "ok (queue_of s)" and "params_ok C I" and "fair I now M0 a" and "step dbg Q C I a s = Some s'"
  shows "view (queue_of s') i = None \<longleftrightarrow> view (queue_of s) i = None"
proof -
  have "requeue_at io P M i = None \<longleftrightarrow> M i = None" for io P and M :: store
    by (simp add: requeue_at_def requeue_store_def)
  with step_store [OF assms(1,2) fair_action_ok [OF assms(3)] assms(4)] assms(3) show ?thesis
    by (cases a) (simp_all add: upd_at_None)
qed

lemma tick_other:
  assumes "ok (queue_of s)" and "params_ok C I" and "action_ok I a" and "tick_action a"
    and st: "step dbg Q C I a s = Some s'" and "i \<notin> hand_ids s"
  shows "view (queue_of s') i = view (queue_of s) i"
proof -
  note v = step_store [OF assms(1-3) st]
  show ?thesis
  proof (cases a)
    case (Claim io)
    from st [unfolded Claim] obtain m ms n where "phase_of s = Claiming (m # ms) n" by (rule step_Claim)
    with v Claim assms(6) show ?thesis by (auto simp: hand_ids_def in_hand_def)
  next
    case (Finish k env)
    with st have "k < length (flight s)" by (simp split: if_splits)
    then have "i \<noteq> id_of (flight s ! k)" using assms(6) by (auto simp: hand_ids_def in_hand_def)
    with v Finish show ?thesis by simp
  qed (use v assms(4) in simp_all)
qed

lemma hand_stored:
  assumes "sys_inv I M s" and "w \<in> set (in_hand s)"
  shows "\<exists>m. M (id_of w) = Some m \<and> content m = content w \<and> \<not> terminal m"
proof -
  have d: "disp_inv (concurrency (disp_config I)) M (phase_of s) (flight s)"
    using assms(1) by (simp add: sys_inv_def)
  show ?thesis
    using assms(2) disp_invD(2,3,4) [OF d, of w]
    by (auto simp: in_hand_def claimed_as_def terminal_def live_def)
qed

lemma fair_smooth:
  assumes "fair I now M0 a" and "tick_action a" and "sys_inv I M s" and "evolves M0 M"
    and "\<And>i. M i = None \<longleftrightarrow> M0 i = None"
  shows "smooth I (in_hand s) a"
proof -
  have "\<exists>m0. M0 (id_of w) = Some m0 \<and> \<not> terminal m0 \<and> content w = content m0" if "w \<in> set (in_hand s)" for w
  proof -
    from hand_stored [OF assms(3) that] obtain m where m: "M (id_of w) = Some m" "content m = content w" "\<not> terminal m"
      by blast
    with assms(5) [of "id_of w"] obtain m0 where m0: "M0 (id_of w) = Some m0" by auto
    with assms(4) m show ?thesis unfolding evolves_def by fastforce
  qed
  note old = this
  show ?thesis
  proof (cases a)
    case (Finish k env)
    with assms(1) old show ?thesis unfolding Finish fair.simps smooth.simps by blast
  qed (use assms(1,2) in simp_all)
qed

lemma tick_hand:
  assumes "ok (queue_of s)" and "params_ok C I" and "smooth I (in_hand s) a"
    and "sys_inv I (view (queue_of s)) s" and "step dbg Q C I a s = Some s'" and "i \<in> hand_ids s"
  shows "i \<in> hand_ids s' \<or> (\<exists>m. view (queue_of s') i = Some m \<and> status m = Sent)"
  using assms(6) smooth_step_done [OF assms(1-5) subset_refl] unfolding hand_ids_def by blast

lemma finite_unfinished: "ok q \<Longrightarrow> finite (unfinished (view q))"
  by (rule finite_subset [OF _ finite_store]) (auto simp: unfinished_def)

lemma drain_tick:
  assumes q: "ok (queue_of s)" and p: "params_ok C I" and a: "fair I now M0 a" "tick_action a"
    and inv: "sys_inv I (view (queue_of s)) s" and st: "step dbg Q C I a s = Some s'"
    and dr: "drain_inv now M0 n (view (queue_of s)) s"
  shows "drain_inv now M0 n (view (queue_of s')) s'"
proof -
  note D = drain_invD [OF dr]
  note N = step_inv [OF q p fair_action_ok [OF a(1)] inv st]
  note dom = fair_dom [OF q p a(1) st]
  note other = tick_other [OF q p fair_action_ok [OF a(1)] a(2) st]
  note hand = tick_hand [OF q p fair_smooth [OF a inv D(1,2)] inv st]
  have "unfinished (view (queue_of s')) - hand_ids s' \<subseteq> unfinished (view (queue_of s)) - hand_ids s"
  proof
    fix i assume i: "i \<in> unfinished (view (queue_of s')) - hand_ids s'"
    with hand [of i] have "i \<notin> hand_ids s" by (auto simp: unfinished_def terminal_def)
    with i other [of i] show "i \<in> unfinished (view (queue_of s)) - hand_ids s" by (simp add: unfinished_def)
  qed
  then have c: "card (unfinished (view (queue_of s')) - hand_ids s') \<le> card (unfinished (view (queue_of s)) - hand_ids s)"
    by (rule card_mono [rotated]) (simp add: finite_unfinished [OF q])
  have "i \<in> hand_ids s' \<or> view (queue_of s') i = Some m \<or> (\<exists>m'. view (queue_of s') i = Some m' \<and> status m' = Sent)"
    if m: "M0 i = Some m" "due now m" for i m
  proof (cases "i \<in> hand_ids s")
    case True
    with hand [OF True] show ?thesis by blast
  next
    case False
    with D(4) [OF m] other [OF False] show ?thesis by auto
  qed
  moreover have "\<forall>t. phase_of s' = Fetching t \<longrightarrow> now \<le> t"
    using a(2) st D(3) by (cases a) (auto simp: claimed_def finished_def split: if_splits phase.splits list.splits sum.splits)
  moreover have "evolves M0 (view (queue_of s'))" using evolves_trans [OF D(1) N(3)] .
  moreover have "undelivered now M0 (view (queue_of s')) = {} \<or>
       length (processed s') + (if ticking (phase_of s') then 1 else 0) + card (unfinished (view (queue_of s')) - hand_ids s') \<le> n"
    using D(5) undelivered_mono [OF N(3), of now M0] c tick_logs [OF a(2) st] by auto
  ultimately show ?thesis using dom D(2) unfolding drain_inv_def by blast
qed

lemma drain_reclaim:
  assumes q: "ok (queue_of s)" and p: "params_ok C I" and a: "fair I now M0 (Reclaim t io)"
    and inv: "sys_inv I (view (queue_of s)) s" and st: "step dbg Q C I (Reclaim t io) s = Some s'"
    and dr: "drain_inv now M0 n (view (queue_of s)) s"
  shows "drain_inv now M0 n (view (queue_of s')) s'"
proof -
  note D = drain_invD [OF dr]
  note N = step_inv [OF q p fair_action_ok [OF a] inv st]
  note dom = fair_dom [OF q p a st]
  obtain c where c: "dt_sub C t (lease_delta C (disp_config I)) = Some c"
    using lease_ok [OF params_okD(1) [OF p] fair_action_ok [OF a]] by blast
  from st c have ph: "phase_of s = Polling" "phase_of s' = Fetching t" "processed s' = processed s"
    by (auto split: if_splits)
  have h: "hand_ids s = {}" "hand_ids s' = {}" using not_ticking_hand [OF inv] not_ticking_hand [OF N(2)] ph by simp_all
  have v: "view (queue_of s') = requeue_at io (\<lambda>m. updated_at m < c) (view (queue_of s))"
    using step_store [OF q p fair_action_ok [OF a] st] c by simp
  have u: "unfinished (view (queue_of s')) \<subseteq> unfinished (view (queue_of s))"
    unfolding v unfinished_def requeue_at_def
    by (auto simp: requeue_store_Some_iff terminal_def split: if_splits)
  have keep: "view (queue_of s') i = Some m" if "view (queue_of s) i = Some m" "status m \<noteq> Sending" for i m
    using that unfolding v by (auto simp: requeue_at_def requeue_store_def)
  have "view (queue_of s') i = Some m \<or> (\<exists>m'. view (queue_of s') i = Some m' \<and> status m' = Sent)"
    if m: "M0 i = Some m" "due now m" for i m
    using D(4) [OF m] m(2) h(1) keep [of i] by (auto simp: due_def live_def)
  moreover have "undelivered now M0 (view (queue_of s')) = {} \<or>
      length (processed s') + card (unfinished (view (queue_of s'))) \<le> n"
    using D(5) undelivered_mono [OF N(3), of now M0] card_mono [OF finite_unfinished [OF q] u] ph h by auto
  ultimately show ?thesis
    using evolves_trans [OF D(1) N(3)] dom D(2) a ph(2) h(2) unfolding drain_inv_def by auto
qed

lemma drain_fetch:
  assumes q: "ok (queue_of s)" and p: "params_ok C I" and a: "fair I now M0 (Fetch io)"
    and inv: "sys_inv I (view (queue_of s)) s" and st: "step dbg Q C I (Fetch io) s = Some s'"
    and dr: "drain_inv now M0 n (view (queue_of s)) s" and b0: "0 < batch_size (disp_config I)"
  shows "drain_inv now M0 n (view (queue_of s')) s'"
proof -
  note D = drain_invD [OF dr]
  from st obtain t where ph: "phase_of s = Fetching t" by (cases "phase_of s") auto
  note h = not_ticking_hand [OF inv]
  let ?lim = "batch_size (disp_config I)"
  have "ts_ok t" using inv ph disp_invD(7) by (simp add: sys_inv_def) blast
  from fetch_ok [OF q this, of io ?lim] a obtain ms where
    f: "q_fetch_due Q io ?lim t (queue_of s) = Inr ms" and b: "due_batch (view (queue_of s)) ?lim t ms" by auto
  from st ph f have s': "s' = fetched (disp_config I) (Inr ms) s" by simp
  then have v: "queue_of s' = queue_of s" and ph': "\<And>t. phase_of s' \<noteq> Fetching t" and fl: "flight s' = flight s"
    by (auto simp: fetched_def)
  have left: "ms \<noteq> []" if ne: "undelivered now M0 (view (queue_of s)) \<noteq> {}"
  proof -
    from ne obtain i m where i: "M0 i = Some m" "due now m" "\<not> (\<exists>m'. view (queue_of s) i = Some m' \<and> status m' = Sent)"
      by (auto simp: undelivered_def)
    with D(4) [OF i(1,2)] h ph have m: "view (queue_of s) i = Some m" by auto
    have "due t m" using i(2) D(3) [OF ph] by (simp add: due_def)
    with due_batch_nonempty [OF b b0 finite_store [OF q] m] show ?thesis by blast
  qed
  have hs: "hand_ids s' = id_of ` set ms" if "ticking (phase_of s')"
    using that s' h ph fl inv
    by (auto simp: fetched_def hand_ids_def in_hand_def sys_inv_def disp_inv_def split: if_splits)
  have len: "length (processed s') + (if ticking (phase_of s') then 1 else 0) + card (unfinished (view (queue_of s)) - hand_ids s') \<le> n"
    if "undelivered now M0 (view (queue_of s)) \<noteq> {}"
  proof -
    from D(5) that ph h have k: "length (processed s) + card (unfinished (view (queue_of s))) \<le> n" by simp
    note ne = left [OF that]
    show ?thesis
    proof (cases "ticking (phase_of s')")
      case True
      have "card (unfinished (view (queue_of s)) - id_of ` set ms) + 1 \<le> card (unfinished (view (queue_of s)))"
        by (rule due_batch_card [OF b ne finite_unfinished [OF q]])
      with k True hs s' ne show ?thesis by (simp add: fetched_def split: if_splits)
    next
      case False
      with k s' ne h ph fl show ?thesis
        by (simp add: fetched_def hand_ids_def in_hand_def split: if_splits)
    qed
  qed
  have due_kept: "view (queue_of s) i = Some m \<or> (\<exists>m'. view (queue_of s) i = Some m' \<and> status m' = Sent)"
    if "M0 i = Some m" "due now m" for i m using D(4) [OF that] h ph by simp
  show ?thesis
    unfolding drain_inv_def v
    by (intro conjI allI impI D(1,2)) (use ph' due_kept len in blast)+
qed

lemma drain_run:
  assumes "steps dbg Q C I as s = Some s'" and p: "params_ok C I" and "\<forall>a \<in> set as. fair I now M0 a"
    and b: "0 < batch_size (disp_config I)" and "ok (queue_of s)" and "sys_inv I (view (queue_of s)) s"
    and "drain_inv now M0 n (view (queue_of s)) s"
  shows "ok (queue_of s') \<and> sys_inv I (view (queue_of s')) s' \<and> drain_inv now M0 n (view (queue_of s')) s'"
  using assms(1,3,5-7)
proof (induction as arbitrary: s)
  case (Cons a as)
  from Cons.prems(1) obtain s1 where st: "step dbg Q C I a s = Some s1" and rest: "steps dbg Q C I as s1 = Some s'"
    by (auto split: option.splits)
  from Cons.prems(2) have a: "fair I now M0 a" "\<forall>a \<in> set as. fair I now M0 a" by simp_all
  note N = step_inv [OF Cons.prems(3) p fair_action_ok [OF a(1)] Cons.prems(4) st]
  have "drain_inv now M0 n (view (queue_of s1)) s1"
  proof (cases a)
    case (Reclaim t io)
    with drain_reclaim [OF Cons.prems(3) p _ Cons.prems(4) _ Cons.prems(5)] a(1) st show ?thesis by blast
  next
    case (Fetch io)
    with drain_fetch [OF Cons.prems(3) p _ Cons.prems(4) _ Cons.prems(5) b] a(1) st show ?thesis by blast
  qed (use drain_tick [OF Cons.prems(3) p a(1) _ Cons.prems(4) st Cons.prems(5)] a(1) in simp_all)
  from Cons.IH [OF rest a(2) N(1,2) this] show ?case .
qed simp

text \<open>After as many ticks as there are unfinished mails, what was due is delivered.\<close>

lemma ticks_deliver:
  assumes run: "steps dbg Q C I as s = Some s'" and p: "params_ok C I"
    and fair: "\<forall>a \<in> set as. fair I now (view (queue_of s)) a"
    and b: "0 < batch_size (disp_config I)" and q: "ok (queue_of s)" and inv: "sys_inv I (view (queue_of s)) s"
    and ph: "phase_of s = Polling" "phase_of s' = Polling"
    and k: "length (processed s) + card (unfinished (view (queue_of s))) \<le> length (processed s')"
    and m: "view (queue_of s) i = Some m" "due now m"
  shows "\<exists>m'. view (queue_of s') i = Some m' \<and> status m' = Sent \<and> content m' = content m"
proof -
  let ?n = "length (processed s) + card (unfinished (view (queue_of s)))"
  have "drain_inv now (view (queue_of s)) ?n (view (queue_of s)) s"
    using ph(1) not_ticking_hand [OF inv] by (simp add: drain_inv_def)
  from drain_run [OF run p fair b q inv this] have q': "ok (queue_of s')"
    and inv': "sys_inv I (view (queue_of s')) s'"
    and dr: "drain_inv now (view (queue_of s)) ?n (view (queue_of s')) s'" by simp_all
  note D = drain_invD [OF dr]
  from D(1) m(1) obtain m' where m': "view (queue_of s') i = Some m'" "content m' = content m"
    unfolding evolves_def by blast
  have h: "hand_ids s' = {}" using not_ticking_hand [OF inv'] ph(2) by simp
  have "status m' = Sent"
  proof (rule ccontr)
    assume ns: "status m' \<noteq> Sent"
    with m m' have "i \<in> undelivered now (view (queue_of s)) (view (queue_of s'))" by (auto simp: undelivered_def)
    with D(5) have "length (processed s') + card (unfinished (view (queue_of s'))) \<le> ?n" using ph(2) h by auto
    with k have z: "card (unfinished (view (queue_of s'))) = 0" by linarith
    from D(4) [OF m] h m' ns m(2) have "i \<in> unfinished (view (queue_of s'))"
      by (auto simp: unfinished_def due_def live_def terminal_def)
    with z finite_unfinished [OF q'] show False by auto
  qed
  with m' show ?thesis by blast
qed

text \<open>Ticks can always be taken: with a clock that stands still, queue calls that work and one
  environment for all deliveries.\<close>

lemma tick_exists:
  assumes q: "ok (queue_of s)" and inv: "sys_inv I (view (queue_of s)) s" and p: "params_ok C I"
    and ph: "phase_of s = Polling" and c: "0 < concurrency (disp_config I)" "concurrency (disp_config I) \<le> max_permits"
    and a: "action_ok I (Reclaim now io)" and io: "io_fault io = None"
  shows "\<exists>as s'. set as \<subseteq> {Reclaim now io, Fetch io, Claim io, Spawn, Finish 0 env, Join} \<and>
     steps dbg Q C I as s = Some s' \<and> phase_of s' = Polling \<and> length (processed s') = Suc (length (processed s))"
proof -
  obtain t where t: "dt_sub C now (lease_delta C (disp_config I)) = Some t"
    using lease_ok [OF params_okD(1) [OF p] a] by blast
  obtain s1 where st1: "step dbg Q C I (Reclaim now io) s = Some s1" and s1: "phase_of s1 = Fetching now"
    "processed s1 = processed s" using ph t by simp
  note N = step_inv [OF q p a inv st1]
  have "ts_ok now" using a by simp
  from fetch_ok [OF N(1) this io] obtain ms where
    f: "q_fetch_due Q io (batch_size (disp_config I)) now (queue_of s1) = Inr ms" by blast
  show ?thesis
  proof (cases "ms = []")
    case True
    with f st1 s1 show ?thesis by (intro exI [of _ "[Reclaim now io, Fetch io]"]) (simp add: fetched_def)
  next
    case False
    let ?s2 = "s1\<lparr>phase_of := Claiming ms 0\<rparr>"
    have st2: "step dbg Q C I (Fetch io) s1 = Some ?s2" using f s1 False c(2) by (simp add: fetched_def)
    have "ticking (phase_of ?s2)" by simp
    from tick_completes [OF this c(1)] obtain as s3 where
      as: "set as \<subseteq> {Claim io, Spawn, Finish 0 env, Join}" "steps dbg Q C I as ?s2 = Some s3" "phase_of s3 = Polling" by blast
    have "length (processed s3) + (if ticking (phase_of s3) then 1 else 0) =
        length (processed ?s2) + (if ticking (phase_of ?s2) then 1 else 0)"
      by (rule ticks_log [OF as(2)]) (use as(1) in auto)
    with as st1 st2 s1 show ?thesis by (intro exI [of _ "Reclaim now io # Fetch io # as"] exI [of _ s3]) auto
  qed
qed

lemma ticks_exist:
  assumes "ok (queue_of s)" and "sys_inv I (view (queue_of s)) s" and p: "params_ok C I"
    and "phase_of s = Polling" and c: "0 < concurrency (disp_config I)" "concurrency (disp_config I) \<le> max_permits"
    and a: "action_ok I (Reclaim now io)" and io: "io_fault io = None" and env: "denv_ok I env"
  shows "\<exists>as s'. set as \<subseteq> {Reclaim now io, Fetch io, Claim io, Spawn, Finish 0 env, Join} \<and>
     steps dbg Q C I as s = Some s' \<and> phase_of s' = Polling \<and> length (processed s') = length (processed s) + n"
  using assms(1,2,4)
proof (induction n arbitrary: s)
  case 0
  then show ?case by (intro exI [of _ "[]"]) simp
next
  case (Suc n)
  let ?A = "{Reclaim now io, Fetch io, Claim io, Spawn, Finish 0 env, Join}"
  obtain as s1 where as: "set as \<subseteq> ?A" "steps dbg Q C I as s = Some s1" "phase_of s1 = Polling"
    "length (processed s1) = Suc (length (processed s))"
    using tick_exists [OF Suc.prems(1,2) p Suc.prems(3) c a io] by blast
  have "\<forall>b \<in> ?A. action_ok I b" using a env by simp
  with as(1) have "\<forall>b \<in> set as. action_ok I b" by blast
  from steps_inv [OF as(2) p this Suc.prems(1,2)] as(3) Suc.IH [of s1] obtain bs s' where
    bs: "set bs \<subseteq> ?A" "steps dbg Q C I bs s1 = Some s'" "phase_of s' = Polling"
    "length (processed s') = length (processed s1) + n" by blast
  have "steps dbg Q C I (as @ bs) s = Some s'" using as(2) bs(2) by (simp add: steps_append)
  with as bs show ?case by (intro exI [of _ "as @ bs"] exI [of _ s']) auto
qed

lemma polls_deliver:
  assumes q: "ok (queue_of s)" and inv: "sys_inv I (view (queue_of s)) s" and p: "params_ok C I"
    and ph: "phase_of s = Polling" and c: "0 < concurrency (disp_config I)" "concurrency (disp_config I) \<le> max_permits"
    and b: "0 < batch_size (disp_config I)"
    and a: "action_ok I (Reclaim now io)" and io: "io_fault io = None"
    and env: "denv_ok I env" "io_fault (d_io env) = None"
    and acc: "\<forall>i m m'. view (queue_of s) i = Some m \<and> \<not> terminal m \<and> content m' = content m \<longrightarrow>
      success (exchange_of I env m')"
  shows "\<exists>as s'. set as \<subseteq> {Reclaim now io, Fetch io, Claim io, Spawn, Finish 0 env, Join} \<and>
     steps dbg Q C I as s = Some s' \<and> phase_of s' = Polling \<and>
     (\<forall>i m. view (queue_of s) i = Some m \<and> due now m \<longrightarrow>
        (\<exists>m'. view (queue_of s') i = Some m' \<and> status m' = Sent \<and> content m' = content m))"
proof -
  let ?A = "{Reclaim now io, Fetch io, Claim io, Spawn, Finish 0 env, Join}"
  obtain as s' where as: "set as \<subseteq> ?A" and run: "steps dbg Q C I as s = Some s'" "phase_of s' = Polling"
    "length (processed s') = length (processed s) + card (unfinished (view (queue_of s)))"
    using ticks_exist [OF q inv p ph c a io env(1)] by blast
  have "ts_ok (io_now io)" using a by simp
  then have "\<forall>x \<in> ?A. fair I now (view (queue_of s)) x" using a io env acc by auto
  with as have "\<forall>x \<in> set as. fair I now (view (queue_of s)) x" by blast
  from ticks_deliver [OF run(1) p this b q inv ph run(2)] run as show ?thesis by (intro exI [of _ as] exI [of _ s']) simp
qed

text \<open>Deliveries run in parallel: while no delivery ends, the loop claims and spawns every mail of a batch
  for which there is a permit.\<close>

lemma claims_in_parallel:
  assumes "ok (queue_of s)" and "sys_inv I (view (queue_of s)) s" and p: "params_ok C I"
    and io: "ts_ok (io_now io)" "io_fault io = None"
    and "phase_of s = Claiming ms n" and "length (flight s) + length ms \<le> concurrency (disp_config I)"
  shows "\<exists>s'. steps dbg Q C I (concat (replicate (length ms) [Claim io, Spawn])) s = Some s' \<and>
     phase_of s' = Claiming [] (n + length ms) \<and> flight s' = flight s @ ms \<and> processed s' = processed s"
  using assms(1,2,6,7)
proof (induction ms arbitrary: s n)
  case (Cons m ms)
  from Cons.prems(2,3) have "disp_inv (concurrency (disp_config I)) (view (queue_of s)) (Claiming (m # ms) n) (flight s)"
    by (simp add: sys_inv_def)
  from claim_head(1) [OF this] io(2) marks_upd_at(3) [OF mark_sending_law [OF io(1)] Cons.prems(1), of "id_of m"]
  obtain u where "snd (q_mark_sending Q io (id_of m) (queue_of s)) = Inr u"
    by (cases "snd (q_mark_sending Q io (id_of m) (queue_of s))") auto
  then obtain s1 where s1: "step dbg Q C I (Claim io) s = Some s1" "phase_of s1 = Acquiring m ms n"
    "flight s1 = flight s" "processed s1 = processed s"
    using Cons.prems(3) by (simp add: claimed_def)
  let ?s2 = "s1\<lparr>flight := flight s1 @ [m], phase_of := Claiming ms (Suc n)\<rparr>"
  have s2: "step dbg Q C I Spawn s1 = Some ?s2" using s1(2,3) Cons.prems(4) by simp
  have a: "action_ok I (Claim io)" "action_ok I Spawn" using io(1) by simp_all
  note i1 = step_inv [OF Cons.prems(1) p a(1) Cons.prems(2) s1(1)]
  note i2 = step_inv [OF i1(1) p a(2) i1(2) s2]
  from Cons.IH [OF i2(1,2), of "Suc n"] Cons.prems(4) s1(3,4) obtain s' where
    "steps dbg Q C I (concat (replicate (length ms) [Claim io, Spawn])) ?s2 = Some s'"
    "phase_of s' = Claiming [] (Suc n + length ms)" "flight s' = flight s @ m # ms" "processed s' = processed s" by auto
  with s1(1) s2 show ?case by (intro exI [of _ s']) (simp del: step.simps)
qed simp

end

lemma finish_flight:
  "\<exists>s'. steps dbg Q C I (replicate (length (flight s)) (Finish 0 env)) s = Some s' \<and>
     phase_of s' = phase_of s \<and> flight s' = [] \<and> processed s' = processed s"
proof (induction "length (flight s)" arbitrary: s)
  case (Suc k)
  let ?s1 = "finished 0 (deliver dbg Q C I env (flight s ! 0) (queue_of s)) s"
  from Suc.hyps(2) have "k = length (flight ?s1)" by (simp add: finished_def)
  from Suc.hyps(1) [OF this] obtain s' where
    "steps dbg Q C I (replicate (length (flight ?s1)) (Finish 0 env)) ?s1 = Some s'" "phase_of s' = phase_of s"
    "flight s' = []" "processed s' = processed s" by (auto simp: finished_def)
  moreover have "step dbg Q C I (Finish 0 env) s = Some ?s1" using Suc.hyps(2) by (cases "flight s") simp_all
  ultimately show ?case unfolding Suc.hyps(2) [symmetric] \<open>k = length (flight ?s1)\<close> [symmetric]
    by (intro exI [of _ s']) (simp del: step.simps)
qed simp

end
