(* ===== verification/Dispatcher_Faults.thy ===== *)
theory Dispatcher_Faults
  imports Dispatcher_Liveness
begin

text \<open>
  What the dispatcher does with its mails when deliveries fail and when the process is killed, in the
  contract \<open>mail_queue\<close>. The counter of attempts never runs ahead of the exchanges that failed, also
  when a record is lost, and a mail is buried only with its last attempt or for want of a transport;
  a mail whose exchange was not recorded is delivered again after the restart.
\<close>

section \<open>Giving up\<close>

text \<open>What a step does to the counter of a mail.\<close>

lemma store_after_attempts:
  assumes "disp_inv c M (phase_of s) (flight s)" and "step dbg Q C I a s = Some s'"
    and "store_after dbg C I a s M i = Some m" and "action_ok I a"
    and "params_ok C I" and "budget (max_attempts (retry (disp_config I))) M"
  obtains (kept) m0 where "M i = Some m0" and "attempts m = attempts m0" and "status m = Dead \<longrightarrow> m = m0"
    | (added) "M i = None" and "attempts m = 0" and "status m \<noteq> Dead"
    | (counted) k env m0 where "a = Finish k env" and "i = id_of (flight s ! k)" and "M i = Some m0"
        and "unat (attempts m) = unat (attempts m0) + 1"
        and "exchange_of I env (flight s ! k) = None \<or>
             failure (exchange_of I env (flight s ! k)) \<and>
             (status m = Dead \<longrightarrow> attempts m = max_attempts (retry (disp_config I)))"
proof (cases a)
  case (Claim io)
  with assms(3) show ?thesis by (auto simp: upd_at_def split: if_splits intro: kept)
next
  case (Finish k env)
  let ?f = "flight s ! k" and ?n = "max_attempts (retry (disp_config I))"
  from assms(2) Finish have k: "k < length (flight s)" by (simp split: if_splits)
  from flight_nth [OF assms(1) k] obtain m0 where m0: "M (id_of ?f) = Some m0" "claimed_as ?f m0" "\<not> terminal m0" .
  from assms(4) Finish have env: "denv_ok I env" by simp
  have eq: "attempts ?f = attempts m0" using m0(2) by (simp add: claimed_as_def)
  note b = budgetD [OF assms(6) m0(1,3)]
  note inc = plain_add_one(2) [OF b]
  show ?thesis
  proof (cases "i = id_of ?f \<and> io_fault (d_io env) = None")
    case True
    with assms(3) Finish m0(1) have m: "m = mark_mail (io_now (d_io env)) (delivery_mark dbg C I env ?f) m0"
      by (simp add: upd_at_same)
    note mk = delivery_mark_cases [OF assms(5) env b [folded eq], of dbg]
    show ?thesis
    proof (cases "exchange_of I env ?f = None \<or> failure (exchange_of I env ?f)")
      case failed: True
      have at: "unat (attempts m) = unat (attempts m0) + 1"
        using failed inc unfolding m mk by (auto simp: failure_def)
      have "status m = Dead \<longrightarrow> attempts m = ?n" if "failure (exchange_of I env ?f)"
        using that at unfolding m mk by (auto simp: failure_def eq word_unat_eq_iff split: if_splits)
      with failed at True m0(1) Finish show ?thesis by (intro counted) auto
    next
      case False
      then have "attempts m = attempts m0 \<and> (status m = Dead \<longrightarrow> m = m0)"
        using m0(3) unfolding m mk by (auto simp: failure_def terminal_def split: option.splits sum.splits)
      with m0(1) True show ?thesis by (intro kept [of m0]) auto
    qed
  next
    case False
    with assms(3) Finish have "M i = Some m" by (auto simp: upd_at_def split: if_splits)
    then show ?thesis by (rule kept) simp_all
  qed
next
  case (Ingress new t j io)
  with assms(3) show ?thesis by (auto simp: add_at_def split: if_splits intro: kept added)
qed (use assms(3) in \<open>auto simp: requeue_at_def requeue_store_Some_iff split: if_splits intro: kept\<close>)

context mail_dispatch
begin

lemma reachable_burial:
  assumes "reachable P dbg Q C I q0 s" and "ok q0" and "params_ok C I"
    and "budget (max_attempts (retry (disp_config I))) (view q0)"
    and P: "\<And>a. P a \<Longrightarrow> action_ok I a"
    and "view (queue_of s) i = Some m"
  shows "((i, None) \<in> set (sends s) \<or>
      unat (attempts m) \<le> (case view q0 i of None \<Rightarrow> 0 | Some m0 \<Rightarrow> unat (attempts m0)) + failures i (sends s)) \<and>
     (status m = Dead \<longrightarrow> view q0 i = Some m \<or> (i, None) \<in> set (sends s) \<or>
        attempts m = max_attempts (retry (disp_config I)))"
  using assms(1,6)
proof (induction arbitrary: m rule: reachable.induct)
  case init
  then show ?case by (simp add: start_def)
next
  case (next_step s a s')
  from reachable_inv [OF next_step(1) assms(2,3,4) P]
  have q: "ok (queue_of s)" and inv: "sys_inv I (view (queue_of s)) s"
    and ev: "evolves (view q0) (view (queue_of s))" by simp_all
  from inv have inv': "disp_inv (concurrency (disp_config I)) (view (queue_of s)) (phase_of s) (flight s)"
    "budget (max_attempts (retry (disp_config I))) (view (queue_of s))" by (simp_all add: sys_inv_def)
  note a = P [OF next_step(2)] and L = step_sends [OF next_step(3)]
  have grow: "set (sends s) \<subseteq> set (sends s')" "failures i (sends s) \<le> failures i (sends s')"
    unfolding L by auto
  from step_store [OF q assms(3) a next_step(3)] next_step(5)
  have m: "store_after dbg C I a s (view (queue_of s)) i = Some m" by simp
  from inv'(1) next_step(3) m a assms(3) inv'(2) show ?case
  proof (cases rule: store_after_attempts)
    case (kept m0)
    have "(i, None) \<in> set (sends s) \<Longrightarrow> (i, None) \<in> set (sends s')" using grow(1) by blast
    moreover have "n \<le> b + failures i (sends s) \<Longrightarrow> n \<le> b + failures i (sends s')" for n b
      using grow(2) by linarith
    ultimately show ?thesis using next_step(4) [OF kept(1)] kept(2,3) by metis
  next
    case added
    then show ?thesis by simp
  next
    case (counted k env m0)
    with next_step(4) [OF counted(3)] show ?thesis by (auto simp: L)
  qed
qed

end

section \<open>Failing exchanges\<close>

text \<open>Every run is a list of actions from the start.\<close>

lemma reachable_steps:
  assumes "reachable P dbg Q C I q0 s"
  shows "\<exists>as. steps dbg Q C I as (start q0) = Some s \<and> (\<forall>a \<in> set as. P a)"
  using assms
proof (induction rule: reachable.induct)
  case init
  show ?case by (intro exI [of _ "[]"]) simp
next
  case (next_step s a s')
  then obtain as where "steps dbg Q C I as (start q0) = Some s" "\<forall>a \<in> set as. P a" by blast
  with next_step(2,3) show ?case by (intro exI [of _ "as @ [a]"]) (simp add: steps_append)
qed

definition attempts_at :: "store \<Rightarrow> mail_id \<Rightarrow> nat" where
  "attempts_at M i = (case M i of None \<Rightarrow> 0 | Some m \<Rightarrow> unat (attempts m))"

lemma attempts_at_mono: "evolves M M' \<Longrightarrow> attempts_at M i \<le> attempts_at M' i"
  unfolding evolves_def attempts_at_def
  by (cases "M i") (fastforce simp: word_le_nat_alt)+

lemma attempts_at_budget: "budget b M \<Longrightarrow> attempts_at M i \<le> unat b"
  by (auto simp: attempts_at_def budget_def word_le_nat_alt split: option.split)

text \<open>A kill loses at most one exchange of a mail, for it is in flight once.\<close>

lemma lost_failures:
  assumes "distinct (map fst lost)" and "\<forall>(k, env) \<in> set lost. k < length fl" and "distinct (map id_of fl)"
  shows "failures i (map (\<lambda>(k, env). (id_of (fl ! k), x k env)) lost) \<le> 1"
  using assms(1,2)
proof (induction lost)
  case (Cons l lost)
  obtain k env where l: "l = (k, env)" by force
  have ks: "k < length fl" "\<forall>(k', env') \<in> set lost. k' < length fl \<and> k' \<noteq> k" using Cons.prems by (force simp: l)+
  show ?case
  proof (cases "id_of (fl ! k) = i")
    case True
    have "id_of (fl ! k') \<noteq> i" if "(k', env') \<in> set lost" for k' env'
      using that ks assms(3) True by (auto simp: distinct_conv_nth)
    then have "failures i (map (\<lambda>(k, env). (id_of (fl ! k), x k env)) lost) = 0"
      by (auto simp: failures_def filter_empty_conv)
    then show ?thesis by (simp add: l failures_def)
  next
    case False
    with Cons show ?thesis by (simp add: l failures_def)
  qed
qed simp

context mail_dispatch
begin

text \<open>A failing exchange counts an attempt, unless a kill or a fault loses the record of it.\<close>

lemma step_failures:
  assumes "ok (queue_of s)" and "params_ok C I" and "action_ok I a"
    and "sys_inv I (view (queue_of s)) s" and "step dbg Q C I a s = Some s'"
  shows "failures i (sends s') + attempts_at (view (queue_of s)) i
     \<le> failures i (sends s) + attempts_at (view (queue_of s')) i + (if calm_action a then 0 else 1)"
proof -
  note L = step_sends [OF assms(5)] and S = step_store [OF assms(1,2,3,5)]
  note mono = attempts_at_mono [OF step_inv(3) [OF assms], of i]
  from assms(4) have d: "disp_inv (concurrency (disp_config I)) (view (queue_of s)) (phase_of s) (flight s)"
    "budget (max_attempts (retry (disp_config I))) (view (queue_of s))" by (simp_all add: sys_inv_def)
  show ?thesis
  proof (cases a)
    case (Finish k env)
    from assms(5) Finish have k: "k < length (flight s)" by (simp split: if_splits)
    show ?thesis
    proof (cases "id_of (flight s ! k) = i \<and> failure (exchange_of I env (flight s ! k)) \<and> io_fault (d_io env) = None")
      case True
      from flight_nth [OF d(1) k] True obtain m0 where m0: "view (queue_of s) i = Some m0"
        "claimed_as (flight s ! k) m0" "\<not> terminal m0" by metis
      note b = budgetD [OF d(2) m0(1,3)]
      let ?m = "mark_mail (io_now (d_io env)) (delivery_mark dbg C I env (flight s ! k)) m0"
      have "attempts ?m = attempts m0 + 1"
        by (rule failing_mark [OF assms(2) _ m0(2) b]) (use True assms(3) Finish in simp_all)
      then have "unat (attempts ?m) = unat (attempts m0) + 1" using plain_add_one(2) [OF b] by simp
      moreover from S Finish True m0(1) have "view (queue_of s') i = Some ?m" by (auto simp: upd_at_same)
      ultimately show ?thesis using True m0(1) by (simp add: L Finish attempts_at_def)
    next
      case False
      with mono show ?thesis by (auto simp: L Finish)
    qed
  next
    case (Kill lost)
    with assms(5) have lost: "distinct (map fst lost)" "\<forall>(k, env) \<in> set lost. k < length (flight s)"
      by (simp_all split: if_splits)
    have "distinct (map id_of (flight s))" using disp_invD(1) [OF d(1)] by simp
    from lost_failures [OF lost this, of i "\<lambda>k env. exchange_of I env (flight s ! k)"] mono show ?thesis
      by (simp add: L Kill)
  qed (use mono L in simp_all)
qed

lemma steps_failures:
  assumes "steps dbg Q C I as s = Some s'" and "ok (queue_of s)" and "params_ok C I"
    and "sys_inv I (view (queue_of s)) s" and "\<forall>a \<in> set as. action_ok I a"
  shows "failures i (sends s') + attempts_at (view (queue_of s)) i
     \<le> failures i (sends s) + attempts_at (view (queue_of s')) i + length (filter (\<lambda>a. \<not> calm_action a) as)"
  using assms(1,2,4,5)
proof (induction as arbitrary: s)
  case (Cons a as)
  then obtain s1 where s1: "step dbg Q C I a s = Some s1" "steps dbg Q C I as s1 = Some s'"
    by (auto split: option.splits)
  from Cons.prems(4) have a: "action_ok I a" by simp
  note N = step_inv [OF Cons.prems(2) assms(3) a Cons.prems(3) s1(1)]
  from Cons.IH [OF s1(2) N(1,2)] step_failures [OF Cons.prems(2) assms(3) a Cons.prems(3) s1(1), of i] Cons.prems(4)
  show ?case by (simp split: if_splits)
qed simp

end

section \<open>Kill and restart\<close>

lemma steps_successes:
  assumes "steps dbg Q C I as s = Some s'"
  shows "successes i (sends s) \<le> successes i (sends s')"
  using assms
proof (induction as arbitrary: s)
  case (Cons a as)
  then obtain s1 where s1: "step dbg Q C I a s = Some s1" "steps dbg Q C I as s1 = Some s'" by (auto split: option.splits)
  from Cons.IH [OF s1(2)] step_sends [OF s1(1)] show ?case by simp
qed simp

context mail_dispatch
begin

lemma kill_recover:
  assumes "ok (queue_of s)" and "ts_ok (io_now io)" and "io_fault io = None"
    and "distinct (map fst lost) \<and> (\<forall>(k, env) \<in> set lost. k < length (flight s))"
    and "poll_interval (disp_config I) \<noteq> from_secs 0"
  obtains s' where "steps dbg Q C I [Kill lost, Recover io] s = Some s'" and "phase_of s' = Polling" and "flight s' = []"
    and "view (queue_of s') = requeue_store (io_now io) (\<lambda>_. True) (view (queue_of s))"
    and "sends s' = sends s @ map (\<lambda>(k, env). (id_of (flight s ! k), exchange_of I env (flight s ! k))) lost"
proof -
  obtain s' where st: "steps dbg Q C I [Kill lost, Recover io] s = Some s'" "phase_of s' = Polling" "flight s' = []"
    "queue_of s' = fst (q_requeue_sending Q io (queue_of s))"
    "sends s' = sends s @ map (\<lambda>(k, env). (id_of (flight s ! k), exchange_of I env (flight s ! k))) lost"
    using assms(4,5) by (simp add: recover_def deliver_eq)
  from requeues_at [OF requeue_sending_law [OF assms(2)] assms(1)] st(4) assms(3)
  have "view (queue_of s') = requeue_store (io_now io) (\<lambda>_. True) (view (queue_of s))"
    by (simp add: requeue_at_def)
  with st show thesis using that by blast
qed

text \<open>A mail that becomes \<open>Sent\<close> along a run was accepted in it.\<close>

lemma steps_sent:
  assumes "steps dbg Q C I as s = Some s'" and p: "params_ok C I" and "\<forall>a \<in> set as. action_ok I a"
    and "ok (queue_of s)" and "sys_inv I (view (queue_of s)) s"
    and "view (queue_of s') i = Some m'" and "status m' = Sent"
    and "\<And>m. view (queue_of s) i = Some m \<Longrightarrow> status m \<noteq> Sent"
  shows "successes i (sends s) < successes i (sends s')"
  using assms(1,3-5,8)
proof (induction as arbitrary: s)
  case Nil
  with assms(6,7) show ?case by auto
next
  case (Cons a as)
  from Cons.prems(1) obtain s1 where st: "step dbg Q C I a s = Some s1" and rest: "steps dbg Q C I as s1 = Some s'"
    by (auto split: option.splits)
  from Cons.prems(2) have a: "action_ok I a" "\<forall>a \<in> set as. action_ok I a" by simp_all
  note N = step_inv [OF Cons.prems(3) p a(1) Cons.prems(4) st]
  have mono: "successes i (sends s) \<le> successes i (sends s1)" by (simp add: step_sends [OF st])
  show ?case
  proof (cases "\<exists>m. view (queue_of s1) i = Some m \<and> status m = Sent")
    case False
    with Cons.IH [OF rest a(2) N(1,2)] mono show ?thesis by fastforce
  next
    case True
    then obtain m where m: "view (queue_of s1) i = Some m" "status m = Sent" by blast
    from Cons.prems(4) have inv: "disp_inv (concurrency (disp_config I)) (view (queue_of s)) (phase_of s) (flight s)"
      "budget (max_attempts (retry (disp_config I))) (view (queue_of s))" by (simp_all add: sys_inv_def)
    from step_store [OF Cons.prems(3) p a(1) st] m(1)
    have m': "store_after dbg C I a s (view (queue_of s)) i = Some m" by simp
    from store_after_sent [OF inv(1) st m' m(2) a(1) p inv(2)] Cons.prems(5)
    have "successes i (sends s) < successes i (sends s1)" by (auto simp: step_sends [OF st])
    moreover have "successes i (sends s1) \<le> successes i (sends s')" by (rule steps_successes [OF rest])
    ultimately show ?thesis by simp
  qed
qed

lemma killed_delivery_repeats:
  assumes q: "ok (queue_of s)" and inv: "sys_inv I (view (queue_of s)) s" and p: "params_ok C I"
    and k: "k < length (flight s)" and once: "success (exchange_of I env0 (flight s ! k))"
    and due: "\<And>m. view (queue_of s) (id_of (flight s ! k)) = Some m \<Longrightarrow> next_attempt_at m \<le> now"
    and c: "0 < concurrency (disp_config I)" "concurrency (disp_config I) \<le> max_permits"
    and b: "0 < batch_size (disp_config I)" and poll: "poll_interval (disp_config I) \<noteq> from_secs 0"
    and a: "action_ok I (Reclaim now io)" and io: "io_fault io = None"
    and env: "denv_ok I env" "io_fault (d_io env) = None"
    and acc: "\<forall>i m m'. view (queue_of s) i = Some m \<and> \<not> terminal m \<and> content m' = content m \<longrightarrow>
      success (exchange_of I env m')"
  shows "\<exists>as s'. steps dbg Q C I (Kill [(k, env0)] # Recover io # as) s = Some s' \<and>
     successes (id_of (flight s ! k)) (sends s) + 2 \<le> successes (id_of (flight s ! k)) (sends s')"
proof -
  let ?i = "id_of (flight s ! k)"
  have now: "ts_ok (io_now io)" using a by simp
  have lost: "distinct (map fst [(k, env0)]) \<and> (\<forall>(j, e) \<in> set [(k, env0)]. j < length (flight s))" using k by simp
  obtain s1 where s1: "steps dbg Q C I [Kill [(k, env0)], Recover io] s = Some s1" "phase_of s1 = Polling" "flight s1 = []"
    and v1: "view (queue_of s1) = requeue_store (io_now io) (\<lambda>_. True) (view (queue_of s))"
    and l1: "sends s1 = sends s @ map (\<lambda>(k, env). (id_of (flight s ! k), exchange_of I env (flight s ! k))) [(k, env0)]"
    by (rule kill_recover [OF q now io lost poll])
  from steps_inv [OF s1(1) p _ q inv] now have q1: "ok (queue_of s1)" "sys_inv I (view (queue_of s1)) s1" by simp_all
  from inv have d: "disp_inv (concurrency (disp_config I)) (view (queue_of s)) (phase_of s) (flight s)" by (simp add: sys_inv_def)
  from flight_nth [OF d k] obtain m where m: "view (queue_of s) ?i = Some m" "claimed_as (flight s ! k) m" .
  then have m1: "view (queue_of s1) ?i = Some (requeued (io_now io) m)"
    by (simp add: v1 requeue_store_def claimed_as_def)
  have acc1: "\<forall>i m m'. view (queue_of s1) i = Some m \<and> \<not> terminal m \<and> content m' = content m \<longrightarrow>
      success (exchange_of I env m')"
  proof (intro allI impI, elim conjE)
    fix i m m' assume x: "view (queue_of s1) i = Some m" "\<not> terminal m" "content m' = content m"
    then obtain m0 where "view (queue_of s) i = Some m0" "content m0 = content m" "\<not> terminal m0"
      by (auto simp: v1 requeue_store_def terminal_def split: if_splits)
    with acc x(3) show "success (exchange_of I env m')" by metis
  qed
  have dm: "due now (requeued (io_now io) m)" using due [OF m(1)] by (simp add: due_def live_def)
  from polls_deliver [OF q1 p s1(2) c b a io env acc1] obtain as s2 where
    as: "set as \<subseteq> {Reclaim now io, Fetch io, Claim io, Spawn, Finish 0 env, Join}"
    and run: "steps dbg Q C I as s1 = Some s2"
    and sent: "\<forall>i m. view (queue_of s1) i = Some m \<and> due now m \<longrightarrow>
        (\<exists>m'. view (queue_of s2) i = Some m' \<and> status m' = Sent \<and> content m' = content m)" by blast
  have "\<forall>x \<in> {Reclaim now io, Fetch io, Claim io, Spawn, Finish 0 env, Join}. action_ok I x" using a env by simp
  with as have ok: "\<forall>x \<in> set as. action_ok I x" by blast
  from sent m1 dm obtain m2 where m2: "view (queue_of s2) ?i = Some m2" "status m2 = Sent" by blast
  have "successes ?i (sends s1) < successes ?i (sends s2)"
    by (rule steps_sent [OF run p ok q1 m2]) (simp add: m1)
  moreover have "successes ?i (sends s1) = successes ?i (sends s) + 1" using once by (simp add: l1)
  moreover have "steps dbg Q C I (Kill [(k, env0)] # Recover io # as) s = Some s2"
    using s1(1) run steps_append [of dbg Q C I "[Kill [(k, env0)], Recover io]" as s] by simp
  ultimately show ?thesis by (intro exI [of _ as] exI [of _ s2]) simp
qed

end

end
