(* ===== verification/Queue_Sqlite.thy ===== *)
theory Queue_Sqlite
  imports Core_Queue Keyed_Maps "HOL-Library.Multiset"
begin

text \<open>
  Models \<open>crates/queue-sqlite/src/lib.rs\<close>: the \<open>mails\<close> table as the list of its rows, with the
  columns as text the way the schema declares them, one definition per method of \<open>SqliteQueue\<close>
  with the SQL statement written out on the rows, and the decoding of a row. The record
  \<open>codec\<close> collects the third-party functions the file calls (serde_json, uuid, chrono, the order
  in which SQLite scans a table); \<open>codec_ok\<close> states what the file relies on. \<open>sqlite_ops\<close> is
  shown to implement the contract \<open>mail_queue\<close>.
\<close>

section \<open>Rows and third-party functions\<close>

record row =
  r_id :: string
  r_sender :: string
  r_recipients :: string
  r_subject :: string
  r_body :: string
  r_transport :: "string option"
  r_status :: string
  r_attempts :: int
  r_last_error :: "string option"
  r_created_at :: string
  r_updated_at :: string
  r_next_attempt_at :: string

record codec =
  addr_to_json :: "address \<Rightarrow> string + string"
  addr_of_json :: "string \<Rightarrow> string + address"
  addrs_to_json :: "address list \<Rightarrow> string + string"
  addrs_of_json :: "string \<Rightarrow> string + address list"
  uuid_to_string :: "mail_id \<Rightarrow> string"
  uuid_parse_str :: "string \<Rightarrow> string + mail_id"
  to_rfc3339 :: "datetime \<Rightarrow> string"
  parse_from_rfc3339 :: "string \<Rightarrow> string + datetime"
  scan_order :: "row list \<Rightarrow> row list"
  unique_violation :: string

section \<open>Operations\<close>

fun status_to_str :: "mail_status \<Rightarrow> string" where
  "status_to_str Pending = ''pending''"
| "status_to_str Sending = ''sending''"
| "status_to_str Sent = ''sent''"
| "status_to_str Failed = ''failed''"
| "status_to_str Dead = ''dead''"

definition status_from_str :: "string \<Rightarrow> core_error + mail_status" where
  "status_from_str raw =
     (if raw = ''pending'' then Inr Pending
      else if raw = ''sending'' then Inr Sending
      else if raw = ''sent'' then Inr Sent
      else if raw = ''failed'' then Inr Failed
      else if raw = ''dead'' then Inr Dead
      else Inl (Queue (''unknown status: '' @ raw)))"

definition parse_time :: "codec \<Rightarrow> string \<Rightarrow> core_error + datetime" where
  "parse_time E raw =
     map_err (\<lambda>err. Queue (''decode timestamp: '' @ err)) (parse_from_rfc3339 E raw)"

text \<open>A database is the \<open>mails\<close> table, or \<open>None\<close> where it has not been created.
  \<open>CREATE TABLE IF NOT EXISTS\<close> keeps an existing table.\<close>

definition migrate :: "io \<Rightarrow> row list option \<Rightarrow> row list option \<times> (core_error + unit)" where
  "migrate io db =
     (case io_fault io of
        Some e \<Rightarrow> (db, Inl (Queue e))
      | None \<Rightarrow> (Some (case db of None \<Rightarrow> [] | Some rows \<Rightarrow> rows), Inr ()))"

text \<open>\<open>options\<close> is what \<open>SqliteConnectOptions::from_str\<close> answers for the URL (the path), \<open>open\<close>
  what opening the pool on that path answers (the database found there, a missing file being
  created empty).\<close>

definition connect ::
  "(string \<Rightarrow> string + 'p) \<Rightarrow> ('p \<Rightarrow> string + row list option) \<Rightarrow> io \<Rightarrow> string \<Rightarrow> core_error + row list" where
  "connect options open_pool io url =
     res_bind (map_err Queue (options url)) (\<lambda>path.
     res_bind (map_err Queue (open_pool path)) (\<lambda>db.
     (case migrate io db of
        (_, Inl e) \<Rightarrow> Inl e
      | (db', Inr _) \<Rightarrow> Inr (case db' of None \<Rightarrow> [] | Some rows \<Rightarrow> rows))))"

definition row_to_mail :: "codec \<Rightarrow> row \<Rightarrow> core_error + mail" where
  "row_to_mail E r =
     res_bind (map_err (\<lambda>e. Queue (''decode sender: '' @ e)) (addr_of_json E (r_sender r))) (\<lambda>frm.
     res_bind (map_err (\<lambda>e. Queue (''decode recipients: '' @ e)) (addrs_of_json E (r_recipients r))) (\<lambda>tos.
     res_bind (map_err (\<lambda>e. Queue (''decode id: '' @ e)) (uuid_parse_str E (r_id r))) (\<lambda>i.
     res_bind (status_from_str (r_status r)) (\<lambda>st.
     res_bind (parse_time E (r_created_at r)) (\<lambda>created.
     res_bind (parse_time E (r_updated_at r)) (\<lambda>updated.
     res_bind (parse_time E (r_next_attempt_at r)) (\<lambda>nxt.
     Inr \<lparr>id_of = i, from_addr = frm, to_addrs = tos, subject = r_subject r, body = r_body r,
          transport = r_transport r, status = st, attempts = word_of_int (r_attempts r),
          last_error = r_last_error r, created_at = created, updated_at = updated,
          next_attempt_at = nxt\<rparr>)))))))"

text \<open>The \<open>SET\<close> clause of \<open>set_status\<close>; \<open>COALESCE\<close> keeps the stored time for a missing one.\<close>

definition set_status_row ::
  "string \<Rightarrow> string option \<Rightarrow> string \<Rightarrow> int \<Rightarrow> string option \<Rightarrow> row \<Rightarrow> row" where
  "set_status_row st err upd bump retry r =
     r\<lparr>r_status := st, r_last_error := err, r_updated_at := upd, r_attempts := r_attempts r + bump,
       r_next_attempt_at := (case retry of Some t \<Rightarrow> t | None \<Rightarrow> r_next_attempt_at r)\<rparr>"

definition set_status ::
  "codec \<Rightarrow> io \<Rightarrow> mail_id \<Rightarrow> mail_status \<Rightarrow> string option \<Rightarrow> bool \<Rightarrow> datetime option \<Rightarrow>
   row list \<Rightarrow> row list \<times> (core_error + unit)" where
  "set_status E io i st err bump retry rows =
     (case io_fault io of
        Some e \<Rightarrow> (rows, Inl (Queue e))
      | None \<Rightarrow>
          (let hit = (\<lambda>r. r_id r = uuid_to_string E i);
               rows' = map (\<lambda>r. if hit r
                              then set_status_row (status_to_str st) err (to_rfc3339 E (io_now io))
                                     (if bump then 1 else 0) (map_option (to_rfc3339 E) retry) r
                              else r) rows
           in if length (filter hit rows) = 0 then (rows', Inl (NotFound (uuid_to_string E i)))
              else (rows', Inr ())))"

definition enqueue :: "codec \<Rightarrow> io \<Rightarrow> mail \<Rightarrow> row list \<Rightarrow> row list \<times> (core_error + mail)" where
  "enqueue E io m rows =
     (case map_err Queue (addr_to_json E (from_addr m)) of
        Inl e \<Rightarrow> (rows, Inl e)
      | Inr sender \<Rightarrow>
     (case map_err Queue (addrs_to_json E (to_addrs m)) of
        Inl e \<Rightarrow> (rows, Inl e)
      | Inr recipients \<Rightarrow>
     (case io_fault io of
        Some e \<Rightarrow> (rows, Inl (Queue e))
      | None \<Rightarrow>
          (if \<exists>r \<in> set rows. r_id r = uuid_to_string E (id_of m)
           then (rows, Inl (Queue (unique_violation E)))
           else (rows @ [\<lparr>r_id = uuid_to_string E (id_of m), r_sender = sender,
                          r_recipients = recipients, r_subject = subject m, r_body = body m,
                          r_transport = transport m, r_status = status_to_str (status m),
                          r_attempts = uint (attempts m), r_last_error = last_error m,
                          r_created_at = to_rfc3339 E (created_at m),
                          r_updated_at = to_rfc3339 E (updated_at m),
                          r_next_attempt_at = to_rfc3339 E (next_attempt_at m)\<rparr>], Inr m)))))"

definition due_row :: "string \<Rightarrow> row \<Rightarrow> bool" where
  "due_row now r = (r_status r \<in> {''pending'', ''failed''} \<and> r_next_attempt_at r \<le> now)"

definition select_due :: "codec \<Rightarrow> u32 \<Rightarrow> datetime \<Rightarrow> row list \<Rightarrow> row list" where
  "select_due E limit now rows =
     take (unat limit)
       (sort_key r_next_attempt_at (filter (due_row (to_rfc3339 E now)) (scan_order E rows)))"

definition fetch_due :: "codec \<Rightarrow> io \<Rightarrow> u32 \<Rightarrow> datetime \<Rightarrow> row list \<Rightarrow> core_error + mail list" where
  "fetch_due E io limit now rows =
     (case io_fault io of
        Some e \<Rightarrow> Inl (Queue e)
      | None \<Rightarrow> collect_res (row_to_mail E) (select_due E limit now rows))"

definition mark_sending :: "codec \<Rightarrow> io \<Rightarrow> mail_id \<Rightarrow> row list \<Rightarrow> row list \<times> (core_error + unit)" where
  "mark_sending E io i = set_status E io i Sending None False None"

definition mark_sent :: "codec \<Rightarrow> io \<Rightarrow> mail_id \<Rightarrow> row list \<Rightarrow> row list \<times> (core_error + unit)" where
  "mark_sent E io i = set_status E io i Sent None False None"

definition mark_failed ::
  "codec \<Rightarrow> io \<Rightarrow> mail_id \<Rightarrow> string \<Rightarrow> datetime \<Rightarrow> row list \<Rightarrow> row list \<times> (core_error + unit)" where
  "mark_failed E io i err retry_at = set_status E io i Failed (Some err) True (Some retry_at)"

definition mark_dead ::
  "codec \<Rightarrow> io \<Rightarrow> mail_id \<Rightarrow> string \<Rightarrow> row list \<Rightarrow> row list \<times> (core_error + unit)" where
  "mark_dead E io i err = set_status E io i Dead (Some err) True None"

definition update_where :: "(row \<Rightarrow> bool) \<Rightarrow> (row \<Rightarrow> row) \<Rightarrow> row list \<Rightarrow> row list \<times> nat" where
  "update_where P f rows = (map (\<lambda>r. if P r then f r else r) rows, length (filter P rows))"

definition requeue_sending :: "codec \<Rightarrow> io \<Rightarrow> row list \<Rightarrow> row list \<times> (core_error + nat)" where
  "requeue_sending E io rows =
     (case io_fault io of
        Some e \<Rightarrow> (rows, Inl (Queue e))
      | None \<Rightarrow>
          (case update_where (\<lambda>r. r_status r = ''sending'')
                  (\<lambda>r. r\<lparr>r_status := ''pending'', r_updated_at := to_rfc3339 E (io_now io)\<rparr>) rows of
             (rows', n) \<Rightarrow> (rows', Inr n)))"

definition requeue_stale_sending ::
  "codec \<Rightarrow> io \<Rightarrow> datetime \<Rightarrow> row list \<Rightarrow> row list \<times> (core_error + nat)" where
  "requeue_stale_sending E io older_than rows =
     (case io_fault io of
        Some e \<Rightarrow> (rows, Inl (Queue e))
      | None \<Rightarrow>
          (case update_where
                  (\<lambda>r. r_status r = ''sending'' \<and> r_updated_at r < to_rfc3339 E older_than)
                  (\<lambda>r. r\<lparr>r_status := ''pending'', r_updated_at := to_rfc3339 E (io_now io)\<rparr>) rows of
             (rows', n) \<Rightarrow> (rows', Inr n)))"

definition get_mail :: "codec \<Rightarrow> io \<Rightarrow> mail_id \<Rightarrow> row list \<Rightarrow> core_error + mail" where
  "get_mail E io i rows =
     (case io_fault io of
        Some e \<Rightarrow> Inl (Queue e)
      | None \<Rightarrow>
          (case List.find (\<lambda>r. r_id r = uuid_to_string E i) rows of
             Some r \<Rightarrow> row_to_mail E r
           | None \<Rightarrow> Inl (NotFound (uuid_to_string E i))))"

definition sqlite_ops :: "codec \<Rightarrow> row list queue_ops" where
  "sqlite_ops E =
     \<lparr>q_enqueue = enqueue E, q_fetch_due = fetch_due E, q_mark_sending = mark_sending E,
      q_mark_sent = mark_sent E, q_mark_failed = mark_failed E, q_mark_dead = mark_dead E,
      q_requeue_sending = requeue_sending E, q_requeue_stale_sending = requeue_stale_sending E,
      q_get = get_mail E\<rparr>"

section \<open>What the file relies on\<close>

text \<open>JSON and UUID texts read back as what was printed; a UTC instant with a four-digit year
  prints as RFC 3339 text that reads back and whose byte order is the order of the instants (the
  fields have fixed widths, and the offset sign sorts before the decimal point and the digits);
  a scan visits every row once, in some order.\<close>

definition codec_ok :: "codec \<Rightarrow> bool" where
  "codec_ok E =
     ((\<forall>a. \<exists>s. addr_to_json E a = Inr s \<and> addr_of_json E s = Inr a) \<and>
      (\<forall>a. \<exists>s. addrs_to_json E a = Inr s \<and> addrs_of_json E s = Inr a) \<and>
      (\<forall>i. uuid_parse_str E (uuid_to_string E i) = Inr i) \<and>
      (\<forall>t. ts_ok t \<longrightarrow> parse_from_rfc3339 E (to_rfc3339 E t) = Inr t) \<and>
      (\<forall>t t'. ts_ok t \<and> ts_ok t' \<longrightarrow> (to_rfc3339 E t \<le> to_rfc3339 E t') = (t \<le> t')) \<and>
      (\<forall>rows. mset (scan_order E rows) = mset rows))"

text \<open>\<open>r\<close> is a row that stores the mail \<open>m\<close>.\<close>

definition encodes :: "codec \<Rightarrow> row \<Rightarrow> mail \<Rightarrow> bool" where
  "encodes E r m =
     (r_id r = uuid_to_string E (id_of m) \<and>
      addr_of_json E (r_sender r) = Inr (from_addr m) \<and>
      addrs_of_json E (r_recipients r) = Inr (to_addrs m) \<and>
      r_subject r = subject m \<and> r_body r = body m \<and> r_transport r = transport m \<and>
      r_status r = status_to_str (status m) \<and> word_of_int (r_attempts r) = attempts m \<and>
      r_last_error r = last_error m \<and>
      r_created_at r = to_rfc3339 E (created_at m) \<and>
      r_updated_at r = to_rfc3339 E (updated_at m) \<and>
      r_next_attempt_at r = to_rfc3339 E (next_attempt_at m) \<and> mail_ts_ok m)"

definition db_inv :: "codec \<Rightarrow> row list \<Rightarrow> bool" where
  "db_inv E rows =
     (codec_ok E \<and> distinct (map r_id rows) \<and> (\<forall>r \<in> set rows. \<exists>m. encodes E r m))"

definition db_view :: "codec \<Rightarrow> row list \<Rightarrow> store" where
  "db_view E rows i =
     (case List.find (\<lambda>r. r_id r = uuid_to_string E i) rows of
        None \<Rightarrow> None
      | Some r \<Rightarrow> (case row_to_mail E r of Inl _ \<Rightarrow> None | Inr m \<Rightarrow> Some m))"

section \<open>Decoding\<close>

lemma codec_okD:
  assumes "codec_ok E"
  shows "\<exists>s. addr_to_json E a = Inr s \<and> addr_of_json E s = Inr a"
    and "\<exists>s. addrs_to_json E as = Inr s \<and> addrs_of_json E s = Inr as"
    and "uuid_parse_str E (uuid_to_string E i) = Inr i"
    and "ts_ok t \<Longrightarrow> parse_from_rfc3339 E (to_rfc3339 E t) = Inr t"
    and "ts_ok t \<Longrightarrow> ts_ok t' \<Longrightarrow> to_rfc3339 E t \<le> to_rfc3339 E t' \<longleftrightarrow> t \<le> t'"
    and "mset (scan_order E rows) = mset rows"
  using assms unfolding codec_ok_def by - (elim conjE, simp)+

lemma codec_ok_less:
  "codec_ok E \<Longrightarrow> ts_ok t \<Longrightarrow> ts_ok t' \<Longrightarrow> to_rfc3339 E t < to_rfc3339 E t' \<longleftrightarrow> t < t'"
  using codec_okD(5) [of E t t'] codec_okD(5) [of E t' t] by (auto simp: less_le_not_le)

lemma uuid_inj: "codec_ok E \<Longrightarrow> uuid_to_string E i = uuid_to_string E j \<longleftrightarrow> i = j"
  by (metis codec_okD(3) sum.inject(2))

lemma set_scan_order: "codec_ok E \<Longrightarrow> set (scan_order E rows) = set rows"
  using codec_okD(6) [of E rows] by (metis set_mset_mset)

lemma distinct_scan_order:
  assumes "codec_ok E" and "distinct (map r_id rows)"
  shows "distinct (map r_id (scan_order E rows))"
proof -
  have "mset (map r_id (scan_order E rows)) = mset (map r_id rows)"
    by (simp add: codec_okD(6) [OF assms(1)])
  with assms(2) show ?thesis by (metis mset_eq_imp_distinct_iff)
qed

lemma status_from_to_str [simp]: "status_from_str (status_to_str st) = Inr st"
  by (cases st) (simp_all add: status_from_str_def)

lemma status_to_str_inj [simp]: "status_to_str a = status_to_str b \<longleftrightarrow> a = b"
  by (cases a; cases b) simp_all

lemma status_to_str_words [simp]:
  "status_to_str st = ''sending'' \<longleftrightarrow> st = Sending"
  "status_to_str st = ''pending'' \<longleftrightarrow> st = Pending"
  "status_to_str st = ''failed'' \<longleftrightarrow> st = Failed"
  by (cases st; simp)+

lemma row_to_mail_encodes: "codec_ok E \<Longrightarrow> encodes E r m \<Longrightarrow> row_to_mail E r = Inr m"
  by (simp add: row_to_mail_def encodes_def parse_time_def codec_okD(3,4) mail_ts_ok_def)

lemma encodes_unique: "codec_ok E \<Longrightarrow> encodes E r m \<Longrightarrow> encodes E r m' \<Longrightarrow> m' = m"
  by (metis row_to_mail_encodes sum.inject(2))

lemma encodes_due_row:
  "codec_ok E \<Longrightarrow> encodes E r m \<Longrightarrow> ts_ok now \<Longrightarrow> due_row (to_rfc3339 E now) r \<longleftrightarrow> due now m"
  by (simp add: encodes_def due_row_def due_def live_def codec_okD(5) mail_ts_ok_def)

section \<open>The table as a store\<close>

lemma db_invD:
  assumes "db_inv E rows"
  shows "codec_ok E" and "distinct (map r_id rows)" and "r \<in> set rows \<Longrightarrow> \<exists>m. encodes E r m"
  using assms by (auto simp: db_inv_def)

lemma find_key:
  assumes "distinct (map r_id rows)" and "r \<in> set rows" and "r_id r = k"
  shows "List.find (\<lambda>r. r_id r = k) rows = Some r"
  using assms by (induction rows) force+

lemma find_key_None: "List.find (\<lambda>r. r_id r = k) rows = None \<longleftrightarrow> (\<forall>r \<in> set rows. r_id r \<noteq> k)"
  by (auto simp: find_None_iff)

lemma db_view_row:
  assumes "db_inv E rows" and "r \<in> set rows" and "encodes E r m"
  shows "db_view E rows (id_of m) = Some m"
proof -
  from assms(3) have "r_id r = uuid_to_string E (id_of m)" by (simp add: encodes_def)
  from find_key [OF db_invD(2) [OF assms(1)] assms(2) this]
    row_to_mail_encodes [OF db_invD(1) [OF assms(1)] assms(3)]
  show ?thesis by (simp add: db_view_def)
qed

lemma db_view_Some:
  assumes "db_inv E rows" and "db_view E rows i = Some m"
  shows "\<exists>r \<in> set rows. encodes E r m \<and> r_id r = uuid_to_string E i \<and> id_of m = i"
proof -
  from assms(2) obtain r where f: "List.find (\<lambda>r. r_id r = uuid_to_string E i) rows = Some r"
    and d: "row_to_mail E r = Inr m"
    by (auto simp: db_view_def split: option.splits sum.splits)
  from f have r: "r \<in> set rows" "r_id r = uuid_to_string E i"
    by (auto simp: find_Some_iff)
  from db_invD(3) [OF assms(1) r(1)] obtain m' where m': "encodes E r m'" by blast
  with row_to_mail_encodes [OF db_invD(1) [OF assms(1)] m'] d have "m' = m" by simp
  with m' r uuid_inj [OF db_invD(1) [OF assms(1)]] show ?thesis
    by (auto simp: encodes_def)
qed

lemma db_view_None:
  assumes "db_inv E rows"
  shows "db_view E rows i = None \<longleftrightarrow> (\<forall>r \<in> set rows. r_id r \<noteq> uuid_to_string E i)"
proof
  assume none: "db_view E rows i = None"
  show "\<forall>r \<in> set rows. r_id r \<noteq> uuid_to_string E i"
  proof (intro ballI notI)
    fix r assume r: "r \<in> set rows" and k: "r_id r = uuid_to_string E i"
    from db_invD(3) [OF assms r] obtain m where m: "encodes E r m" by blast
    with k uuid_inj [OF db_invD(1) [OF assms]] have "id_of m = i" by (simp add: encodes_def)
    with db_view_row [OF assms r m] none show False by simp
  qed
next
  assume "\<forall>r \<in> set rows. r_id r \<noteq> uuid_to_string E i"
  then show "db_view E rows i = None"
    by (simp add: db_view_def find_key_None [THEN iffD2])
qed

lemma db_view_eqI:
  assumes I: "db_inv E rows"
    and some: "\<And>r m. r \<in> set rows \<Longrightarrow> encodes E r m \<Longrightarrow> M (id_of m) = Some m"
    and cover: "\<And>i m. M i = Some m \<Longrightarrow> \<exists>r \<in> set rows. r_id r = uuid_to_string E i"
  shows "db_view E rows = M"
proof
  fix i
  show "db_view E rows i = M i"
  proof (cases "db_view E rows i")
    case None
    with db_view_None [OF I, of i] cover [of i] show ?thesis by (cases "M i") auto
  next
    case (Some m)
    from db_view_Some [OF I this] obtain r where "r \<in> set rows" "encodes E r m" "id_of m = i" by blast
    with some Some show ?thesis by auto
  qed
qed

text \<open>An \<open>UPDATE\<close> on the rows that store the mails \<open>P\<close> selects is the update of those mails.\<close>

lemma update_rows:
  assumes I: "db_inv E rows"
    and sel: "\<And>r m. r \<in> set rows \<Longrightarrow> encodes E r m \<Longrightarrow> S r \<longleftrightarrow> P m"
    and upd: "\<And>r m. encodes E r m \<Longrightarrow> P m \<Longrightarrow> encodes E (f r) (u m)"
    and key: "\<And>m. id_of (u m) = id_of m"
  shows "db_inv E (map (\<lambda>r. if S r then f r else r) rows)"
    and "db_view E (map (\<lambda>r. if S r then f r else r) rows) =
           (\<lambda>i. map_option (\<lambda>m. if P m then u m else m) (db_view E rows i))"
proof -
  let ?g = "\<lambda>r. if S r then f r else r" and ?h = "\<lambda>m. if P m then u m else m"
  note ok = db_invD(1) [OF I]
  have enc: "encodes E (?g r) (?h m)" if "r \<in> set rows" "encodes E r m" for r m
    using sel [OF that] upd that by auto
  have rid: "r_id (?g r) = r_id r" if "r \<in> set rows" for r
  proof -
    from db_invD(3) [OF I that] obtain m where m: "encodes E r m" by blast
    from enc [OF that m] m key show ?thesis by (auto simp: encodes_def split: if_splits)
  qed
  then have ids: "map r_id (map ?g rows) = map r_id rows" by simp
  have enc_ex: "\<exists>m. encodes E (?g r) m" if "r \<in> set rows" for r
    using db_invD(3) [OF I that] enc [OF that] by blast
  have dist: "distinct (map r_id (map ?g rows))"
    unfolding ids by (rule db_invD(2) [OF I])
  have all: "\<forall>r \<in> set (map ?g rows). \<exists>m. encodes E r m"
    using enc_ex by (simp only: set_map image_iff) blast
  show I': "db_inv E (map ?g rows)"
    unfolding db_inv_def using ok dist all by blast
  show "db_view E (map ?g rows) = (\<lambda>i. map_option ?h (db_view E rows i))"
  proof (rule db_view_eqI [OF I'])
    fix r m assume "r \<in> set (map ?g rows)" and m: "encodes E r m"
    then obtain r0 where r0: "r0 \<in> set rows" "r = ?g r0" by auto
    from db_invD(3) [OF I r0(1)] obtain m0 where m0: "encodes E r0 m0" by blast
    from encodes_unique [OF ok] m enc [OF r0(1) m0] r0(2) have "m = ?h m0" by blast
    with db_view_row [OF I r0(1) m0] key show "map_option ?h (db_view E rows (id_of m)) = Some m"
      by simp
  next
    fix i m assume "map_option ?h (db_view E rows i) = Some m"
    then obtain m0 where "db_view E rows i = Some m0" by (cases "db_view E rows i") auto
    from db_view_Some [OF I this] obtain r where r: "r \<in> set rows" "r_id r = uuid_to_string E i" by blast
    with rid [OF r(1)] have "?g r \<in> set (map ?g rows)" "r_id (?g r) = uuid_to_string E i" by auto
    then show "\<exists>r \<in> set (map ?g rows). r_id r = uuid_to_string E i" by blast
  qed
qed

section \<open>Status transitions\<close>

lemma map_option_at:
  assumes "\<And>j m'. M j = Some m' \<Longrightarrow> id_of m' = j" and "M i = Some m"
  shows "(\<lambda>j. map_option (\<lambda>m. if id_of m = i then u m else m) (M j)) = M(i \<mapsto> u m)"
proof
  fix j
  show "map_option (\<lambda>m. if id_of m = i then u m else m) (M j) = (M(i \<mapsto> u m)) j"
    using assms(1) [of j] assms(2) by (cases "j = i"; cases "M j") simp_all
qed

lemma encodes_set_status:
  assumes "encodes E r m" and "ts_ok now" and "\<And>t. retry = Some t \<Longrightarrow> ts_ok t"
  shows "encodes E
     (set_status_row (status_to_str st) err (to_rfc3339 E now) (if bump then 1 else 0)
        (map_option (to_rfc3339 E) retry) r)
     (set_mail_status now st err bump retry m)"
  using assms
  by (cases retry)
    (simp_all add: encodes_def set_status_row_def set_mail_status_def mail_ts_ok_def)

lemma set_status_marks:
  assumes now: "ts_ok (io_now io)" and retry: "\<And>t. retry = Some t \<Longrightarrow> ts_ok t"
  shows "marks (db_inv E) (db_view E) (uuid_to_string E) io i
           (set_status E io i st err bump retry)
           (set_mail_status (io_now io) st err bump retry)"
  unfolding marks_def
proof (intro allI impI)
  fix rows assume I: "db_inv E rows"
  let ?hit = "\<lambda>r. r_id r = uuid_to_string E i"
  let ?f = "set_status_row (status_to_str st) err (to_rfc3339 E (io_now io))
              (if bump then 1 else 0) (map_option (to_rfc3339 E) retry)"
  let ?u = "set_mail_status (io_now io) st err bump retry"
  let ?rows = "map (\<lambda>r. if ?hit r then ?f r else r) rows"
  have sel: "?hit r \<longleftrightarrow> id_of m = i" if "encodes E r m" for r m
    using that uuid_inj [OF db_invD(1) [OF I]] by (simp add: encodes_def)
  have enc: "encodes E (?f r) (?u m)" if "encodes E r m" for r m
    using that now retry by (rule encodes_set_status)
  have U: "db_inv E ?rows"
    "db_view E ?rows = (\<lambda>j. map_option (\<lambda>m. if id_of m = i then ?u m else m) (db_view E rows j))"
    using update_rows [OF I, of ?hit "\<lambda>m. id_of m = i" ?f ?u, OF sel enc set_mail_status_simps(1)]
    by simp_all
  show "case io_fault io of
          Some e \<Rightarrow> set_status E io i st err bump retry rows = (rows, Inl (Queue e))
        | None \<Rightarrow> (case db_view E rows i of
             None \<Rightarrow> set_status E io i st err bump retry rows =
                       (rows, Inl (NotFound (uuid_to_string E i)))
           | Some m \<Rightarrow> \<exists>q'. set_status E io i st err bump retry rows = (q', Inr ()) \<and> db_inv E q' \<and>
                db_view E q' = (db_view E rows)(i \<mapsto> ?u m))"
  proof (cases "io_fault io")
    case None
    show ?thesis
    proof (cases "db_view E rows i")
      case nv: None
      then have no: "\<forall>r \<in> set rows. r_id r \<noteq> uuid_to_string E i" by (simp add: db_view_None [OF I])
      then have "?rows = rows" and "filter ?hit rows = []"
        by (auto intro: map_idI simp: filter_empty_conv)
      with None nv show ?thesis by (simp add: set_status_def)
    next
      case (Some m)
      from db_view_Some [OF I Some] have "filter ?hit rows \<noteq> []" by (auto simp: filter_empty_conv)
      then have run: "set_status E io i st err bump retry rows = (?rows, Inr ())"
        using None by (simp add: set_status_def)
      have "db_view E ?rows = (db_view E rows)(i \<mapsto> ?u m)"
        unfolding U(2)
        by (rule map_option_at) (use Some db_view_Some [OF I] in blast)+
      with run U(1) None Some show ?thesis by simp
    qed
  qed (simp add: set_status_def)
qed

section \<open>Requeueing\<close>

lemma update_where_requeues:
  assumes I: "db_inv E rows" and now: "ts_ok now"
    and sel: "\<And>r m. encodes E r m \<Longrightarrow> S r \<longleftrightarrow> status m = Sending \<and> P m"
  defines "f \<equiv> \<lambda>r. r\<lparr>r_status := ''pending'', r_updated_at := to_rfc3339 E now\<rparr>"
  shows "\<exists>rows'. update_where S f rows =
           (rows', card {i. \<exists>m. db_view E rows i = Some m \<and> status m = Sending \<and> P m}) \<and>
         db_inv E rows' \<and> db_view E rows' = requeue_store now P (db_view E rows)"
proof -
  have enc: "encodes E (f r) (requeued now m)" if "encodes E r m" for r m
    using that now by (simp add: encodes_def f_def requeued_def mail_ts_ok_def)
  note U = update_rows [OF I, of S "\<lambda>m. status m = Sending \<and> P m" f "requeued now", OF sel enc requeued_simps(1)]
  let ?D = "{i. \<exists>m. db_view E rows i = Some m \<and> status m = Sending \<and> P m}"
  have "length (filter S rows) = card (r_id ` {r \<in> set rows. S r})"
    by (rule length_filter_eq_card [OF db_invD(2) [OF I]])
  also have "r_id ` {r \<in> set rows. S r} = uuid_to_string E ` ?D"
  proof (intro equalityI subsetI)
    fix k assume "k \<in> r_id ` {r \<in> set rows. S r}"
    then obtain r where r: "r \<in> set rows" "S r" "k = r_id r" by auto
    from db_invD(3) [OF I r(1)] obtain m where m: "encodes E r m" by blast
    from m have "k = uuid_to_string E (id_of m)" using r(3) by (simp add: encodes_def)
    moreover have "id_of m \<in> ?D" using db_view_row [OF I r(1) m] sel [OF m] r(2) by blast
    ultimately show "k \<in> uuid_to_string E ` ?D" by blast
  next
    fix k assume "k \<in> uuid_to_string E ` ?D"
    then obtain i m where im: "k = uuid_to_string E i" "db_view E rows i = Some m"
      "status m = Sending \<and> P m" by blast
    from db_view_Some [OF I im(2)] obtain r where "r \<in> set rows" "encodes E r m"
      "r_id r = uuid_to_string E i" by blast
    with sel im show "k \<in> r_id ` {r \<in> set rows. S r}" by (auto intro!: image_eqI [of _ _ r])
  qed
  also have "card (uuid_to_string E ` ?D) = card ?D"
    by (rule card_image) (simp add: inj_on_def uuid_inj [OF db_invD(1) [OF I]])
  finally have "length (filter S rows) = card ?D" .
  with U show ?thesis by (simp add: update_where_def requeue_store_def)
qed

lemma encodes_sending: "encodes E r m \<Longrightarrow> r_status r = ''sending'' \<longleftrightarrow> status m = Sending"
  by (simp add: encodes_def)

lemma requeue_sending_requeues:
  "ts_ok (io_now io) \<Longrightarrow> requeues (db_inv E) (db_view E) io (requeue_sending E io) (\<lambda>_. True)"
  unfolding requeues_def
proof (intro allI impI)
  fix rows assume now: "ts_ok (io_now io)" and I: "db_inv E rows"
  from update_where_requeues [OF I now, of "\<lambda>r. r_status r = ''sending''" "\<lambda>_. True"]
  show "case io_fault io of
          Some e \<Rightarrow> requeue_sending E io rows = (rows, Inl (Queue e))
        | None \<Rightarrow> \<exists>q'. requeue_sending E io rows =
              (q', Inr (card {i. \<exists>m. db_view E rows i = Some m \<and> status m = Sending \<and> True})) \<and>
            db_inv E q' \<and> db_view E q' = requeue_store (io_now io) (\<lambda>_. True) (db_view E rows)"
    by (auto simp: requeue_sending_def encodes_sending split: option.splits)
qed

lemma requeue_stale_requeues:
  assumes now: "ts_ok (io_now io)" and cut: "ts_ok cutoff"
  shows "requeues (db_inv E) (db_view E) io (requeue_stale_sending E io cutoff)
           (\<lambda>m. updated_at m < cutoff)"
  unfolding requeues_def
proof (intro allI impI)
  fix rows assume I: "db_inv E rows"
  let ?S = "\<lambda>r. r_status r = ''sending'' \<and> r_updated_at r < to_rfc3339 E cutoff"
  have "?S r \<longleftrightarrow> status m = Sending \<and> updated_at m < cutoff" if "encodes E r m" for r m
    using that codec_ok_less [OF db_invD(1) [OF I] _ cut]
    by (auto simp: encodes_def mail_ts_ok_def)
  from update_where_requeues [OF I now, of ?S "\<lambda>m. updated_at m < cutoff", OF this]
  show "case io_fault io of
          Some e \<Rightarrow> requeue_stale_sending E io cutoff rows = (rows, Inl (Queue e))
        | None \<Rightarrow> \<exists>q'. requeue_stale_sending E io cutoff rows =
              (q', Inr (card {i. \<exists>m. db_view E rows i = Some m \<and> status m = Sending \<and> updated_at m < cutoff})) \<and>
            db_inv E q' \<and>
            db_view E q' = requeue_store (io_now io) (\<lambda>m. updated_at m < cutoff) (db_view E rows)"
    by (auto simp: requeue_stale_sending_def split: option.splits)
qed

section \<open>Fetching what is due\<close>

definition mail_of :: "codec \<Rightarrow> row \<Rightarrow> mail" where
  "mail_of E r = projr (row_to_mail E r)"

lemma mail_of_encodes:
  assumes "db_inv E rows" and "r \<in> set rows"
  shows "encodes E r (mail_of E r)" and "row_to_mail E r = Inr (mail_of E r)"
    and "db_view E rows (id_of (mail_of E r)) = Some (mail_of E r)"
proof -
  from db_invD(3) [OF assms] obtain m where m: "encodes E r m" by blast
  from row_to_mail_encodes [OF db_invD(1) [OF assms(1)] m] have "row_to_mail E r = Inr m" .
  with m show e: "encodes E r (mail_of E r)" and "row_to_mail E r = Inr (mail_of E r)"
    by (simp_all add: mail_of_def)
  show "db_view E rows (id_of (mail_of E r)) = Some (mail_of E r)"
    by (rule db_view_row [OF assms e])
qed

lemma view_rows:
  assumes "db_inv E rows"
  shows "db_view E rows i = Some m \<longleftrightarrow> (\<exists>r \<in> set rows. m = mail_of E r \<and> i = id_of m)"
proof
  assume v: "db_view E rows i = Some m"
  from db_view_Some [OF assms v] obtain r where r: "r \<in> set rows" "encodes E r m" "id_of m = i" by blast
  from encodes_unique [OF db_invD(1) [OF assms] mail_of_encodes(1) [OF assms r(1)] r(2)] r
  show "\<exists>r \<in> set rows. m = mail_of E r \<and> i = id_of m" by blast
qed (auto simp: mail_of_encodes(3) [OF assms])

text \<open>The rows \<open>fetch_due\<close> selects, before the limit is applied.\<close>

lemma due_rows:
  assumes I: "db_inv E rows" and now: "ts_ok now"
  defines "sel \<equiv> filter (due_row (to_rfc3339 E now)) (scan_order E rows)"
  shows "r \<in> set sel \<longleftrightarrow> r \<in> set rows \<and> due now (mail_of E r)"
    and "distinct (map (id_of \<circ> mail_of E) sel)"
    and "length sel = card {i. \<exists>m. db_view E rows i = Some m \<and> due now m}"
proof -
  note ok = db_invD(1) [OF I]
  have mem: "r \<in> set sel \<longleftrightarrow> r \<in> set rows \<and> due now (mail_of E r)" for r
    using encodes_due_row [OF ok mail_of_encodes(1) [OF I] now]
    by (auto simp: sel_def set_scan_order [OF ok])
  then show "r \<in> set sel \<longleftrightarrow> r \<in> set rows \<and> due now (mail_of E r)" .
  have rid: "r_id r = uuid_to_string E (id_of (mail_of E r))" if "r \<in> set rows" for r
    using mail_of_encodes(1) [OF I that] by (simp add: encodes_def)
  have "distinct (map r_id sel)"
    unfolding sel_def by (rule distinct_map_filter [OF distinct_scan_order [OF ok db_invD(2) [OF I]]])
  moreover have "map r_id sel = map (uuid_to_string E) (map (id_of \<circ> mail_of E) sel)"
    using rid mem by simp
  ultimately show d: "distinct (map (id_of \<circ> mail_of E) sel)"
    by (simp only: distinct_map)
  have "(id_of \<circ> mail_of E) ` set sel = {i. \<exists>m. db_view E rows i = Some m \<and> due now m}"
    using mem view_rows [OF I] by auto
  with distinct_card [OF d] show "length sel = card {i. \<exists>m. db_view E rows i = Some m \<and> due now m}"
    by simp
qed

lemma sorted_due_rows:
  assumes I: "db_inv E rows" and sub: "set rs \<subseteq> set rows"
    and sorted: "sorted (map r_next_attempt_at rs)"
  shows "sorted (map (next_attempt_at \<circ> mail_of E) rs)"
proof -
  have le: "r_next_attempt_at a \<le> r_next_attempt_at b \<longleftrightarrow>
      next_attempt_at (mail_of E a) \<le> next_attempt_at (mail_of E b)"
    if "a \<in> set rs" "b \<in> set rs" for a b
  proof -
    from that sub have "a \<in> set rows" "b \<in> set rows" by blast+
    from this [THEN mail_of_encodes(1) [OF I]] codec_okD(5) [OF db_invD(1) [OF I]]
    show ?thesis by (simp add: encodes_def mail_ts_ok_def)
  qed
  from sorted have "sorted_wrt (\<lambda>a b. r_next_attempt_at a \<le> r_next_attempt_at b) rs"
    by (simp add: sorted_map)
  then have "sorted_wrt (\<lambda>a b. next_attempt_at (mail_of E a) \<le> next_attempt_at (mail_of E b)) rs"
    by (rule sorted_wrt_mono_rel [rotated]) (simp add: le)
  then show ?thesis by (simp add: sorted_map)
qed

lemma fetch_due_batch:
  assumes I: "db_inv E rows" and now: "ts_ok now" and io: "io_fault io = None"
  shows "\<exists>ms. fetch_due E io limit now rows = Inr ms \<and> due_batch (db_view E rows) limit now ms"
proof -
  define sel where "sel = filter (due_row (to_rfc3339 E now)) (scan_order E rows)"
  define srt where "srt = sort_key r_next_attempt_at sel"
  let ?pick = "take (unat limit) srt" and ?ms = "map (mail_of E) (take (unat limit) srt)"
  note D = due_rows [OF I now, folded sel_def]
  have set_srt: "set srt = set sel" and len: "length srt = length sel" by (simp_all add: srt_def)
  have sub: "set ?pick \<subseteq> set sel"
    by (rule subset_trans [OF set_take_subset]) (simp add: set_srt)
  have sorted: "sorted (map (next_attempt_at \<circ> mail_of E) srt)"
    by (rule sorted_due_rows [OF I]) (use D(1) in \<open>auto simp: srt_def\<close>)
  have "collect_res (row_to_mail E) ?pick = Inr ?ms"
    by (rule collect_res_Inr) (use sub D(1) mail_of_encodes(2) [OF I] in blast)
  then have run: "fetch_due E io limit now rows = Inr ?ms"
    by (simp add: fetch_due_def select_due_def io sel_def srt_def)
  have "distinct (map (id_of \<circ> mail_of E) srt)"
    using D(2) unfolding srt_def by (metis mset_sort mset_map mset_eq_imp_distinct_iff)
  then have a: "distinct (map id_of ?ms)"
    by (simp add: take_map [symmetric] distinct_take)
  have b: "\<forall>m \<in> set ?ms. db_view E rows (id_of m) = Some m \<and> due now m"
    using sub D(1) mail_of_encodes(3) [OF I] by auto
  have c: "sorted (map next_attempt_at ?ms)"
    using sorted by (simp add: take_map [symmetric] sorted_wrt_take)
  have d: "length ?ms = min (unat limit) (card {i. \<exists>m. db_view E rows i = Some m \<and> due now m})"
    using D(3) len by simp
  have e: "\<forall>i m. db_view E rows i = Some m \<and> due now m \<and> m \<notin> set ?ms \<longrightarrow>
       (\<forall>b \<in> set ?ms. next_attempt_at b \<le> next_attempt_at m)"
  proof (intro allI impI ballI)
    fix i m b
    assume m: "db_view E rows i = Some m \<and> due now m \<and> m \<notin> set ?ms" and "b \<in> set ?ms"
    from m have "db_view E rows i = Some m" by simp
    then obtain r where "r \<in> set rows" and rm: "m = mail_of E r"
      unfolding view_rows [OF I] by (elim bexE conjE)
    with m D(1) [of r] have "r \<in> set srt" by (simp add: set_srt)
    then have "r \<in> set ?pick \<union> set (drop (unat limit) srt)"
      unfolding set_append [symmetric] append_take_drop_id .
    with m rm have "r \<in> set (drop (unat limit) srt)" by auto
    moreover from \<open>b \<in> set ?ms\<close> obtain r' where "r' \<in> set ?pick" "b = mail_of E r'" by auto
    ultimately show "next_attempt_at b \<le> next_attempt_at m"
      using filter_take_sorted [OF sorted] rm by simp
  qed
  have "due_batch (db_view E rows) limit now ?ms"
    unfolding due_batch_def by (intro conjI a b c d e)
  with run show ?thesis by blast
qed

section \<open>Insertion and lookup\<close>

lemma enqueue_run:
  assumes I: "db_inv E rows" and ts: "mail_ts_ok m"
  shows "\<exists>r. encodes E r m \<and>
     enqueue E io m rows =
       (case io_fault io of
          Some e \<Rightarrow> (rows, Inl (Queue e))
        | None \<Rightarrow> if db_view E rows (id_of m) = None then (rows @ [r], Inr m)
                  else (rows, Inl (Queue (unique_violation E))))"
proof -
  note ok = db_invD(1) [OF I]
  from codec_okD(1) [OF ok] obtain s where s: "addr_to_json E (from_addr m) = Inr s"
    "addr_of_json E s = Inr (from_addr m)" by blast
  from codec_okD(2) [OF ok] obtain t where t: "addrs_to_json E (to_addrs m) = Inr t"
    "addrs_of_json E t = Inr (to_addrs m)" by blast
  let ?r = "\<lparr>r_id = uuid_to_string E (id_of m), r_sender = s, r_recipients = t,
      r_subject = subject m, r_body = body m, r_transport = transport m,
      r_status = status_to_str (status m), r_attempts = uint (attempts m),
      r_last_error = last_error m, r_created_at = to_rfc3339 E (created_at m),
      r_updated_at = to_rfc3339 E (updated_at m),
      r_next_attempt_at = to_rfc3339 E (next_attempt_at m)\<rparr>"
  have "encodes E ?r m" using ts s t by (simp add: encodes_def)
  moreover have "enqueue E io m rows =
       (case io_fault io of
          Some e \<Rightarrow> (rows, Inl (Queue e))
        | None \<Rightarrow> if db_view E rows (id_of m) = None then (rows @ [?r], Inr m)
                  else (rows, Inl (Queue (unique_violation E))))"
    unfolding db_view_None [OF I] by (simp add: enqueue_def s t split: option.split)
  ultimately show ?thesis by blast
qed

lemma append_row:
  assumes I: "db_inv E rows" and r: "encodes E r m" and new: "db_view E rows (id_of m) = None"
  shows "db_inv E (rows @ [r])" and "db_view E (rows @ [r]) = (db_view E rows)(id_of m \<mapsto> m)"
proof -
  have rid: "r_id r = uuid_to_string E (id_of m)" using r by (simp add: encodes_def)
  with new have "r_id r \<notin> r_id ` set rows" by (auto simp: db_view_None [OF I])
  with I r show I': "db_inv E (rows @ [r])" by (auto simp: db_inv_def)
  show "db_view E (rows @ [r]) = (db_view E rows)(id_of m \<mapsto> m)"
  proof (rule db_view_eqI [OF I'])
    fix r' m' assume r': "r' \<in> set (rows @ [r])" and m': "encodes E r' m'"
    show "((db_view E rows)(id_of m \<mapsto> m)) (id_of m') = Some m'"
    proof (cases "r' = r")
      case True
      with encodes_unique [OF db_invD(1) [OF I] r] m' show ?thesis by auto
    next
      case False
      with r' have "r' \<in> set rows" by simp
      from db_view_row [OF I this m'] new show ?thesis by auto
    qed
  next
    fix i m' assume "((db_view E rows)(id_of m \<mapsto> m)) i = Some m'"
    then consider "i = id_of m" | "db_view E rows i = Some m'" by (auto split: if_splits)
    then show "\<exists>r' \<in> set (rows @ [r]). r_id r' = uuid_to_string E i"
      by cases (use rid db_view_Some [OF I] in auto)
  qed
qed

lemma get_mail_view:
  assumes I: "db_inv E rows" and io: "io_fault io = None"
  shows "get_mail E io i rows =
     (case db_view E rows i of None \<Rightarrow> Inl (NotFound (uuid_to_string E i)) | Some m \<Rightarrow> Inr m)"
proof (cases "List.find (\<lambda>r. r_id r = uuid_to_string E i) rows")
  case None
  then show ?thesis by (simp add: get_mail_def db_view_def io)
next
  case (Some r)
  then have "r \<in> set rows" by (auto simp: find_Some_iff)
  from mail_of_encodes(2) [OF I this] Some show ?thesis by (simp add: get_mail_def db_view_def io)
qed

section \<open>The contract holds\<close>

interpretation sq: mail_queue "sqlite_ops E" "db_inv E" "db_view E" "uuid_to_string E" for E
proof (unfold_locales, goal_cases)
  case (1 q i m)
  then show ?case using db_view_Some by blast
next
  case (2 q)
  have "dom (db_view E q) \<subseteq> (id_of \<circ> mail_of E) ` set q"
    using view_rows [OF 2] by auto
  then show ?case by (rule finite_subset) simp
next
  case (3 q m io e)
  then show ?case using enqueue_run [OF 3(1,2), of io] by (simp add: sqlite_ops_def)
next
  case (4 q m io)
  then show ?case using enqueue_run [OF 4(1,2), of io] append_row [OF 4(1) _ 4(4)]
    by (auto simp: sqlite_ops_def)
next
  case (5 q m io)
  then show ?case using enqueue_run [OF 5(1,2), of io] by (auto simp: sqlite_ops_def)
next
  case (14 q io i)
  then show ?case using get_mail_view [OF 14]
    by (simp add: sqlite_ops_def get_mail_def split: option.split)
next
  case (6 q io e limit now)
  then show ?case by (simp add: sqlite_ops_def fetch_due_def)
next
  case (7 q now io limit)
  then show ?case by (simp add: sqlite_ops_def fetch_due_batch)
qed (auto simp: sqlite_ops_def mark_sending_def mark_sent_def mark_failed_def mark_dead_def
      requeue_sending_requeues requeue_stale_requeues intro!: set_status_marks)

end
