(* ===== verification/Sample_Codec.thy ===== *)
theory Sample_Codec
  imports Queue_Sqlite
begin

text \<open>
  A concrete instance of the third-party functions \<open>Queue_Sqlite\<close> is parameterised by, with which
  the witnesses of the queue, dispatcher and ingress properties evaluate: length-prefixed text in
  place of JSON, and instants printed so that the byte order is the order of time. It satisfies
  \<open>codec_ok\<close>, so the hypotheses of those properties can hold.
\<close>

section \<open>Strings and addresses\<close>

definition enc_str :: "string \<Rightarrow> string" where
  "enc_str s = replicate (length s) CHR ''1'' @ CHR ''0'' # s"

definition dec_str :: "string \<Rightarrow> string \<times> string" where
  "dec_str s =
     (let n = length (takeWhile (\<lambda>c. c = CHR ''1'') s); rest = drop (Suc n) s
      in (take n rest, drop n rest))"

definition enc_addr :: "address \<Rightarrow> string" where
  "enc_addr a =
     enc_str (email a) @ (case addr_name a of None \<Rightarrow> ''n'' | Some x \<Rightarrow> CHR ''s'' # enc_str x)"

definition dec_addr :: "string \<Rightarrow> address \<times> string" where
  "dec_addr s =
     (case dec_str s of (e, r) \<Rightarrow>
        (if take 1 r = ''s''
         then (case dec_str (drop 1 r) of (x, r') \<Rightarrow> (\<lparr>email = e, addr_name = Some x\<rparr>, r'))
         else (\<lparr>email = e, addr_name = None\<rparr>, drop 1 r)))"

fun dec_addr_n :: "nat \<Rightarrow> string \<Rightarrow> address list" where
  "dec_addr_n 0 s = []"
| "dec_addr_n (Suc n) s = (case dec_addr s of (a, r) \<Rightarrow> a # dec_addr_n n r)"

definition enc_addrs :: "address list \<Rightarrow> string" where
  "enc_addrs as = replicate (length as) CHR ''1'' @ CHR ''0'' # concat (map enc_addr as)"

definition dec_addrs :: "string \<Rightarrow> address list" where
  "dec_addrs s =
     (let n = length (takeWhile (\<lambda>c. c = CHR ''1'') s) in dec_addr_n n (drop (Suc n) s))"

section \<open>Instants\<close>

definition enc_time :: "datetime \<Rightarrow> string" where
  "enc_time t =
     (if t < 0 then replicate (nat (- t)) CHR ''a'' @ ''b'' else CHR ''b'' # replicate (nat t) CHR ''c'')"

definition dec_time :: "string \<Rightarrow> datetime" where
  "dec_time s = (if take 1 s = ''a'' then 1 - int (length s) else int (length s) - 1)"

definition sample_codec :: codec where
  "sample_codec =
     \<lparr>addr_to_json = (\<lambda>a. Inr (enc_addr a)), addr_of_json = (\<lambda>s. Inr (fst (dec_addr s))),
      addrs_to_json = (\<lambda>as. Inr (enc_addrs as)), addrs_of_json = (\<lambda>s. Inr (dec_addrs s)),
      uuid_to_string = (\<lambda>i. replicate (unat i) CHR ''u''),
      uuid_parse_str = (\<lambda>s. Inr (of_nat (length s))),
      to_rfc3339 = enc_time, parse_from_rfc3339 = (\<lambda>s. Inr (dec_time s)),
      scan_order = (\<lambda>rows. rows), unique_violation = ''UNIQUE constraint failed: mails.id''\<rparr>"

section \<open>It satisfies the laws\<close>

lemma takeWhile_ones:
  "takeWhile (\<lambda>c. c = CHR ''1'') (replicate n CHR ''1'' @ CHR ''0'' # r) = replicate n CHR ''1''"
  by (induction n) auto

lemma dec_enc_str [simp]: "dec_str (enc_str s @ r) = (s, r)"
  by (simp add: dec_str_def enc_str_def takeWhile_ones)

lemma dec_enc_addr [simp]: "dec_addr (enc_addr a @ r) = (a, r)"
  by (cases "addr_name a") (simp_all add: dec_addr_def enc_addr_def)

lemma dec_enc_addr_nil: "dec_addr (enc_addr a) = (a, [])"
  using dec_enc_addr [of a "[]"] by simp

lemma dec_addr_n_concat: "dec_addr_n (length as) (concat (map enc_addr as)) = as"
  by (induction as) auto

lemma dec_enc_addrs: "dec_addrs (enc_addrs as) = as"
  by (simp add: dec_addrs_def enc_addrs_def takeWhile_ones dec_addr_n_concat)

lemma dec_enc_time: "dec_time (enc_time t) = t"
proof (cases "t < 0")
  case True
  then obtain k where "nat (- t) = Suc k" by (metis Suc_pred neg_0_less_iff_less zero_less_nat_eq)
  with True show ?thesis by (simp add: dec_time_def enc_time_def)
qed (simp add: dec_time_def enc_time_def)

lemma replicate_less_append:
  "m < n \<Longrightarrow> (replicate n CHR ''a'' @ ''b'') < (replicate m CHR ''a'' @ ''b'')"
proof (induction m arbitrary: n)
  case 0
  then show ?case by (cases n) (simp_all add: less_char_def)
next
  case (Suc m)
  then show ?case by (cases n) simp_all
qed

lemma replicate_c_less: "m < n \<Longrightarrow> replicate m CHR ''c'' < replicate n CHR ''c''"
proof (induction m arbitrary: n)
  case 0
  then show ?case by (cases n) simp_all
next
  case (Suc m)
  then show ?case by (cases n) simp_all
qed

lemma enc_time_less: "t < t' \<Longrightarrow> enc_time t < enc_time t'"
proof -
  assume lt: "t < t'"
  consider "t' < 0" | "t < 0" "0 \<le> t'" | "0 \<le> t" using lt by linarith
  then show ?thesis
  proof cases
    case 1
    with lt show ?thesis by (simp add: enc_time_def replicate_less_append)
  next
    case 2
    then obtain k where "nat (- t) = Suc k" by (metis Suc_pred neg_0_less_iff_less zero_less_nat_eq)
    with 2 show ?thesis by (simp add: enc_time_def less_char_def)
  next
    case 3
    with lt show ?thesis by (simp add: enc_time_def replicate_c_less)
  qed
qed

lemma enc_time_le: "enc_time t \<le> enc_time t' \<longleftrightarrow> t \<le> t'"
  using enc_time_less [of t t'] enc_time_less [of t' t]
  by (cases t t' rule: linorder_cases) (auto simp: less_le_not_le)

lemma sample_codec_ok: "codec_ok sample_codec"
  by (simp add: codec_ok_def sample_codec_def dec_enc_addr_nil dec_enc_addrs dec_enc_time enc_time_le)

lemma db_inv_empty: "db_inv sample_codec []"
  by (simp add: db_inv_def sample_codec_ok)

end
