(* ===== verification/Sqlite_Properties.thy ===== *)
theory Sqlite_Properties
  imports Sample_Codec
begin

text \<open>
  The properties of the SQLite queue, read off the interpretation \<open>sq\<close> of the contract
  \<open>mail_queue\<close> on \<open>sqlite_ops\<close>, each with a witness on the sample codec.
\<close>

lemma get_mail_eq_view:
  "db_inv E rows \<Longrightarrow> io_fault io = None \<Longrightarrow>
     get_mail E io i rows = Inr m \<longleftrightarrow> db_view E rows i = Some m"
  by (simp add: get_mail_view split: option.split)

definition calm :: "datetime \<Rightarrow> io" where
  "calm t = \<lparr>io_now = t, io_fault = None\<rparr>"

lemma calm_simps [simp]: "io_now (calm t) = t" "io_fault (calm t) = None"
  by (simp_all add: calm_def)

lemma small_ts_ok [simp]:
  "ts_ok 0" "ts_ok 1" "ts_ok 5" "ts_ok 7" "ts_ok 9"
  by (simp_all add: ts_ok_def)

definition hello :: new_mail where
  "hello =
     \<lparr>nm_from = address_new ''a@b'', nm_to = [address_new ''c@d''], nm_subject = ''hi'', nm_body = ''x'',
      nm_transport = None\<rparr>"

text \<open>The table after one mail has been enqueued at time \<open>1\<close>.\<close>

definition one_mail :: "row list" where
  "one_mail = fst (enqueue sample_codec (calm 1) (from_new hello 1 3) [])"

lemma one_mail_inv: "db_inv sample_codec one_mail"
  and one_mail_view: "db_view sample_codec one_mail = [3 \<mapsto> from_new hello 1 3]"
  and one_mail_run: "enqueue sample_codec (calm 1) (from_new hello 1 3) [] = (one_mail, Inr (from_new hello 1 3))"
proof -
  have "db_view sample_codec [] = Map.empty" by (simp add: fun_eq_iff db_view_def)
  with sq.enqueue_new [OF db_inv_empty, of "from_new hello 1 3" "calm 1"]
  show "db_inv sample_codec one_mail" "db_view sample_codec one_mail = [3 \<mapsto> from_new hello 1 3]"
    "enqueue sample_codec (calm 1) (from_new hello 1 3) [] = (one_mail, Inr (from_new hello 1 3))"
    by (auto simp: one_mail_def sqlite_ops_def)
qed

section \<open>Insertion\<close>

text \<open>C21: A mail whose id is not stored yet is persisted by \<open>enqueue\<close> and read back unchanged by
  \<open>get\<close>, through JSON, UUID and RFC 3339 text; every other mail reads as before, the table stays
  well formed, and enqueueing the same id again is refused and leaves the table as it is.\<close>

theorem enqueue_then_get:
  assumes "db_inv E rows" and "mail_ts_ok m" and "io_fault io = None"
    and "get_mail E io (id_of m) rows = Inl (NotFound (uuid_to_string E (id_of m)))"
  shows "\<exists>rows'. enqueue E io m rows = (rows', Inr m) \<and> db_inv E rows' \<and>
           get_mail E io (id_of m) rows' = Inr m \<and>
           (\<forall>i. i \<noteq> id_of m \<longrightarrow> get_mail E io i rows' = get_mail E io i rows) \<and>
           enqueue E io m rows' = (rows', Inl (Queue (unique_violation E)))"
proof -
  from assms(4) have none: "db_view E rows (id_of m) = None"
    by (simp add: get_mail_view [OF assms(1,3)] split: option.splits)
  from enqueue_run [OF assms(1,2), of io] none assms(3) obtain r where
    r: "encodes E r m" "enqueue E io m rows = (rows @ [r], Inr m)" by auto
  note A = append_row [OF assms(1) r(1) none]
  from enqueue_run [OF A(1) assms(2), of io] A(2) assms(3)
  have "enqueue E io m (rows @ [r]) = (rows @ [r], Inl (Queue (unique_violation E)))" by simp
  with r(2) A show ?thesis
    by (simp add: get_mail_view [OF A(1) assms(3)] get_mail_view [OF assms(1,3)])
qed

theorem enqueue_then_get_witness:
  "\<exists>rows'. enqueue sample_codec (calm 1) (from_new hello 1 3) [] = (rows', Inr (from_new hello 1 3)) \<and>
     get_mail sample_codec (calm 1) 3 rows' = Inr (from_new hello 1 3)"
  using enqueue_then_get [OF db_inv_empty, of "from_new hello 1 3" "calm 1"]
  by (auto simp: get_mail_def)

section \<open>Status transitions\<close>

text \<open>C22: The four status transitions change exactly the mail they name. Claiming and completing
  keep the attempt counter and the schedule, a failure counts an attempt (at 32 bits) and
  reschedules, a burial counts an attempt and keeps the schedule; the error text is replaced or
  cleared, and nothing of the message itself changes.\<close>

theorem mark_transitions:
  assumes "db_inv E rows" and "io_fault io = None" and "get_mail E io i rows = Inr m"
    and "ts_ok (io_now io)" and "ts_ok retry_at"
  shows "(let (rows', res) = mark_sending E io i rows in
            res = Inr () \<and> db_inv E rows' \<and>
            db_view E rows' = (db_view E rows)
              (i \<mapsto> m\<lparr>status := Sending, last_error := None, updated_at := io_now io\<rparr>)) \<and>
         (let (rows', res) = mark_sent E io i rows in
            res = Inr () \<and> db_inv E rows' \<and>
            db_view E rows' = (db_view E rows)
              (i \<mapsto> m\<lparr>status := Sent, last_error := None, updated_at := io_now io\<rparr>)) \<and>
         (let (rows', res) = mark_failed E io i err retry_at rows in
            res = Inr () \<and> db_inv E rows' \<and>
            db_view E rows' = (db_view E rows)
              (i \<mapsto> m\<lparr>status := Failed, last_error := Some err, updated_at := io_now io,
                     attempts := attempts m + 1, next_attempt_at := retry_at\<rparr>)) \<and>
         (let (rows', res) = mark_dead E io i err rows in
            res = Inr () \<and> db_inv E rows' \<and>
            db_view E rows' = (db_view E rows)
              (i \<mapsto> m\<lparr>status := Dead, last_error := Some err, updated_at := io_now io,
                     attempts := attempts m + 1\<rparr>))"
proof -
  from assms have v: "db_view E rows i = Some m" by (simp add: get_mail_eq_view)
  note ops = sqlite_ops_def marks_def v assms(1,2) set_mail_status_def
  show ?thesis
    using sq.mark_sending_law [OF assms(4), of E i] sq.mark_sent_law [OF assms(4), of E i]
      sq.mark_failed_law [OF assms(4,5), of E i err] sq.mark_dead_law [OF assms(4), of E i err]
    by (intro conjI) (auto simp: ops dest!: spec [of _ rows])
qed

theorem mark_transitions_witness:
  "status (the (db_view sample_codec (fst (mark_failed sample_codec (calm 5) 3 ''down'' 9 one_mail)) 3)) = Failed \<and>
   attempts (the (db_view sample_codec (fst (mark_failed sample_codec (calm 5) 3 ''down'' 9 one_mail)) 3)) = 1"
proof -
  have "get_mail sample_codec (calm 5) 3 one_mail = Inr (from_new hello 1 3)"
    by (simp add: get_mail_eq_view one_mail_inv one_mail_view)
  from mark_transitions [OF one_mail_inv _ this, of 9 "''down''"]
  show ?thesis by (auto simp: Let_def split: prod.splits)
qed

text \<open>C23: Every error of a status transition leaves the table as it is: a statement the database
  refuses answers the queue error, an unknown id answers \<open>NotFound\<close> with the printed id.\<close>

theorem mark_error_keeps_table:
  assumes "db_inv E rows"
    and "io_fault io \<noteq> None \<or> get_mail E io i rows = Inl (NotFound (uuid_to_string E i))"
  shows "set_status E io i st err bump retry rows =
           (rows, Inl (case io_fault io of Some e \<Rightarrow> Queue e | None \<Rightarrow> NotFound (uuid_to_string E i)))"
proof (cases "io_fault io")
  case None
  with assms(2) have "db_view E rows i = None"
    by (simp add: get_mail_view [OF assms(1)] split: option.splits)
  then have no: "\<forall>r \<in> set rows. r_id r \<noteq> uuid_to_string E i" by (simp add: db_view_None [OF assms(1)])
  then have "filter (\<lambda>r. r_id r = uuid_to_string E i) rows = []" by (auto simp: filter_empty_conv)
  moreover from no have "map (\<lambda>r. if r_id r = uuid_to_string E i then f r else r) rows = rows" for f
    by (auto intro: map_idI)
  ultimately show ?thesis using None by (simp add: set_status_def)
qed (simp add: set_status_def)

theorem mark_error_keeps_table_witness:
  "set_status sample_codec (calm 5) 4 Sent None False None one_mail = (one_mail, Inl (NotFound (uuid_to_string sample_codec 4)))"
proof -
  have "get_mail sample_codec (calm 5) 4 one_mail = Inl (NotFound (uuid_to_string sample_codec 4))"
    by (simp add: get_mail_view one_mail_inv one_mail_view)
  with mark_error_keeps_table [OF one_mail_inv, of "calm 5" 4 Sent None False None]
  show ?thesis by simp
qed

section \<open>Fetching\<close>

text \<open>C3: \<open>fetch_due\<close> on a well formed table answers the stored mails that are due, each once: only
  pending and failed mails whose time has come, oldest first, as many as there are up to the
  limit, and a due mail that is left out is no older than any of those returned.\<close>

theorem fetch_due_correct:
  assumes "db_inv E rows" and "ts_ok now" and "io_fault io = None"
  shows "\<exists>ms. fetch_due E io limit now rows = Inr ms \<and>
           distinct (map id_of ms) \<and> sorted (map next_attempt_at ms) \<and>
           (\<forall>m \<in> set ms. get_mail E io (id_of m) rows = Inr m \<and>
              status m \<in> {Pending, Failed} \<and> next_attempt_at m \<le> now) \<and>
           length ms = min (unat limit)
             (card {i. \<exists>m. get_mail E io i rows = Inr m \<and>
                          status m \<in> {Pending, Failed} \<and> next_attempt_at m \<le> now}) \<and>
           (\<forall>i m. get_mail E io i rows = Inr m \<and> status m \<in> {Pending, Failed} \<and>
              next_attempt_at m \<le> now \<and> m \<notin> set ms \<longrightarrow>
              (\<forall>b \<in> set ms. next_attempt_at b \<le> next_attempt_at m))"
proof -
  have d: "due now m \<longleftrightarrow> status m \<in> {Pending, Failed} \<and> next_attempt_at m \<le> now" for m
    by (simp add: due_def live_def)
  from fetch_due_batch [OF assms] obtain ms where run: "fetch_due E io limit now rows = Inr ms"
    and b: "due_batch (db_view E rows) limit now ms" by blast
  show ?thesis
    unfolding get_mail_eq_view [OF assms(1,3)] using run b [unfolded due_batch_def d conj_assoc]
    by (intro exI [of _ ms]) (elim conjE, intro conjI, assumption+)
qed

theorem fetch_due_correct_witness:
  "fetch_due sample_codec (calm 5) 10 5 one_mail = Inr [from_new hello 1 3] \<and>
   fetch_due sample_codec (calm 0) 10 0 one_mail = Inr []"
proof -
  have g: "get_mail sample_codec (calm t) i one_mail = Inr m \<longleftrightarrow> i = 3 \<and> m = from_new hello 1 3" for t i m
    by (auto simp: get_mail_eq_view one_mail_inv one_mail_view)
  have ex: "{i. \<exists>m. (i = 3 \<and> m = from_new hello 1 3) \<and> status m \<in> {Pending, Failed} \<and> next_attempt_at m \<le> t} =
      (if 1 \<le> t then {3 :: mail_id} else {})" for t by auto
  have "fetch_due sample_codec (calm 5) 10 5 one_mail = Inr [from_new hello 1 3]"
    using fetch_due_correct [OF one_mail_inv small_ts_ok(3) calm_simps(2), of 5 10, unfolded g ex]
  proof (elim exE conjE, goal_cases)
    case (1 ms)
    from 1(4,5) have "length ms = 1" "\<forall>m \<in> set ms. m = from_new hello 1 3" by simp_all
    then have "ms = [from_new hello 1 3]" by (cases ms) simp_all
    with 1(1) show ?case by simp
  qed
  moreover have "fetch_due sample_codec (calm 0) 10 0 one_mail = Inr []"
    using fetch_due_correct [OF one_mail_inv small_ts_ok(1) calm_simps(2), of 0 10, unfolded g ex]
  proof (elim exE conjE, goal_cases)
    case (1 ms)
    from 1(1,5) show ?case by simp
  qed
  ultimately show ?thesis ..
qed

text \<open>C25: One due row that does not decode makes the whole \<open>fetch_due\<close> fail, for as long as the row
  is among the \<open>limit\<close> oldest due ones: no other mail is handed out.\<close>

theorem fetch_due_undecodable_row:
  assumes ok: "codec_ok E" and io: "io_fault io = None"
    and r: "r \<in> set rows" "due_row (to_rfc3339 E now) r" and bad: "row_to_mail E r = Inl e"
    and old: "length (filter (\<lambda>r'. due_row (to_rfc3339 E now) r' \<and>
                r_next_attempt_at r' \<le> r_next_attempt_at r) rows) \<le> unat limit"
  shows "\<exists>e'. fetch_due E io limit now rows = Inl e'"
proof -
  define srt where
    "srt = sort_key r_next_attempt_at (filter (due_row (to_rfc3339 E now)) (scan_order E rows))"
  let ?older = "\<lambda>r'. r_next_attempt_at r' \<le> r_next_attempt_at r"
  have sorted: "sorted (map r_next_attempt_at srt)" by (simp add: srt_def)
  have "r \<in> set srt" using r by (simp add: srt_def set_scan_order [OF ok])
  have "mset (filter ?older srt) =
      mset (filter (\<lambda>r'. due_row (to_rfc3339 E now) r' \<and> ?older r') rows)"
    by (simp add: srt_def codec_okD(6) [OF ok] mset_filter filter_filter_mset conj_commute)
  then have len: "length (filter ?older srt) \<le> unat limit" using old by (metis size_mset)
  have "r \<in> set (take (unat limit) srt)"
  proof (rule ccontr)
    assume no: "r \<notin> set (take (unat limit) srt)"
    then have d: "r \<in> set (drop (unat limit) srt)"
      using \<open>r \<in> set srt\<close> by (metis append_take_drop_id Un_iff set_append)
    then have "unat limit < length srt" by (cases "unat limit < length srt") auto
    moreover have "filter ?older (take (unat limit) srt) = take (unat limit) srt"
      using filter_take_sorted [OF sorted _ d] by (auto simp: filter_id_conv)
    moreover have "filter ?older (drop (unat limit) srt) \<noteq> []" using d by (auto simp: filter_empty_conv)
    ultimately have "unat limit < length (filter ?older (take (unat limit) srt @ drop (unat limit) srt))"
      unfolding filter_append by simp
    with len show False by simp
  qed
  with bad have "\<exists>e'. collect_res (row_to_mail E) (take (unat limit) srt) = Inl e'"
    by (metis collect_res_error_iff)
  then show ?thesis by (simp add: fetch_due_def select_due_def io srt_def)
qed

definition bad_row :: row where
  "bad_row =
     \<lparr>r_id = ''u'', r_sender = ''0n'', r_recipients = ''0'', r_subject = ''s'', r_body = [], r_transport = None,
      r_status = ''pending'', r_attempts = 0, r_last_error = None, r_created_at = ''b'',
      r_updated_at = ''b'', r_next_attempt_at = ''+10000''\<rparr>"

definition strict_codec :: codec where
  "strict_codec = sample_codec\<lparr>parse_from_rfc3339 :=
     (\<lambda>s. if take 1 s = ''+'' then Inl ''input is out of range'' else Inr (dec_time s))\<rparr>"

lemma enc_time_head: "take 1 (enc_time t) \<noteq> ''+''"
proof (cases "t < 0")
  case True
  then obtain k where "nat (- t) = Suc k" by (metis Suc_pred neg_0_less_iff_less zero_less_nat_eq)
  with True show ?thesis by (simp add: enc_time_def)
qed (simp add: enc_time_def)

lemma strict_codec_ok: "codec_ok strict_codec"
  using sample_codec_ok enc_time_head
  by (simp add: codec_ok_def strict_codec_def sample_codec_def dec_enc_time)

theorem fetch_due_undecodable_row_witness:
  "\<exists>e. fetch_due strict_codec (calm 5) 10 5 (one_mail @ [bad_row]) = Inl e"
proof (rule fetch_due_undecodable_row [OF strict_codec_ok, where r = bad_row])
  show "due_row (to_rfc3339 strict_codec 5) bad_row"
    by (simp add: due_row_def bad_row_def strict_codec_def sample_codec_def enc_time_def less_char_def)
  show "row_to_mail strict_codec bad_row = Inl (Queue ''decode timestamp: input is out of range'')"
    by (simp add: row_to_mail_def bad_row_def strict_codec_def sample_codec_def parse_time_def
        status_from_str_def)
  have "length one_mail = 1"
    by (simp add: one_mail_def enqueue_def sample_codec_def)
  then show "length (filter (\<lambda>r'. due_row (to_rfc3339 strict_codec 5) r' \<and>
      r_next_attempt_at r' \<le> r_next_attempt_at bad_row) (one_mail @ [bad_row])) \<le> unat (10 :: u32)"
    by (intro order_trans [OF length_filter_le]) simp
qed simp_all

section \<open>Recovery\<close>

text \<open>C24: \<open>requeue_stale_sending\<close> resets exactly the mails in flight whose last update lies before the
  cut-off, changes nothing else of them than status and update time, keeps every other mail as it
  is and answers how many it reset; \<open>requeue_sending\<close> does so for every mail in flight, so that
  none is left.\<close>

theorem requeue_exact:
  assumes "db_inv E rows" and "io_fault io = None" and "ts_ok (io_now io)" and "ts_ok older_than"
  shows "\<exists>rows1 rows2.
     requeue_stale_sending E io older_than rows =
       (rows1, Inr (card {i. \<exists>m. db_view E rows i = Some m \<and> status m = Sending \<and> updated_at m < older_than})) \<and>
     db_inv E rows1 \<and>
     db_view E rows1 = (\<lambda>i. map_option (\<lambda>m. if status m = Sending \<and> updated_at m < older_than
        then m\<lparr>status := Pending, updated_at := io_now io\<rparr> else m) (db_view E rows i)) \<and>
     requeue_sending E io rows =
       (rows2, Inr (card {i. \<exists>m. db_view E rows i = Some m \<and> status m = Sending})) \<and>
     db_inv E rows2 \<and>
     db_view E rows2 = (\<lambda>i. map_option (\<lambda>m. if status m = Sending
        then m\<lparr>status := Pending, updated_at := io_now io\<rparr> else m) (db_view E rows i)) \<and>
     (\<forall>i m. db_view E rows2 i = Some m \<longrightarrow> status m \<noteq> Sending)"
proof -
  note unf = requeues_def requeue_store_def requeued_def sqlite_ops_def
  from sq.requeue_stale_law [OF assms(3,4), of E, unfolded unf] obtain rows1 where
    1: "requeue_stale_sending E io older_than rows =
       (rows1, Inr (card {i. \<exists>m. db_view E rows i = Some m \<and> status m = Sending \<and> updated_at m < older_than}))"
     "db_inv E rows1"
     "db_view E rows1 = (\<lambda>i. map_option (\<lambda>m. if status m = Sending \<and> updated_at m < older_than
        then m\<lparr>status := Pending, updated_at := io_now io\<rparr> else m) (db_view E rows i))"
    using assms(1,2) by (auto dest!: spec [of _ rows])
  from sq.requeue_sending_law [OF assms(3), of E, unfolded unf] obtain rows2 where
    2: "requeue_sending E io rows =
       (rows2, Inr (card {i. \<exists>m. db_view E rows i = Some m \<and> status m = Sending}))"
     "db_inv E rows2"
     "db_view E rows2 = (\<lambda>i. map_option (\<lambda>m. if status m = Sending
        then m\<lparr>status := Pending, updated_at := io_now io\<rparr> else m) (db_view E rows i))"
    using assms(1,2) by (auto dest!: spec [of _ rows])
  from 2(3) have "db_view E rows2 = requeue_store (io_now io) (\<lambda>_. True) (db_view E rows)"
    by (simp only: requeue_store_def requeued_def simp_thms)
  then have "\<forall>i m. db_view E rows2 i = Some m \<longrightarrow> status m \<noteq> Sending"
    by (simp add: requeue_store_none_sending)
  with 1 2 show ?thesis by blast
qed

theorem requeue_exact_witness:
  "\<exists>rows'. requeue_sending sample_codec (calm 7)
       (fst (mark_sending sample_codec (calm 5) 3 one_mail)) = (rows', Inr 1)"
proof -
  let ?rows = "fst (mark_sending sample_codec (calm 5) 3 one_mail)"
  have m: "db_inv sample_codec ?rows"
    "db_view sample_codec ?rows = [3 \<mapsto> set_mail_status 5 Sending None False None (from_new hello 1 3)]"
    using sq.mark_sending_law [of "calm 5" sample_codec 3] one_mail_inv
    by (auto simp: marks_def sqlite_ops_def one_mail_view dest!: spec [of _ one_mail])
  have "{i. \<exists>m'. db_view sample_codec ?rows i = Some m' \<and> status m' = Sending} = {3}"
    using m(2) by (auto split: if_splits)
  with requeue_exact [OF m(1), of "calm 7" 5] show ?thesis by auto
qed

section \<open>Connecting\<close>

text \<open>Connecting keeps the rows of an existing \<open>mails\<close> table and starts with an empty, well
  formed queue on a fresh database; an unusable URL, a pool that does not open and a failing
  migration are answered as queue errors, in this order.\<close>

lemma connect_keeps_rows:
  assumes "codec_ok E"
  shows "connect options open_pool io url =
     (case options url of
        Inl e \<Rightarrow> Inl (Queue e)
      | Inr path \<Rightarrow>
          (case open_pool path of
             Inl e \<Rightarrow> Inl (Queue e)
           | Inr db \<Rightarrow>
               (case io_fault io of
                  Some e \<Rightarrow> Inl (Queue e)
                | None \<Rightarrow> Inr (case db of None \<Rightarrow> [] | Some rows \<Rightarrow> rows)))) \<and>
     (options url = Inr path \<and> open_pool path = Inr None \<and> io_fault io = None \<longrightarrow>
        (\<exists>rows. connect options open_pool io url = Inr rows \<and> db_inv E rows))"
  using assms
  by (auto simp: connect_def migrate_def db_inv_def split: sum.split option.split)

end
