(* ===== verification/Dispatcher_Properties.thy ===== *)
theory Dispatcher_Properties
  imports Dispatcher_Faults Sqlite_Properties
begin

text \<open>
  The properties of the dispatcher running on the SQLite queue: the lemmas of \<open>Dispatcher_Run\<close>
  through the interpretation \<open>sq\<close>. The witnesses run the loop on the sample codec, with a clock
  that adds and subtracts exactly and one transport that works while the network is up.
\<close>

text \<open>The contract of the queue, with the lemmas on the dispatcher proved in it.\<close>

interpretation dq: mail_dispatch "sqlite_ops E" "db_inv E" "db_view E" "uuid_to_string E" for E
  by (intro mail_dispatch.intro sq.mail_queue_axioms)

section \<open>A sample run\<close>

definition sample_chrono :: chrono where
  "sample_chrono =
     \<lparr>from_std = (\<lambda>d. if int (dur_nanos d) \<le> (2 ^ 63 - 1) * 10 ^ 6 then Some (int (dur_nanos d)) else None),
      dt_add = (\<lambda>t d. Some (t + d)), dt_sub = (\<lambda>t d. Some (t - d))\<rparr>"

definition sample_transport :: "bool transport_ops" where
  "sample_transport =
     \<lparr>tr_name = ''smtp'', tr_send = (\<lambda>up m. Some (if up then Inr () else Inl (Transport ''down'')))\<rparr>"

definition sample_inner :: "bool inner" where
  "sample_inner = dispatcher_new [(''smtp'', sample_transport)] (Some ''smtp'') default_dispatcher_config"

definition sample_env :: "bool \<Rightarrow> datetime \<Rightarrow> bool denv" where
  "sample_env up t = \<lparr>d_net = up, d_now = t, d_io = calm t\<rparr>"

abbreviation sample_ops :: "row list queue_ops" where
  "sample_ops \<equiv> sqlite_ops sample_codec"

abbreviation sample_reach :: "row list dstate \<Rightarrow> bool" where
  "sample_reach \<equiv> reachable (\<lambda>a. action_ok sample_inner a \<and> calm_action a) True sample_ops sample_chrono sample_inner one_mail"

lemma sample_env_simps [simp]:
  "d_net (sample_env up t) = up" "d_now (sample_env up t) = t" "d_io (sample_env up t) = calm t"
  by (simp_all add: sample_env_def)

lemma sample_chrono_ok: "chrono_ok sample_chrono"
  by (simp add: chrono_ok_def sample_chrono_def)

lemma sample_config [simp]:
  "concurrency (disp_config sample_inner) = 8"
  "batch_size (disp_config sample_inner) = 64"
  "max_attempts (retry (disp_config sample_inner)) = 5"
  "max_delay (retry (disp_config sample_inner)) = from_secs 3600"
  "sending_lease (disp_config sample_inner) = from_secs 120"
  "poll_interval (disp_config sample_inner) = from_secs 5"
  by (simp_all add: sample_inner_def dispatcher_new_def default_dispatcher_config_def
      default_retry_policy_def)

lemma sample_params: "params_ok sample_chrono sample_inner"
  by (simp add: params_ok_def sample_chrono_ok)

lemma sample_budget:
  "budget (max_attempts (retry (disp_config sample_inner))) (db_view sample_codec one_mail)"
  by (simp add: budget_def one_mail_view)

lemma sample_denv [simp]: "denv_ok sample_inner (sample_env up 7)"
  by (simp add: denv_ok_def sample_env_def from_secs_def dur_nanos_def ts_ok_def)

lemma sample_pick:
  "pick_transport sample_inner (from_new hello 1 3) = Some (''smtp'', sample_transport)"
  by (simp add: pick_transport_def hello_def sample_inner_def dispatcher_new_def hm_get_def)

lemma due_batch_single:
  assumes "due_batch [i \<mapsto> m] limit now ms" and "id_of m = i" and "due now m" and "0 < limit"
  shows "ms = [m]"
proof -
  have "{j. \<exists>m'. [i \<mapsto> m] j = Some m' \<and> due now m'} = {i}" using assms(3) by auto
  with due_batchD(5) [OF assms(1)] assms(4) have "length ms = 1"
    by (simp add: word_less_nat_alt)
  moreover have "m' = m" if "m' \<in> set ms" for m'
    using due_batchD(2) [OF assms(1) that] by (simp split: if_splits)
  ultimately show ?thesis by (cases ms) simp_all
qed

lemma sample_reach_inv:
  assumes "sample_reach s"
  shows "db_inv sample_codec (queue_of s)" and "sys_inv sample_inner (db_view sample_codec (queue_of s)) s"
  using dq.reachable_inv [OF assms one_mail_inv sample_params sample_budget] by simp_all

text \<open>Recovery and the reclaiming of stale mails find nothing to do.\<close>

lemma sample_requeue: "requeue_at io P [3 \<mapsto> from_new hello 1 3] = [3 \<mapsto> from_new hello 1 3]"
  by (simp add: requeue_at_def requeue_store_def fun_eq_iff)

lemma sample_reclaim_ok: "action_ok sample_inner (Reclaim 5 (calm 1))"
  by (simp add: ts_ok_def from_secs_def dur_nanos_def)

lemma sample_idle:
  "\<exists>s. sample_reach s \<and> phase_of s = Polling \<and> flight s = [] \<and>
       db_view sample_codec (queue_of s) = [3 \<mapsto> from_new hello 1 3]"
proof -
  let ?step = "step True sample_ops sample_chrono sample_inner"
  have r0: "sample_reach (start one_mail)" by (rule reachable.init)
  obtain s1 where s1: "?step (Recover (calm 1)) (start one_mail) = Some s1" "phase_of s1 = Polling"
    "flight s1 = []" by (simp add: start_def)
  then have r1: "sample_reach s1" using reachable.next_step [OF r0, of "Recover (calm 1)"] by (simp del: step.simps)
  from dq.step_store [OF _ sample_params _ s1(1)] one_mail_inv sample_requeue
  have "db_view sample_codec (queue_of s1) = [3 \<mapsto> from_new hello 1 3]"
    by (simp add: start_def one_mail_view)
  with r1 s1 show ?thesis by blast
qed

lemma sample_fetching:
  "\<exists>s. sample_reach s \<and> phase_of s = Fetching 5 \<and> flight s = [] \<and>
       db_view sample_codec (queue_of s) = [3 \<mapsto> from_new hello 1 3]"
proof -
  let ?step = "step True sample_ops sample_chrono sample_inner"
  from sample_idle obtain s1 where r1: "sample_reach s1" and s1: "phase_of s1 = Polling" "flight s1 = []"
    and v1: "db_view sample_codec (queue_of s1) = [3 \<mapsto> from_new hello 1 3]" by blast
  note a = sample_reclaim_ok
  obtain s2 where s2: "?step (Reclaim 5 (calm 1)) s1 = Some s2" "phase_of s2 = Fetching 5" "flight s2 = []"
    using s1 by (simp add: sample_chrono_def)
  then have r2: "sample_reach s2" using reachable.next_step [OF r1, of "Reclaim 5 (calm 1)"] a by (simp del: step.simps action_ok.simps)
  from dq.step_store [OF sample_reach_inv(1) [OF r1] sample_params a s2(1)] v1 sample_requeue
  have "db_view sample_codec (queue_of s2) = [3 \<mapsto> from_new hello 1 3]" by simp
  with r2 s2 show ?thesis by blast
qed

lemma sample_claiming:
  "\<exists>s s'. sample_reach s \<and> phase_of s = Fetching 5 \<and> flight s = [] \<and>
     db_view sample_codec (queue_of s) = [3 \<mapsto> from_new hello 1 3] \<and>
     step True sample_ops sample_chrono sample_inner (Fetch (calm 5)) s = Some s' \<and> sample_reach s' \<and>
     phase_of s' = Claiming [from_new hello 1 3] 0 \<and> flight s' = [] \<and> queue_of s' = queue_of s"
proof -
  from sample_fetching obtain s where s: "sample_reach s" "phase_of s = Fetching 5" "flight s = []"
    "db_view sample_codec (queue_of s) = [3 \<mapsto> from_new hello 1 3]" by blast
  from sq.fetch_ok [OF sample_reach_inv(1) [OF s(1)], of 5 "calm 5" 64] obtain ms where
    f: "q_fetch_due sample_ops (calm 5) 64 5 (queue_of s) = Inr ms"
    and b: "due_batch [3 \<mapsto> from_new hello 1 3] 64 5 ms" by (auto simp: s(4))
  have ms: "ms = [from_new hello 1 3]"
    by (rule due_batch_single [OF b]) (simp_all add: due_def live_def)
  let ?s' = "s\<lparr>phase_of := Claiming [from_new hello 1 3] 0\<rparr>"
  have st: "step True sample_ops sample_chrono sample_inner (Fetch (calm 5)) s = Some ?s'"
    using s(2) f ms by (simp add: fetched_def max_permits_def)
  from reachable.next_step [OF s(1) _ st] have "sample_reach ?s'" by simp
  with s st show ?thesis by (intro exI [of _ s] exI [of _ ?s']) simp
qed

lemma sample_flying:
  "\<exists>s. sample_reach s \<and> flight s = [from_new hello 1 3] \<and>
     db_view sample_codec (queue_of s) = [3 \<mapsto> set_mail_status 5 Sending None False None (from_new hello 1 3)]"
proof -
  from sample_claiming obtain s where s: "sample_reach s" "phase_of s = Claiming [from_new hello 1 3] 0"
    "flight s = []" and v: "db_view sample_codec (queue_of s) = [3 \<mapsto> from_new hello 1 3]" by metis
  from dq.marks_upd_at(3) [OF sq.mark_sending_law sample_reach_inv(1) [OF s(1)], of "calm 5" 3] v
  obtain u where "snd (q_mark_sending sample_ops (calm 5) 3 (queue_of s)) = Inr u"
    by (cases "snd (q_mark_sending sample_ops (calm 5) 3 (queue_of s))") auto
  then obtain s1 where s1: "step True sample_ops sample_chrono sample_inner (Claim (calm 5)) s = Some s1"
    "phase_of s1 = Acquiring (from_new hello 1 3) [] 0" "flight s1 = []"
    using s by (simp add: claimed_def)
  from dq.step_store [OF sample_reach_inv(1) [OF s(1)] sample_params _ s1(1)] v s(2)
  have v1: "db_view sample_codec (queue_of s1) = [3 \<mapsto> set_mail_status 5 Sending None False None (from_new hello 1 3)]"
    by (simp add: upd_at_def)
  from reachable.next_step [OF s(1) _ s1(1)] have r1: "sample_reach s1" by simp
  have "step True sample_ops sample_chrono sample_inner Spawn s1 =
      Some (s1\<lparr>flight := [from_new hello 1 3], phase_of := Claiming [] 1\<rparr>)" using s1 by simp
  from reachable.next_step [OF r1 _ this] v1 show ?thesis by (intro exI) auto
qed

section \<open>Safety\<close>

text \<open>C1: At every moment of every run, under any interleaving of claims, deliveries, enqueues, faults
  of the queue, kills and restarts: at most \<open>concurrency\<close> deliveries are in flight, no mail is in
  flight twice, and every mail in flight is stored as \<open>Sending\<close> with the attempts and the content
  it was claimed with; the table stays well formed.\<close>

theorem deliveries_bounded_and_exclusive:
  assumes "reachable (action_ok I) dbg (sqlite_ops E) C I q0 s" and "db_inv E q0" and "params_ok C I"
    and "budget (max_attempts (retry (disp_config I))) (db_view E q0)"
  shows "length (flight s) \<le> concurrency (disp_config I) \<and> distinct (map id_of (flight s)) \<and>
     (\<forall>f \<in> set (flight s). \<exists>m. db_view E (queue_of s) (id_of f) = Some m \<and> status m = Sending \<and>
        attempts m = attempts f \<and> content m = content f) \<and>
     db_inv E (queue_of s)"
proof -
  from dq.reachable_inv [OF assms] have
    inv: "disp_inv (concurrency (disp_config I)) (db_view E (queue_of s)) (phase_of s) (flight s)"
    and q: "db_inv E (queue_of s)" by (simp_all add: sys_inv_def)
  from disp_invD(1,6) [OF inv] have "distinct (map id_of (flight s))"
    "length (flight s) \<le> concurrency (disp_config I)" by simp_all
  moreover have "\<exists>m. db_view E (queue_of s) (id_of f) = Some m \<and> status m = Sending \<and>
      attempts m = attempts f \<and> content m = content f" if "f \<in> set (flight s)" for f
    using disp_invD(2) [OF inv, of f] that by (simp add: claimed_as_def)
  ultimately show ?thesis using q by blast
qed

lemma sample_reach_any: "sample_reach s \<Longrightarrow> reachable (action_ok sample_inner) True sample_ops sample_chrono sample_inner one_mail s"
  by (induction rule: reachable.induct) (auto intro: reachable.init reachable.next_step)

theorem deliveries_bounded_and_exclusive_witness:
  "\<exists>s :: row list dstate. flight s = [from_new hello 1 3] \<and>
     (\<exists>m. db_view sample_codec (queue_of s) 3 = Some m \<and> status m = Sending)"
proof -
  from sample_flying obtain s where s: "sample_reach s" "flight s = [from_new hello 1 3]" by blast
  from deliveries_bounded_and_exclusive [OF sample_reach_any [OF s(1)] one_mail_inv
      sample_params sample_budget] s(2) show ?thesis by (intro exI [of _ s]) auto
qed

text \<open>C11: No mail is ever attempted more often than \<open>max_attempts\<close> allows: in every reachable state the
  attempt counter is at most \<open>max_attempts\<close>, and below it for every mail that can still be sent or
  is being sent, so that the 32-bit \<open>attempts + 1\<close> of a delivery never overflows.\<close>

theorem attempts_within_limit:
  assumes "reachable (action_ok I) dbg (sqlite_ops E) C I q0 s" and "db_inv E q0" and "params_ok C I"
    and "budget (max_attempts (retry (disp_config I))) (db_view E q0)"
    and "db_view E (queue_of s) i = Some m"
  shows "attempts m \<le> max_attempts (retry (disp_config I)) \<and>
     (status m \<in> {Pending, Failed, Sending} \<longrightarrow>
        attempts m < max_attempts (retry (disp_config I)) \<and>
        plain_add dbg (attempts m) 1 = Some (attempts m + 1))"
proof -
  from dq.reachable_inv [OF assms(1-4)] have
    b: "budget (max_attempts (retry (disp_config I))) (db_view E (queue_of s))" by (simp add: sys_inv_def)
  then have "attempts m \<le> max_attempts (retry (disp_config I))" using assms(5) by (simp add: budget_def)
  moreover have "attempts m < max_attempts (retry (disp_config I))"
    if "status m \<in> {Pending, Failed, Sending}"
    using budgetD [OF b assms(5)] that by (auto simp: terminal_def)
  ultimately show ?thesis using plain_add_one(1) by blast
qed

theorem attempts_within_limit_witness:
  "\<exists>(s :: row list dstate) m. flight s = [from_new hello 1 3] \<and> db_view sample_codec (queue_of s) 3 = Some m \<and> attempts m \<le> 5"
proof -
  from sample_flying obtain s where s: "sample_reach s" "flight s = [from_new hello 1 3]" by blast
  have inv: "disp_inv 8 (db_view sample_codec (queue_of s)) (phase_of s) (flight s)"
    using sample_reach_inv(2) [OF s(1)] by (simp add: sys_inv_def)
  from flight_nth [OF inv, of 0] s(2) obtain m where "db_view sample_codec (queue_of s) 3 = Some m" by auto
  with attempts_within_limit [OF sample_reach_any [OF s(1)] one_mail_inv sample_params sample_budget, of 3 m]
    s(2) show ?thesis by (intro exI [of _ s] exI [of _ m]) simp
qed

text \<open>C8: No step of the system loses a mail or alters its message: every stored mail stays stored
  with its id, sender, recipients, subject, body, requested transport and creation time, its
  attempt counter never decreases, and a mail that is \<open>Sent\<close> or \<open>Dead\<close> is never touched again.\<close>

theorem mails_never_lost_or_altered:
  assumes "reachable (action_ok I) dbg (sqlite_ops E) C I q0 s" and "db_inv E q0" and "params_ok C I"
    and "budget (max_attempts (retry (disp_config I))) (db_view E q0)"
    and "action_ok I a" and "step dbg (sqlite_ops E) C I a s = Some s'"
    and "db_view E (queue_of s) i = Some m"
  shows "\<exists>m'. db_view E (queue_of s') i = Some m' \<and> id_of m' = i \<and> from_addr m' = from_addr m \<and>
     to_addrs m' = to_addrs m \<and> subject m' = subject m \<and> body m' = body m \<and>
     transport m' = transport m \<and> created_at m' = created_at m \<and> attempts m \<le> attempts m' \<and>
     (status m \<in> {Sent, Dead} \<longrightarrow> m' = m)"
proof -
  from dq.reachable_inv [OF assms(1-4)] have q: "db_inv E (queue_of s)"
    and inv: "sys_inv I (db_view E (queue_of s)) s" by simp_all
  note N = dq.step_inv [OF q assms(3,5) inv assms(6)]
  from N(3) assms(7) obtain m' where m': "db_view E (queue_of s') i = Some m'" "content m' = content m"
    "attempts m \<le> attempts m'" "terminal m \<longrightarrow> m' = m" unfolding evolves_def by blast
  from sq.keyed [OF N(1) m'(1)] m' show ?thesis
    by (intro exI [of _ m']) (auto simp: content_def terminal_def)
qed

theorem mails_never_lost_or_altered_witness:
  "\<exists>s s' m'. step True sample_ops sample_chrono sample_inner (Fetch (calm 5)) s = Some s' \<and>
     db_view sample_codec (queue_of s') 3 = Some m' \<and> subject m' = ''hi''"
proof -
  from sample_claiming obtain s s' where s: "sample_reach s"
    "db_view sample_codec (queue_of s) = [3 \<mapsto> from_new hello 1 3]"
    "step True sample_ops sample_chrono sample_inner (Fetch (calm 5)) s = Some s'" by blast
  from mails_never_lost_or_altered [OF sample_reach_any [OF s(1)] one_mail_inv sample_params sample_budget _ s(3),
      of 3 "from_new hello 1 3"] s
  show ?thesis by (auto simp: hello_def simp del: step.simps)
qed

section \<open>Outcomes of deliveries\<close>

text \<open>C2: A finished delivery changes exactly its own mail, and as its outcome demands: without a
  transport of the requested (or default) name the mail is buried with the explanation; a
  success marks it sent and keeps the attempt counter; a failure counts an attempt and buries the
  mail when this was the last one allowed, or schedules it for the present time plus the backoff
  of its attempts; a panicking transport leaves it in flight. The branch is the transport's answer
  to this very mail.\<close>

theorem delivery_outcome:
  assumes "reachable (action_ok I) dbg (sqlite_ops E) C I q0 s" and "db_inv E q0" and "params_ok C I"
    and "budget (max_attempts (retry (disp_config I))) (db_view E q0)"
    and "k < length (flight s)" and "denv_ok I env" and "io_fault (d_io env) = None"
  shows "\<exists>s' m. step dbg (sqlite_ops E) C I (Finish k env) s = Some s' \<and>
     db_view E (queue_of s) (id_of (flight s ! k)) = Some m \<and>
     db_view E (queue_of s') = (db_view E (queue_of s))(id_of (flight s ! k) \<mapsto>
       (case pick_transport I (flight s ! k) of
          None \<Rightarrow> m\<lparr>status := Dead, updated_at := io_now (d_io env), attempts := attempts m + 1,
                   last_error := Some (no_transport_message (flight s ! k) (disp_default I))\<rparr>
        | Some (n, tr) \<Rightarrow>
            (case tr_send tr (d_net env) (flight s ! k) of
               None \<Rightarrow> m
             | Some (Inr _) \<Rightarrow> m\<lparr>status := Sent, updated_at := io_now (d_io env), last_error := None\<rparr>
             | Some (Inl err) \<Rightarrow>
                 (if unat (attempts m) + 1 = unat (max_attempts (retry (disp_config I)))
                  then m\<lparr>status := Dead, updated_at := io_now (d_io env), attempts := attempts m + 1,
                         last_error := Some (core_error_to_string err)\<rparr>
                  else m\<lparr>status := Failed, updated_at := io_now (d_io env), attempts := attempts m + 1,
                         last_error := Some (core_error_to_string err),
                         next_attempt_at := d_now env +
                           int (dur_nanos (backoff (retry (disp_config I)) (attempts m + 1)))\<rparr>))))"
proof -
  let ?f = "flight s ! k"
  from dq.reachable_inv [OF assms(1-4)] have q: "db_inv E (queue_of s)"
    and inv: "disp_inv (concurrency (disp_config I)) (db_view E (queue_of s)) (phase_of s) (flight s)"
    and b: "budget (max_attempts (retry (disp_config I))) (db_view E (queue_of s))"
    by (simp_all add: sys_inv_def)
  from flight_nth [OF inv assms(5)] obtain m where m: "db_view E (queue_of s) (id_of ?f) = Some m"
    "claimed_as ?f m" "\<not> terminal m" .
  from m(2) have af: "attempts ?f = attempts m" by (simp add: claimed_as_def)
  with budgetD [OF b m(1,3)] have bf: "attempts ?f < max_attempts (retry (disp_config I))" by simp
  obtain s' where st: "step dbg (sqlite_ops E) C I (Finish k env) s = Some s'" using assms(5) by simp
  have a: "action_ok I (Finish k env)" using assms(6) by simp
  note R = retry_at_exact [OF params_okD(1) [OF assms(3)] assms(6) params_okD(2) [OF assms(3)]]
  from dq.step_store [OF q assms(3) a st] m(1) assms(7) have
    "db_view E (queue_of s') = (db_view E (queue_of s))(id_of ?f \<mapsto>
       mark_mail (io_now (d_io env)) (delivery_mark dbg C I env ?f) m)"
    by (simp add: upd_at_def)
  moreover have "mark_mail (io_now (d_io env)) (delivery_mark dbg C I env ?f) m =
      (case pick_transport I ?f of
          None \<Rightarrow> m\<lparr>status := Dead, updated_at := io_now (d_io env), attempts := attempts m + 1,
                   last_error := Some (no_transport_message ?f (disp_default I))\<rparr>
        | Some (n, tr) \<Rightarrow>
            (case tr_send tr (d_net env) ?f of
               None \<Rightarrow> m
             | Some (Inr _) \<Rightarrow> m\<lparr>status := Sent, updated_at := io_now (d_io env), last_error := None\<rparr>
             | Some (Inl err) \<Rightarrow>
                 (if unat (attempts m) + 1 = unat (max_attempts (retry (disp_config I)))
                  then m\<lparr>status := Dead, updated_at := io_now (d_io env), attempts := attempts m + 1,
                         last_error := Some (core_error_to_string err)\<rparr>
                  else m\<lparr>status := Failed, updated_at := io_now (d_io env), attempts := attempts m + 1,
                         last_error := Some (core_error_to_string err),
                         next_attempt_at := d_now env +
                           int (dur_nanos (backoff (retry (disp_config I)) (attempts m + 1)))\<rparr>)))"
    unfolding delivery_mark_cases [OF assms(3,6) bf] exchange_of_def af R
    by (simp add: set_mail_status_def split: option.split sum.split prod.split)
  ultimately show ?thesis using st m(1) by (intro exI [of _ s'] exI [of _ m]) (simp only:)
qed

theorem delivery_outcome_witness:
  "\<exists>s s'. step True sample_ops sample_chrono sample_inner (Finish 0 (sample_env True 7)) s = Some s' \<and>
     map_option status (db_view sample_codec (queue_of s') 3) = Some Sent"
proof -
  from sample_flying obtain s where s: "sample_reach s" "flight s = [from_new hello 1 3]" by blast
  from delivery_outcome [OF sample_reach_any [OF s(1)] one_mail_inv sample_params sample_budget,
      of 0 "sample_env True 7"] s(2)
  obtain s' m where "step True sample_ops sample_chrono sample_inner (Finish 0 (sample_env True 7)) s = Some s'"
    "db_view sample_codec (queue_of s') = (db_view sample_codec (queue_of s))
       (3 \<mapsto> m\<lparr>status := Sent, updated_at := 7, last_error := None\<rparr>)"
    by (auto simp: sample_pick sample_transport_def simp del: step.simps)
  then show ?thesis by (intro exI [of _ s] exI [of _ s']) simp
qed

text \<open>C10: A mail is \<open>Sent\<close> only if a transport has accepted it: in every reachable state a mail stored as
  \<open>Sent\<close> was so in the initial table, or the log of exchanges has a successful one for its id.\<close>

theorem sent_means_delivered:
  assumes "reachable (action_ok I) dbg (sqlite_ops E) C I q0 s" and "db_inv E q0" and "params_ok C I"
    and "budget (max_attempts (retry (disp_config I))) (db_view E q0)"
    and "db_view E (queue_of s) i = Some m" and "status m = Sent"
  shows "(\<exists>m0. db_view E q0 i = Some m0 \<and> status m0 = Sent) \<or>
     (\<exists>n. (i, Some (n, Some (Inr ()))) \<in> set (sends s))"
proof -
  have "(\<exists>m0. db_view E q0 i = Some m0 \<and> status m0 = Sent) \<or> 0 < successes i (sends s)"
    using dq.reachable_sent [OF assms(1-4) _ assms(5,6)] by simp
  moreover have "\<exists>n. (i, Some (n, Some (Inr ()))) \<in> set (sends s)" if "0 < successes i (sends s)"
    using that by (auto simp: successes_def success_def filter_empty_conv)
  ultimately show ?thesis by blast
qed

theorem sent_means_delivered_witness:
  "\<exists>(s :: row list dstate) n. (3, Some (n, Some (Inr ()))) \<in> set (sends s)"
proof -
  from sample_flying obtain s where s: "sample_reach s" "flight s = [from_new hello 1 3]" by blast
  let ?a = "Finish 0 (sample_env True 7)"
  have mk: "delivery_mark True sample_chrono sample_inner (sample_env True 7) (from_new hello 1 3) = Some MSent"
    by (simp add: delivery_mark_def sample_pick sample_transport_def)
  obtain s' where st: "step True sample_ops sample_chrono sample_inner ?a s = Some s'" using s by simp
  have inv: "disp_inv 8 (db_view sample_codec (queue_of s)) (phase_of s) (flight s)"
    using sample_reach_inv(2) [OF s(1)] by (simp add: sys_inv_def)
  from flight_nth [OF inv, of 0] s(2) obtain m where m: "db_view sample_codec (queue_of s) 3 = Some m" by auto
  from dq.step_store [OF sample_reach_inv(1) [OF s(1)] sample_params _ st] s(2) m
  have v: "db_view sample_codec (queue_of s') 3 = Some (set_mail_status 7 Sent None False None m)"
    by (simp add: upd_at_same mk)
  have r: "reachable (action_ok sample_inner) True sample_ops sample_chrono sample_inner one_mail s'"
    by (rule reachable.next_step [OF sample_reach_any [OF s(1)] _ st]) simp
  from sent_means_delivered [OF r one_mail_inv sample_params sample_budget v] show ?thesis
    by (auto simp: one_mail_view)
qed

text \<open>C9: As long as the queue records the outcome of every delivery and the process is not killed, no
  mail is delivered twice: the log has at most one successful exchange per mail, whatever else
  fails, panics or is retried, and after it the mail is \<open>Sent\<close>.\<close>

theorem delivered_at_most_once:
  assumes "reachable (\<lambda>a. action_ok I a \<and> calm_action a) dbg (sqlite_ops E) C I q0 s"
    and "db_inv E q0" and "params_ok C I"
    and "budget (max_attempts (retry (disp_config I))) (db_view E q0)"
  shows "successes i (sends s) \<le> 1 \<and>
     (0 < successes i (sends s) \<longrightarrow> (\<exists>m. db_view E (queue_of s) i = Some m \<and> status m = Sent))"
  using dq.reachable_once [OF assms, of i] by auto

theorem delivered_at_most_once_witness:
  "\<exists>s :: row list dstate. flight s = [from_new hello 1 3] \<and> successes 3 (sends s) \<le> 1"
proof -
  from sample_flying obtain s where s: "sample_reach s" "flight s = [from_new hello 1 3]" by blast
  from delivered_at_most_once [OF s(1) one_mail_inv sample_params sample_budget, of 3] s(2)
  show ?thesis by blast
qed

text \<open>C12: Over every run, through all ticks, reclaims, faults and kills, the exchanges of a mail that fail,
  together with the attempts it was stored with at the start, are at most \<open>max_attempts\<close> plus the number
  of steps that can lose the record of an outcome: a kill, or a fault of the queue while a delivery
  is recorded. Without such steps they are at most \<open>max_attempts\<close>.\<close>

theorem failed_sends_bounded:
  assumes "steps dbg (sqlite_ops E) C I as (start q0) = Some s" and "\<forall>a \<in> set as. action_ok I a"
    and "db_inv E q0" and "params_ok C I"
    and "budget (max_attempts (retry (disp_config I))) (db_view E q0)"
  shows "failures i (sends s) + (case db_view E q0 i of None \<Rightarrow> 0 | Some m \<Rightarrow> unat (attempts m))
     \<le> unat (max_attempts (retry (disp_config I))) +
       length (filter (\<lambda>a. case a of Kill lost \<Rightarrow> True | Finish k env \<Rightarrow> io_fault (d_io env) \<noteq> None | _ \<Rightarrow> False) as)"
proof -
  have calm: "(case a of Kill lost \<Rightarrow> True | Finish k env \<Rightarrow> io_fault (d_io env) \<noteq> None | _ \<Rightarrow> False) =
      (\<not> calm_action a)" for a :: "'a action" by (cases a) simp_all
  from dq.reachable_inv [OF reachable.init assms(3-5)] have
    q: "db_inv E (queue_of (start q0))" "sys_inv I (db_view E (queue_of (start q0))) (start q0)" by simp_all
  from dq.steps_inv [OF assms(1,4,2) q] have
    "budget (max_attempts (retry (disp_config I))) (db_view E (queue_of s))" by (simp add: sys_inv_def)
  from dq.steps_failures [OF assms(1) q(1) assms(4) q(2) assms(2), of i] attempts_at_budget [OF this, of i]
  show ?thesis unfolding calm by (simp add: start_def attempts_at_def)
qed

theorem failed_sends_bounded_witness:
  "\<exists>as (s :: row list dstate). steps True sample_ops sample_chrono sample_inner as (start one_mail) = Some s \<and>
     flight s = [from_new hello 1 3] \<and> failures 3 (sends s) \<le> 5"
proof -
  from sample_flying obtain s where s: "sample_reach s" "flight s = [from_new hello 1 3]" by blast
  from reachable_steps [OF s(1)] obtain as where
    as: "steps True sample_ops sample_chrono sample_inner as (start one_mail) = Some s"
    "\<forall>a \<in> set as. action_ok sample_inner a \<and> calm_action a" by blast
  have none: "filter (\<lambda>a. case a of Kill lost \<Rightarrow> True | Finish k env \<Rightarrow> io_fault (d_io env) \<noteq> None | _ \<Rightarrow> False) as = []"
    unfolding filter_empty_conv using as(2) by (auto split: action.splits)
  from as(2) have "\<forall>a \<in> set as. action_ok sample_inner a" by blast
  from failed_sends_bounded [OF as(1) this one_mail_inv sample_params sample_budget, of 3] none
  have "failures 3 (sends s) \<le> 5" by simp
  with as(1) s(2) show ?thesis by blast
qed

text \<open>No mail is given up early, whatever is killed, lost or retried in between: a mail that has become
  \<open>Dead\<close> in a run had no transport for it, or the exchanges with its transport that failed in this
  run, with the attempts it was stored with at the start, are at least \<open>max_attempts\<close>.\<close>

lemma given_up_only_when_exhausted:
  assumes "reachable (action_ok I) dbg (sqlite_ops E) C I q0 s" and "db_inv E q0" and "params_ok C I"
    and "budget (max_attempts (retry (disp_config I))) (db_view E q0)"
    and "db_view E (queue_of s) i = Some m" and "status m = Dead" and "db_view E q0 i \<noteq> Some m"
  shows "(i, None) \<in> set (sends s) \<or>
     unat (max_attempts (retry (disp_config I)))
       \<le> (case db_view E q0 i of None \<Rightarrow> 0 | Some m0 \<Rightarrow> unat (attempts m0)) + failures i (sends s)"
  using dq.reachable_burial [OF assms(1-4) _ assms(5)] assms(6,7) by auto

section \<open>Recovery and progress\<close>

text \<open>C15: A kill at any moment, also between an exchange and the record of its outcome, followed by a
  restart, leaves no mail claimed: every mail that was in flight (and every other one stored as \<open>Sending\<close>) is pending again with its attempts and its
  content, the other mails are unchanged, and the loop polls.\<close>

theorem crash_recovery:
  assumes "reachable (action_ok I) dbg (sqlite_ops E) C I q0 s" and "db_inv E q0" and "params_ok C I"
    and "budget (max_attempts (retry (disp_config I))) (db_view E q0)"
    and "ts_ok (io_now io)" and "io_fault io = None"
    and "distinct (map fst lost) \<and> (\<forall>(k, env) \<in> set lost. k < length (flight s))"
    and "poll_interval (disp_config I) \<noteq> from_secs 0"
  shows "\<exists>s'. steps dbg (sqlite_ops E) C I [Kill lost, Recover io] s = Some s' \<and> phase_of s' = Polling \<and>
     flight s' = [] \<and>
     (\<forall>i. db_view E (queue_of s') i =
        map_option (\<lambda>m. if status m = Sending then m\<lparr>status := Pending, updated_at := io_now io\<rparr> else m)
          (db_view E (queue_of s) i)) \<and>
     (\<forall>f \<in> set (flight s). \<exists>m. db_view E (queue_of s') (id_of f) = Some m \<and> status m = Pending \<and>
        attempts m = attempts f \<and> content m = content f)"
proof -
  from dq.reachable_inv [OF assms(1-4)] have q: "db_inv E (queue_of s)"
    and inv: "disp_inv (concurrency (disp_config I)) (db_view E (queue_of s)) (phase_of s) (flight s)"
    by (simp_all add: sys_inv_def)
  obtain s' where st: "steps dbg (sqlite_ops E) C I [Kill lost, Recover io] s = Some s'" "phase_of s' = Polling" "flight s' = []"
    and v: "db_view E (queue_of s') = requeue_store (io_now io) (\<lambda>_. True) (db_view E (queue_of s))"
    by (rule dq.kill_recover [OF q assms(5-8)])
  have "\<exists>m. db_view E (queue_of s') (id_of f) = Some m \<and> status m = Pending \<and>
        attempts m = attempts f \<and> content m = content f" if "f \<in> set (flight s)" for f
    using disp_invD(2) [OF inv, of f] that by (auto simp: v requeue_store_def claimed_as_def)
  moreover have "\<forall>i. db_view E (queue_of s') i =
      map_option (\<lambda>m. if status m = Sending then m\<lparr>status := Pending, updated_at := io_now io\<rparr> else m)
        (db_view E (queue_of s) i)"
    unfolding v requeue_store_def requeued_def by simp
  ultimately show ?thesis using st by blast
qed

theorem crash_recovery_witness:
  "\<exists>s s' m. flight s = [from_new hello 1 3] \<and>
     steps True sample_ops sample_chrono sample_inner [Kill [(0, sample_env True 7)], Recover (calm 7)] s = Some s' \<and>
     db_view sample_codec (queue_of s') 3 = Some m \<and> status m = Pending"
proof -
  from sample_flying obtain s where s: "sample_reach s" "flight s = [from_new hello 1 3]" by blast
  from crash_recovery [OF sample_reach_any [OF s(1)] one_mail_inv sample_params sample_budget, of "calm 7" "[(0, sample_env True 7)]"] s(2)
  obtain s' where "steps True sample_ops sample_chrono sample_inner [Kill [(0, sample_env True 7)], Recover (calm 7)] s = Some s'"
    "\<exists>m. db_view sample_codec (queue_of s') 3 = Some m \<and> status m = Pending"
    by (auto simp del: steps.simps)
  with s(2) show ?thesis by blast
qed

text \<open>C16: A kill can repeat a delivery, so that the relay delivers at least once and not exactly once. When
  the process is killed after a transport accepted a mail that is due and before the record of it,
  then, if the queue works and the transports accept every unfinished mail, the restarted relay has a
  run that delivers the mail again, with two more successful exchanges for it in the log. The
  guarantee of a single delivery needs its hypothesis that no record is lost.\<close>

theorem killed_delivery_is_repeated:
  assumes "reachable (action_ok I) dbg (sqlite_ops E) C I q0 s" and "db_inv E q0" and "params_ok C I"
    and "budget (max_attempts (retry (disp_config I))) (db_view E q0)"
    and "k < length (flight s)" and "success (exchange_of I env0 (flight s ! k))"
    and "\<And>m. db_view E (queue_of s) (id_of (flight s ! k)) = Some m \<Longrightarrow> next_attempt_at m \<le> now"
    and "0 < concurrency (disp_config I)" and "concurrency (disp_config I) \<le> max_permits"
    and "0 < batch_size (disp_config I)" and "poll_interval (disp_config I) \<noteq> from_secs 0"
    and "action_ok I (Reclaim now io)" and "io_fault io = None" and "denv_ok I env" and "io_fault (d_io env) = None"
    and "\<And>i m m'. db_view E (queue_of s) i = Some m \<Longrightarrow> status m \<notin> {Sent, Dead} \<Longrightarrow> content m' = content m \<Longrightarrow>
           success (exchange_of I env m')"
  shows "\<exists>as s'. steps dbg (sqlite_ops E) C I (Kill [(k, env0)] # Recover io # as) s = Some s' \<and>
     successes (id_of (flight s ! k)) (sends s) + 2 \<le> successes (id_of (flight s ! k)) (sends s')"
proof -
  from dq.reachable_inv [OF assms(1-4)] have inv: "db_inv E (queue_of s)" "sys_inv I (db_view E (queue_of s)) s" by simp_all
  have acc: "\<forall>i m m'. db_view E (queue_of s) i = Some m \<and> \<not> terminal m \<and> content m' = content m \<longrightarrow>
      success (exchange_of I env m')"
    using assms(16) by (auto simp: terminal_def)
  from dq.killed_delivery_repeats [OF inv assms(3,5-15) acc] show ?thesis .
qed

lemma sample_accepts:
  assumes "content m' = content (from_new hello 1 3)"
  shows "success (exchange_of sample_inner (sample_env True 7) m')"
  using assms by (auto simp: content_def exchange_of_def pick_transport_def hello_def sample_inner_def
      dispatcher_new_def hm_get_def sample_transport_def)

theorem killed_delivery_is_repeated_witness:
  "\<exists>as (s :: row list dstate) s'. flight s = [from_new hello 1 3] \<and>
     steps True sample_ops sample_chrono sample_inner (Kill [(0, sample_env True 7)] # Recover (calm 1) # as) s = Some s' \<and>
     2 \<le> successes 3 (sends s')"
proof -
  from sample_flying obtain s where s: "sample_reach s" "flight s = [from_new hello 1 3]"
    and v: "db_view sample_codec (queue_of s) = [3 \<mapsto> set_mail_status 5 Sending None False None (from_new hello 1 3)]" by blast
  have "\<exists>as s'. steps True sample_ops sample_chrono sample_inner (Kill [(0, sample_env True 7)] # Recover (calm 1) # as) s = Some s' \<and>
     successes (id_of (flight s ! 0)) (sends s) + 2 \<le> successes (id_of (flight s ! 0)) (sends s')" (is "\<exists>as s'. ?run as s' \<and> ?two s'")
    by (rule killed_delivery_is_repeated [OF sample_reach_any [OF s(1)] one_mail_inv sample_params sample_budget _ _ _ _ _ _ _
          sample_reclaim_ok _ sample_denv [of True]])
      (use s(2) v sample_accepts in \<open>auto simp: max_permits_def split: if_splits\<close>)
  then obtain as s' where "?run as s'" "?two s'" by blast
  with s(2) show ?thesis by (intro exI [of _ as] exI [of _ s] exI [of _ s']) (simp del: steps.simps)
qed

text \<open>C17: A tick terminates: once mails are fetched, every step of the claim loop, of a delivery and of
  the final join decreases a measure (three per mail to claim, two for the one waiting for a
  permit, one per delivery in flight), and with at least one permit there is always such a step,
  so that within that many steps the loop is back at polling, whatever clock, queue and network
  answer.\<close>

theorem tick_terminates:
  assumes "0 < concurrency (disp_config I)"
  shows "(\<forall>a s'. tick_action a \<and> step dbg (sqlite_ops E) C I a s = Some s' \<longrightarrow>
            tick_measure s' < tick_measure s) \<and>
     (ticking (phase_of s) \<longrightarrow>
        (\<exists>as s'. set as \<subseteq> {Claim io, Spawn, Finish 0 env, Join} \<and> length as \<le> tick_measure s \<and>
           steps dbg (sqlite_ops E) C I as s = Some s' \<and> phase_of s' = Polling))"
  using tick_step_decreases tick_completes [OF _ assms] by blast

theorem tick_terminates_witness:
  "\<exists>as (s :: row list dstate) s'. phase_of s = Claiming [from_new hello 1 3] 0 \<and>
     steps True sample_ops sample_chrono sample_inner as s = Some s' \<and> phase_of s' = Polling"
proof -
  from sample_claiming obtain s :: "row list dstate" where
    s: "phase_of s = Claiming [from_new hello 1 3] 0" by blast
  from tick_terminates [of sample_inner True sample_codec sample_chrono s "calm 5" "sample_env True 7"] s
  show ?thesis by auto
qed

text \<open>A tick delivers what is due: when fewer mails are due than the batch holds, a tick in which
  the queue works, the process lives and the transports accept these mails marks every mail that
  was due when it fetched as \<open>Sent\<close> by the time the loop polls again, under every interleaving with
  deliveries and enqueues.\<close>

lemma tick_delivers_due_mails:
  assumes "reachable (action_ok I) dbg (sqlite_ops E) C I q0 s" and "db_inv E q0" and "params_ok C I"
    and "budget (max_attempts (retry (disp_config I))) (db_view E q0)"
    and "phase_of s = Fetching now" and "io_fault io = None"
    and "step dbg (sqlite_ops E) C I (Fetch io) s = Some s1" and "phase_of s1 = Claiming ms 0"
    and "length ms < unat (batch_size (disp_config I))"
    and "steps dbg (sqlite_ops E) C I as s1 = Some s2" and "\<forall>a \<in> set as. smooth I ms a"
    and "phase_of s2 = Polling"
    and "db_view E (queue_of s) i = Some m" and "status m \<in> {Pending, Failed}" and "next_attempt_at m \<le> now"
  shows "\<exists>m'. db_view E (queue_of s2) i = Some m' \<and> status m' = Sent"
proof -
  from dq.reachable_inv [OF assms(1-4)] have q: "db_inv E (queue_of s)"
    and inv: "sys_inv I (db_view E (queue_of s)) s" by simp_all
  then have d: "disp_inv (concurrency (disp_config I)) (db_view E (queue_of s)) (phase_of s) (flight s)"
    by (simp add: sys_inv_def)
  have "ts_ok now" by (rule disp_invD(7) [OF d assms(5)])
  from sq.fetch_ok [OF q this assms(6), of "batch_size (disp_config I)"] obtain ms' where
    f: "q_fetch_due (sqlite_ops E) io (batch_size (disp_config I)) now (queue_of s) = Inr ms'"
    and b: "due_batch (db_view E (queue_of s)) (batch_size (disp_config I)) now ms'" by blast
  from assms(5,7,8) f have ms': "ms' = ms" and qs: "queue_of s1 = queue_of s" "flight s1 = flight s"
    by (auto simp: fetched_def split: if_splits)
  have fl: "flight s1 = []" using disp_invD(5) [OF d] assms(5) qs by simp
  have "m \<in> set ms"
    using due_batch_complete [OF b sq.finite_store [OF q] _ _ assms(13)] sq.keyed [OF q] assms(9,14,15) ms'
    by (auto simp: due_def live_def)
  moreover have "id_of m = i" by (rule sq.keyed [OF q assms(13)])
  moreover have "action_ok I (Fetch io)" by simp
  note N = dq.step_inv [OF q assms(3) this inv assms(7)]
  ultimately show ?thesis
    using dq.smooth_tick_delivers [OF assms(10,3) N(1,2) assms(8) fl assms(11,12), of m] by simp
qed

text \<open>C18: The queue drains: under every schedule of ticks from polling to polling in which no mail arrives,
  the queue answers without faults, the process lives and the transports accept the unfinished
  mails, after as many completed ticks as there were unfinished mails every mail that was due is
  \<open>Sent\<close>, however small the batch. The reclaiming of stale mails may fail, and the ticks may be at any
  times from then on.\<close>

theorem queue_drains:
  assumes "reachable (action_ok I) dbg (sqlite_ops E) C I q0 s" and "db_inv E q0" and "params_ok C I"
    and "budget (max_attempts (retry (disp_config I))) (db_view E q0)"
    and "0 < batch_size (disp_config I)" and "phase_of s = Polling" and "phase_of s' = Polling"
    and "steps dbg (sqlite_ops E) C I as s = Some s'" and "\<forall>a \<in> set as. fair I now (db_view E (queue_of s)) a"
    and "length (processed s) + card {i. \<exists>m. db_view E (queue_of s) i = Some m \<and> status m \<notin> {Sent, Dead}}
           \<le> length (processed s')"
    and "db_view E (queue_of s) i = Some m" and "status m \<in> {Pending, Failed}" and "next_attempt_at m \<le> now"
  shows "\<exists>m'. db_view E (queue_of s') i = Some m' \<and> status m' = Sent \<and> content m' = content m"
proof -
  from dq.reachable_inv [OF assms(1-4)] have q: "db_inv E (queue_of s)"
    and inv: "sys_inv I (db_view E (queue_of s)) s" by simp_all
  have u: "{i. \<exists>m. db_view E (queue_of s) i = Some m \<and> status m \<notin> {Sent, Dead}} = unfinished (db_view E (queue_of s))"
    by (auto simp: unfinished_def terminal_def)
  have "due now m" using assms(12,13) by (auto simp: due_def live_def)
  from dq.ticks_deliver [OF assms(8,3,9,5) q inv assms(6,7) assms(10) [unfolded u] assms(11) this] show ?thesis .
qed

theorem queue_drains_witness:
  "\<exists>as (s :: row list dstate) s' m'. sample_reach s \<and>
     db_view sample_codec (queue_of s) 3 = Some (from_new hello 1 3) \<and>
     steps True sample_ops sample_chrono sample_inner as s = Some s' \<and>
     db_view sample_codec (queue_of s') 3 = Some m' \<and> status m' = Sent"
proof -
  from sample_idle obtain s where s: "sample_reach s" "phase_of s = Polling"
    and v: "db_view sample_codec (queue_of s) = [3 \<mapsto> from_new hello 1 3]" by blast
  let ?A = "{Reclaim 5 (calm 1), Fetch (calm 1), Claim (calm 1), Spawn, Finish 0 (sample_env True 7), Join}"
  obtain as s' where as: "set as \<subseteq> ?A" and run: "steps True sample_ops sample_chrono sample_inner as s = Some s'"
    "phase_of s' = Polling" "length (processed s') = length (processed s) + 1"
    using dq.ticks_exist [OF sample_reach_inv [OF s(1)] sample_params s(2) _ _ sample_reclaim_ok,
        of "sample_env True 7" True 1]
    by (auto simp: max_permits_def)
  have "\<forall>a \<in> ?A. fair sample_inner 5 (db_view sample_codec (queue_of s)) a"
    using sample_reclaim_ok sample_accepts by (auto simp: v simp del: action_ok.simps split: if_splits)
  with as have f: "\<forall>a \<in> set as. fair sample_inner 5 (db_view sample_codec (queue_of s)) a" by blast
  have c: "card {i. \<exists>m. db_view sample_codec (queue_of s) i = Some m \<and> status m \<notin> {Sent, Dead}} \<le> 1"
    by (rule order_trans [OF card_mono [of "{3}"]]) (auto simp: v split: if_splits)
  from queue_drains [OF sample_reach_any [OF s(1)] one_mail_inv sample_params sample_budget _ s(2) run(2,1) f, of 3]
    c run(3) v s(1) run(1) show ?thesis by fastforce
qed

end
