(* ===== verification/Ingress_Smtp.thy ===== *)
theory Ingress_Smtp
  imports Core_Config Core_Queue
begin

text \<open>
  Models \<open>crates/ingress-smtp/src/lib.rs\<close>: the shared \<open>Context\<close>, the per-connection \<open>RelayHandler\<close>
  with one definition per callback of mailin's \<open>Handler\<close> trait, the whitelist, the sender name
  taken from a subject, and \<open>serve\<close>. The record \<open>smtp_ext\<close> collects the third-party functions the
  file calls (std's and ipnet's address parsers, regex, mail-parser). A session is the sequence of
  callbacks mailin makes on one connection.
\<close>

section \<open>Third-party functions\<close>

record ('i, 'n, 'r, 'm) smtp_ext =
  parse_net :: "string \<Rightarrow> 'n option"
  parse_ip :: "string \<Rightarrow> 'i option"
  is_ipv4 :: "'i \<Rightarrow> bool"
  net_new :: "'i \<Rightarrow> nat \<Rightarrow> 'n option"
  net_contains :: "'n \<Rightarrow> 'i \<Rightarrow> bool"
  regex_new :: "string \<Rightarrow> string + 'r"
  captures :: "'r \<Rightarrow> string \<Rightarrow> (string \<Rightarrow> string option) option"
  msg_parse :: "string \<Rightarrow> 'm option"
  msg_subject :: "'m \<Rightarrow> string option"
  msg_body_text :: "'m \<Rightarrow> string option"
  utf8_lossy :: "string \<Rightarrow> string"

section \<open>Errors, context, handler\<close>

datatype ingress_error =
    IngressDisabled
  | IngressTls string
  | IngressBind string
  | IngressServe string

fun ingress_error_to_string :: "ingress_error \<Rightarrow> string" where
  "ingress_error_to_string IngressDisabled = ''smtp ingress is not configured''"
| "ingress_error_to_string (IngressTls s) = ''tls setup failed: '' @ s"
| "ingress_error_to_string (IngressBind s) = ''invalid bind address: '' @ s"
| "ingress_error_to_string (IngressServe s) = ''smtp server error: '' @ s"

record ('n, 'r) smtp_context =
  whitelist :: "'n list"
  ctx_auth :: auth_config
  anonymous_enabled :: bool
  ctx_subject :: subject_config
  subject_matcher :: "'r option"
  ctx_routing :: routing_config

record relay_handler =
  authenticated_as :: "string option"
  envelope_from :: string
  recipients :: "string list"
  data_buf :: string

definition handler_new :: relay_handler where
  "handler_new = \<lparr>authenticated_as = None, envelope_from = [], recipients = [], data_buf = []\<rparr>"

text \<open>The replies of mailin the file uses: its constants, and \<open>Response::custom\<close>.\<close>

datatype response =
    OK
  | AUTH_OK
  | INVALID_CREDENTIALS
  | TEMP_AUTH_FAILURE
  | AUTHENTICATION_REQUIRED
  | INTERNAL_ERROR
  | Custom u16 string

section \<open>Helpers\<close>

definition strip_brackets :: "string \<Rightarrow> string" where
  "strip_brackets raw = trim (trim_end_matches CHR ''>'' (trim_start_matches CHR ''<'' (trim raw)))"

fun parse_whitelist :: "('i, 'n, 'r, 'm) smtp_ext \<Rightarrow> string list \<Rightarrow> 'n list" where
  "parse_whitelist X [] = []"
| "parse_whitelist X (e # es) =
     (case parse_net X e of
        Some net \<Rightarrow> net # parse_whitelist X es
      | None \<Rightarrow>
          (case parse_ip X e of
             Some ip \<Rightarrow>
               (case net_new X ip (if is_ipv4 X ip then 32 else 128) of
                  Some net \<Rightarrow> net # parse_whitelist X es
                | None \<Rightarrow> parse_whitelist X es)
           | None \<Rightarrow> parse_whitelist X es))"

definition is_allowed :: "('i, 'n, 'r, 'm) smtp_ext \<Rightarrow> 'n list \<Rightarrow> 'i \<Rightarrow> bool" where
  "is_allowed X nets ip = list_ex (\<lambda>net. net_contains X net ip) nets"

definition extract_name :: "('i, 'n, 'r, 'm) smtp_ext \<Rightarrow> 'r option \<Rightarrow> string \<Rightarrow> string option" where
  "extract_name X matcher subj =
     Option.bind (Option.bind matcher (\<lambda>re. captures X re subj)) (\<lambda>caps. caps ''name'')"

definition compile_matcher :: "('i, 'n, 'r, 'm) smtp_ext \<Rightarrow> string option \<Rightarrow> 'r option" where
  "compile_matcher X pattern =
     Option.bind pattern (\<lambda>p. case regex_new X p of Inr re \<Rightarrow> Some re | Inl _ \<Rightarrow> None)"

definition context_of :: "('i, 'n, 'r, 'm) smtp_ext \<Rightarrow> config \<Rightarrow> ('n, 'r) smtp_context" where
  "context_of X c =
     \<lparr>whitelist = parse_whitelist X (ip_whitelist (cfg_security c)),
      ctx_auth = cfg_auth c,
      anonymous_enabled = anon_enabled (anonymous (cfg_auth c)),
      ctx_subject = cfg_subject c,
      subject_matcher = compile_matcher X (subject_match (anonymous (cfg_auth c))),
      ctx_routing = cfg_routing c\<rparr>"

section \<open>Callbacks\<close>

definition try_auth ::
  "(string \<Rightarrow> string option) \<Rightarrow> ('n, 'r) smtp_context \<Rightarrow> string \<Rightarrow> string \<Rightarrow> relay_handler \<Rightarrow>
   relay_handler \<times> response" where
  "try_auth env ctx user pw h =
     (case authenticate env (ctx_auth ctx) user pw of
        Inr (Some name) \<Rightarrow> (h\<lparr>authenticated_as := Some name\<rparr>, AUTH_OK)
      | Inr None \<Rightarrow> (h, INVALID_CREDENTIALS)
      | Inl _ \<Rightarrow> (h, TEMP_AUTH_FAILURE))"

definition build_new_mail ::
  "('i, 'n, 'r, 'm) smtp_ext \<Rightarrow> ('n, 'r) smtp_context \<Rightarrow> relay_handler \<Rightarrow> core_error + new_mail" where
  "build_new_mail X ctx h =
     (case msg_parse X (data_buf h) of
        None \<Rightarrow> Inl (InvalidMail ''could not parse message'')
      | Some parsed \<Rightarrow>
          (let original_subject = (case msg_subject X parsed of Some s \<Rightarrow> s | None \<Rightarrow> []);
               txt = (case msg_body_text X parsed of Some t \<Rightarrow> t | None \<Rightarrow> utf8_lossy X (data_buf h));
               frm = address_new (strip_brackets (envelope_from h));
               tos = map (\<lambda>a. address_new (strip_brackets a)) (recipients h);
               sender = (case authenticated_as h of
                           Some n \<Rightarrow> Some n
                         | None \<Rightarrow> extract_name X (subject_matcher ctx) original_subject);
               subj = (case sender of
                         Some name \<Rightarrow> render (ctx_subject ctx) name original_subject
                       | None \<Rightarrow> original_subject)
           in Inr \<lparr>nm_from = frm, nm_to = tos, nm_subject = subj, nm_body = txt, nm_transport = None\<rparr>))"

definition helo ::
  "('i, 'n, 'r, 'm) smtp_ext \<Rightarrow> ('n, 'r) smtp_context \<Rightarrow> 'i \<Rightarrow> relay_handler \<Rightarrow> relay_handler \<times> response" where
  "helo X ctx ip h =
     (if is_allowed X (whitelist ctx) ip then (h, OK) else (h, Custom 421 ''Service not available''))"

definition mail_from ::
  "('i, 'n, 'r, 'm) smtp_ext \<Rightarrow> ('n, 'r) smtp_context \<Rightarrow> 'i \<Rightarrow> string \<Rightarrow> relay_handler \<Rightarrow>
   relay_handler \<times> response" where
  "mail_from X ctx ip frm h =
     (if \<not> is_allowed X (whitelist ctx) ip then (h, Custom 421 ''Service not available'')
      else (let h' = h\<lparr>envelope_from := frm, recipients := [], data_buf := []\<rparr>
            in if \<not> anonymous_enabled ctx \<and> authenticated_as h' = None then (h', AUTHENTICATION_REQUIRED)
               else (h', OK)))"

definition rcpt :: "string \<Rightarrow> relay_handler \<Rightarrow> relay_handler \<times> response" where
  "rcpt rcp h = (h\<lparr>recipients := recipients h @ [rcp]\<rparr>, OK)"

definition data_start :: "relay_handler \<Rightarrow> relay_handler \<times> response" where
  "data_start h = (h\<lparr>data_buf := []\<rparr>, OK)"

definition data :: "string \<Rightarrow> relay_handler \<Rightarrow> relay_handler" where
  "data buf h = h\<lparr>data_buf := data_buf h @ buf\<rparr>"

text \<open>The environment's part in accepting one target: the clock, the random id, the queue call.\<close>

record tenv =
  t_now :: datetime
  t_uuid :: mail_id
  t_io :: io

definition target_payload :: "new_mail \<Rightarrow> route_target \<Rightarrow> new_mail" where
  "target_payload new t =
     (let p = (if rt_transport t \<noteq> [] then new\<lparr>nm_transport := Some (rt_transport t)\<rparr> else new)
      in case rt_recipients t of Some rs \<Rightarrow> p\<lparr>nm_to := rs\<rparr> | None \<Rightarrow> p)"

text \<open>The loop over the targets; the \<open>k\<close>-th target meets the environment \<open>env k\<close>.\<close>

fun enqueue_targets ::
  "'q queue_ops \<Rightarrow> (nat \<Rightarrow> tenv) \<Rightarrow> new_mail \<Rightarrow> nat \<Rightarrow> route_target list \<Rightarrow> nat \<Rightarrow> 'q \<Rightarrow> nat \<times> 'q" where
  "enqueue_targets Q env new k [] accepted q = (accepted, q)"
| "enqueue_targets Q env new k (t # ts) accepted q =
     (case validate_mail (target_payload new t) of
        Inl _ \<Rightarrow> enqueue_targets Q env new (Suc k) ts accepted q
      | Inr _ \<Rightarrow>
          (case q_enqueue Q (t_io (env k)) (from_new (target_payload new t) (t_now (env k)) (t_uuid (env k))) q of
             (q', Inr _) \<Rightarrow> enqueue_targets Q env new (Suc k) ts (Suc accepted) q'
           | (q', Inl _) \<Rightarrow> enqueue_targets Q env new (Suc k) ts accepted q'))"

definition data_end ::
  "('i, 'n, 'r, 'm) smtp_ext \<Rightarrow> ('n, 'r) smtp_context \<Rightarrow> 'q queue_ops \<Rightarrow> (nat \<Rightarrow> tenv) \<Rightarrow> relay_handler \<Rightarrow>
   'q \<Rightarrow> 'q \<times> response" where
  "data_end X ctx Q env h q =
     (case build_new_mail X ctx h of
        Inl err \<Rightarrow> (q, Custom 554 (''rejected: '' @ core_error_to_string err))
      | Inr new \<Rightarrow>
          (case (if is_active (ctx_routing ctx) then resolve (ctx_routing ctx) (email (nm_from new))
                 else Deliver [\<lparr>rt_transport = [], rt_recipients = None\<rparr>]) of
             Reject \<Rightarrow> (q, Custom 550 ''sender not permitted'')
           | Deliver targets \<Rightarrow>
               (case enqueue_targets Q env new 0 targets 0 q of
                  (accepted, q') \<Rightarrow> (q', if accepted = 0 then INTERNAL_ERROR else OK))))"

definition auth_plain ::
  "(string \<Rightarrow> string option) \<Rightarrow> ('n, 'r) smtp_context \<Rightarrow> string \<Rightarrow> string \<Rightarrow> string \<Rightarrow> relay_handler \<Rightarrow>
   relay_handler \<times> response" where
  "auth_plain env ctx authorization_id authentication_id pw h = try_auth env ctx authentication_id pw h"

definition auth_login ::
  "(string \<Rightarrow> string option) \<Rightarrow> ('n, 'r) smtp_context \<Rightarrow> string \<Rightarrow> string \<Rightarrow> relay_handler \<Rightarrow>
   relay_handler \<times> response" where
  "auth_login env ctx user pw h = try_auth env ctx user pw h"

section \<open>Serving\<close>

text \<open>\<open>ssl\<close>, \<open>addr\<close> and \<open>run\<close> are what mailin's \<open>with_ssl\<close>, \<open>with_addr\<close> and \<open>serve\<close> answer.\<close>

definition configured_server ::
  "(string + unit) \<Rightarrow> string \<Rightarrow> ('n, 'r) smtp_context \<Rightarrow>
   ingress_error + (string \<times> ('n, 'r) smtp_context \<times> relay_handler)" where
  "configured_server ssl hn ctx =
     res_bind (map_err IngressTls ssl) (\<lambda>_. Inr (hn, ctx, handler_new))"

definition serve ::
  "('i, 'n, 'r, 'm) smtp_ext \<Rightarrow> (string + unit) \<Rightarrow> (string \<Rightarrow> string + unit) \<Rightarrow>
   ((string \<times> ('n, 'r) smtp_context \<times> relay_handler) \<Rightarrow> string + unit) \<Rightarrow> config \<Rightarrow> ingress_error + unit" where
  "serve X ssl addr run c =
     (case ingress_smtp (cfg_ingress c) of
        None \<Rightarrow> Inl IngressDisabled
      | Some s \<Rightarrow>
          res_bind (configured_server ssl (hostname s) (context_of X c)) (\<lambda>server.
          res_bind (map_err IngressBind (addr (bind_addr s))) (\<lambda>_.
          map_err IngressServe (run server))))"

definition serve_with_listener ::
  "('i, 'n, 'r, 'm) smtp_ext \<Rightarrow> (string + unit) \<Rightarrow>
   ((string \<times> ('n, 'r) smtp_context \<times> relay_handler) \<Rightarrow> string + unit) \<Rightarrow> config \<Rightarrow> ingress_error + unit" where
  "serve_with_listener X ssl run c =
     (case ingress_smtp (cfg_ingress c) of
        None \<Rightarrow> Inl IngressDisabled
      | Some s \<Rightarrow>
          res_bind (configured_server ssl (hostname s) (context_of X c)) (\<lambda>server.
          map_err IngressServe (run server)))"

section \<open>Sessions\<close>

text \<open>One connection from \<open>ip\<close>: the callbacks mailin makes, in order.\<close>

datatype command =
    Helo
  | MailFrom string
  | Rcpt string
  | DataStart
  | Data string
  | DataEnd "nat \<Rightarrow> tenv"
  | AuthPlain string string string
  | AuthLogin string string

fun handle ::
  "(string \<Rightarrow> string option) \<Rightarrow> ('i, 'n, 'r, 'm) smtp_ext \<Rightarrow> ('n, 'r) smtp_context \<Rightarrow> 'q queue_ops \<Rightarrow> 'i \<Rightarrow>
   command \<Rightarrow> relay_handler \<times> 'q \<Rightarrow> (relay_handler \<times> 'q) \<times> response option" where
  "handle ev X ctx Q ip Helo (h, q) = (case helo X ctx ip h of (h', r) \<Rightarrow> ((h', q), Some r))"
| "handle ev X ctx Q ip (MailFrom f) (h, q) = (case mail_from X ctx ip f h of (h', r) \<Rightarrow> ((h', q), Some r))"
| "handle ev X ctx Q ip (Rcpt t) (h, q) = (case rcpt t h of (h', r) \<Rightarrow> ((h', q), Some r))"
| "handle ev X ctx Q ip DataStart (h, q) = (case data_start h of (h', r) \<Rightarrow> ((h', q), Some r))"
| "handle ev X ctx Q ip (Data b) (h, q) = ((data b h, q), None)"
| "handle ev X ctx Q ip (DataEnd env) (h, q) = (case data_end X ctx Q env h q of (q', r) \<Rightarrow> ((h, q'), Some r))"
| "handle ev X ctx Q ip (AuthPlain z u p) (h, q) = (case auth_plain ev ctx z u p h of (h', r) \<Rightarrow> ((h', q), Some r))"
| "handle ev X ctx Q ip (AuthLogin u p) (h, q) = (case auth_login ev ctx u p h of (h', r) \<Rightarrow> ((h', q), Some r))"

text \<open>What mailin documents: it calls \<open>data_end\<close> only in a transaction whose \<open>mail\<close> callback answered
  \<open>OK\<close>. \<open>opened\<close> tells whether one is open.\<close>

fun session ::
  "(string \<Rightarrow> string option) \<Rightarrow> ('i, 'n, 'r, 'm) smtp_ext \<Rightarrow> ('n, 'r) smtp_context \<Rightarrow> 'q queue_ops \<Rightarrow> 'i \<Rightarrow>
   bool \<Rightarrow> command list \<Rightarrow> relay_handler \<times> 'q \<Rightarrow> (relay_handler \<times> 'q) option" where
  "session ev X ctx Q ip opened [] s = Some s"
| "session ev X ctx Q ip opened (c # cs) s =
     (case handle ev X ctx Q ip c s of
        (s', r) \<Rightarrow>
          (case c of
             MailFrom f \<Rightarrow> session ev X ctx Q ip (r = Some OK) cs s'
           | DataEnd env \<Rightarrow> (if opened then session ev X ctx Q ip False cs s' else None)
           | Helo \<Rightarrow> session ev X ctx Q ip False cs s'
           | _ \<Rightarrow> session ev X ctx Q ip opened cs s'))"

section \<open>Facts\<close>

declare helo_def [relay_ops] mail_from_def [relay_ops] rcpt_def [relay_ops] data_start_def [relay_ops]
  data_def [relay_ops] auth_plain_def [relay_ops] auth_login_def [relay_ops]

lemma target_payload_simps [simp]:
  "nm_from (target_payload new t) = nm_from new"
  "nm_subject (target_payload new t) = nm_subject new"
  "nm_body (target_payload new t) = nm_body new"
  "nm_to (target_payload new t) = (case rt_recipients t of Some rs \<Rightarrow> rs | None \<Rightarrow> nm_to new)"
  "nm_transport (target_payload new t) =
     (if rt_transport t \<noteq> [] then Some (rt_transport t) else nm_transport new)"
  by (simp_all add: target_payload_def Let_def split: option.split)

lemma build_new_mail_from:
  "build_new_mail X ctx h = Inr new \<Longrightarrow>
     nm_from new = address_new (strip_brackets (envelope_from h)) \<and> nm_transport new = None"
  by (auto simp: build_new_mail_def Let_def split: option.splits)

text \<open>The mails the loop over the targets stores, given the store it starts from.\<close>

fun stored :: "(nat \<Rightarrow> tenv) \<Rightarrow> new_mail \<Rightarrow> nat \<Rightarrow> route_target list \<Rightarrow> store \<Rightarrow> mail list" where
  "stored env new k [] M = []"
| "stored env new k (t # ts) M =
     (let m = from_new (target_payload new t) (t_now (env k)) (t_uuid (env k))
      in if validate_mail (target_payload new t) = Inr () \<and> io_fault (t_io (env k)) = None \<and> M (id_of m) = None
         then m # stored env new (Suc k) ts (M(id_of m \<mapsto> m))
         else stored env new (Suc k) ts M)"

lemma stored_fresh:
  "m \<in> set (stored env new k ts M) \<Longrightarrow> M (id_of m) = None"
proof (induction ts arbitrary: k M)
  case (Cons t ts)
  let ?m = "from_new (target_payload new t) (t_now (env k)) (t_uuid (env k))"
  from Cons.prems consider "m = ?m" "M (id_of ?m) = None"
    | "m \<in> set (stored env new (Suc k) ts (M(id_of ?m \<mapsto> ?m)))" | "m \<in> set (stored env new (Suc k) ts M)"
    by (auto simp: Let_def split: if_splits)
  then show ?case
  proof cases
    case 2
    from Cons.IH [OF this] show ?thesis by (simp split: if_splits)
  qed (use Cons.IH in simp_all)
qed simp

lemma stored_distinct: "distinct (map id_of (stored env new k ts M))"
proof (induction ts arbitrary: k M)
  case (Cons t ts)
  show ?case
    using Cons.IH stored_fresh [of _ env new "Suc k" ts]
    by (fastforce simp: Let_def)
qed simp

lemma stored_valid:
  "m \<in> set (stored env new k ts M) \<Longrightarrow>
     \<exists>j < length ts. m = from_new (target_payload new (ts ! j)) (t_now (env (k + j))) (t_uuid (env (k + j))) \<and>
       validate_mail (target_payload new (ts ! j)) = Inr ()"
proof (induction ts arbitrary: k M)
  case (Cons t ts)
  show ?case
  proof (cases "m = from_new (target_payload new t) (t_now (env k)) (t_uuid (env k)) \<and>
      validate_mail (target_payload new t) = Inr ()")
    case True
    then show ?thesis by (intro exI [of _ 0]) simp
  next
    case False
    with Cons.prems have "\<exists>M'. m \<in> set (stored env new (Suc k) ts M')"
      by (auto simp: Let_def split: if_splits)
    with Cons.IH obtain j where "j < length ts"
      "m = from_new (target_payload new (ts ! j)) (t_now (env (Suc k + j))) (t_uuid (env (Suc k + j)))"
      "validate_mail (target_payload new (ts ! j)) = Inr ()" by blast
    then show ?thesis by (intro exI [of _ "Suc j"]) simp
  qed
qed simp

text \<open>With fresh ids and no fault, exactly the targets that give a valid mail are stored.\<close>

lemma stored_all:
  assumes "\<And>j. k \<le> j \<Longrightarrow> j < k + length ts \<Longrightarrow> io_fault (t_io (env j)) = None"
    and "inj_on (\<lambda>j. t_uuid (env j)) {k..<k + length ts}"
    and "\<And>j. k \<le> j \<Longrightarrow> j < k + length ts \<Longrightarrow> M (t_uuid (env j)) = None"
  shows "stored env new k ts M =
     map (\<lambda>(j, t). from_new (target_payload new t) (t_now (env j)) (t_uuid (env j)))
       (filter (\<lambda>(j, t). validate_mail (target_payload new t) = Inr ()) (List.enumerate k ts))"
  using assms
proof (induction ts arbitrary: k M)
  case (Cons t ts)
  let ?m = "from_new (target_payload new t) (t_now (env k)) (t_uuid (env k))"
  have "M (id_of ?m) = None" "io_fault (t_io (env k)) = None" using Cons.prems(1,3) [of k] by simp_all
  moreover have inj: "inj_on (\<lambda>j. t_uuid (env j)) {Suc k..<Suc k + length ts}"
    by (rule inj_on_subset [OF Cons.prems(2)]) auto
  moreover have "(M(id_of ?m \<mapsto> ?m)) (t_uuid (env j)) = None" if "Suc k \<le> j" "j < Suc k + length ts" for j
    using Cons.prems(3) [of j] that inj_onD [OF Cons.prems(2), of j k] by auto
  moreover have "M (t_uuid (env j)) = None" "io_fault (t_io (env j)) = None"
    if "Suc k \<le> j" "j < Suc k + length ts" for j
    using Cons.prems(1,3) [of j] that by simp_all
  ultimately show ?case using Cons.IH [of "Suc k"] by (simp add: Let_def)
qed simp

text \<open>The ingress as a client of the queue's contract.\<close>

locale mail_intake = mail_queue
begin

lemma enqueue_one:
  assumes "ok q" and "ts_ok t"
  fixes new i
  defines "m \<equiv> from_new new t i"
  shows "if io_fault io = None \<and> view q i = None
         then \<exists>q'. q_enqueue Q io m q = (q', Inr m) \<and> ok q' \<and> view q' = (view q)(i \<mapsto> m)
         else \<exists>e. q_enqueue Q io m q = (q, Inl e)"
proof -
  have ts: "mail_ts_ok m" and i: "id_of m = i" using assms by simp_all
  show ?thesis
  proof (cases "io_fault io")
    case None
    with enqueue_new [OF assms(1) ts None] enqueue_dup [OF assms(1) ts None] i show ?thesis by auto
  next
    case (Some e)
    with enqueue_fault [OF assms(1) ts Some] show ?thesis by auto
  qed
qed

lemma enqueue_targets_view:
  assumes "ok q" and ts: "\<And>j. ts_ok (t_now (env j))"
  shows "\<exists>q'. enqueue_targets Q env new k targets n q = (n + length (stored env new k targets (view q)), q') \<and>
     ok q' \<and> view q' = view q ++ map_of (map (\<lambda>m. (id_of m, m)) (stored env new k targets (view q))) \<and>
     (stored env new k targets (view q) = [] \<longrightarrow> q' = q)"
  using assms(1)
proof (induction targets arbitrary: k n q)
  case (Cons t targets)
  let ?m = "from_new (target_payload new t) (t_now (env k)) (t_uuid (env k))"
  let ?stores = "validate_mail (target_payload new t) = Inr () \<and> io_fault (t_io (env k)) = None \<and>
      view q (t_uuid (env k)) = None"
  note one = enqueue_one [OF Cons.prems ts [of k], where new = "target_payload new t" and
      i = "t_uuid (env k)" and io = "t_io (env k)"]
  show ?case
  proof (cases ?stores)
    case True
    with one obtain q1 where q1: "q_enqueue Q (t_io (env k)) ?m q = (q1, Inr ?m)" "ok q1"
      "view q1 = (view q)(t_uuid (env k) \<mapsto> ?m)" by auto
    let ?ms = "stored env new (Suc k) targets (view q1)"
    from Cons.IH [OF q1(2), of "Suc k" "Suc n"] obtain q' where
      q': "enqueue_targets Q env new (Suc k) targets (Suc n) q1 = (Suc n + length ?ms, q')" "ok q'"
      "view q' = view q1 ++ map_of (map (\<lambda>m. (id_of m, m)) ?ms)" by blast
    have st: "stored env new k (t # targets) (view q) = ?m # ?ms" using True q1(3) by (simp add: Let_def)
    have veq: "view q1 ++ map_of (map (\<lambda>m. (id_of m, m)) ?ms) =
        view q ++ map_of (map (\<lambda>m. (id_of m, m)) (?m # ?ms))"
    proof
      fix j
      have "map_of (map (\<lambda>m. (id_of m, m)) ?ms) (t_uuid (env k)) = None"
        using stored_fresh [of _ env new "Suc k" targets "view q1"] q1(3)
        by (fastforce simp: map_of_eq_None_iff)
      then show "(view q1 ++ map_of (map (\<lambda>m. (id_of m, m)) ?ms)) j =
          (view q ++ map_of (map (\<lambda>m. (id_of m, m)) (?m # ?ms))) j"
        using q1(3) by (auto simp: map_add_def split: option.split)
    qed
    from True have "validate_mail (target_payload new t) = Inr ()" by (elim conjE)
    then have run: "enqueue_targets Q env new k (t # targets) n q = (Suc n + length ?ms, q')"
      by (simp only: enqueue_targets.simps sum.case prod.case q1(1) q'(1))
    show ?thesis
      unfolding st run
      by (intro exI [of _ q'] conjI q'(2) HOL.trans [OF q'(3) veq]) simp_all
  next
    case False
    then have st: "stored env new k (t # targets) (view q) = stored env new (Suc k) targets (view q)"
      unfolding stored.simps Let_def from_new_simps(1) by (rule if_not_P)
    have "enqueue_targets Q env new k (t # targets) n q = enqueue_targets Q env new (Suc k) targets n q"
    proof (cases "validate_mail (target_payload new t)")
      case (Inr u)
      with False one obtain e where "q_enqueue Q (t_io (env k)) ?m q = (q, Inl e)" by (auto split: if_splits)
      with Inr show ?thesis by (simp del: validate_mail_ok_iff)
    qed simp
    with st Cons.IH [OF Cons.prems, of "Suc k" n] show ?thesis by simp
  qed
qed simp

end

end
