(* ===== verification/Ingress_Properties.thy ===== *)
theory Ingress_Properties
  imports Ingress_Smtp Sqlite_Properties
begin

text \<open>
  The properties of the SMTP ingress in front of the SQLite queue. The witnesses use a concrete
  instance of the third-party functions: addresses and networks are their texts, a message is its
  first line (the subject) and its body, and a pattern is a keyword that must start the subject.
\<close>

interpretation iq: mail_intake "sqlite_ops E" "db_inv E" "db_view E" "uuid_to_string E" for E
  by (intro mail_intake.intro sq.mail_queue_axioms)

section \<open>A sample server\<close>

definition sample_ext :: "(string, string, string, string \<times> string) smtp_ext" where
  "sample_ext =
     \<lparr>parse_net = (\<lambda>e. if CHR ''/'' \<in> set e then Some e else None),
      parse_ip = (\<lambda>e. if e = [] then None else Some e), is_ipv4 = (\<lambda>_. True),
      net_new = (\<lambda>i p. if p \<le> 32 then Some i else None),
      net_contains = (\<lambda>net ip. net = ip), regex_new = (\<lambda>p. Inr p),
      captures = (\<lambda>re s. if starts_with s re then Some (\<lambda>g. if g = ''name'' then Some re else None) else None),
      msg_parse = (\<lambda>d. if d = [] then None else Some (d, ''text'')),
      msg_subject = (\<lambda>m. Some (fst m)), msg_body_text = (\<lambda>m. Some (snd m)), utf8_lossy = (\<lambda>s. s)\<rparr>"

definition sample_config :: config where
  "sample_config = default_config\<lparr>cfg_security := \<lparr>ip_whitelist = [''10.0.0.1'']\<rparr>,
     cfg_auth := (cfg_auth default_config)\<lparr>anonymous := \<lparr>anon_enabled = True, subject_match = None\<rparr>\<rparr>\<rparr>"

definition sample_tenv :: "nat \<Rightarrow> tenv" where
  "sample_tenv k = \<lparr>t_now = 5, t_uuid = of_nat k, t_io = calm 5\<rparr>"

definition ready :: relay_handler where
  "ready = \<lparr>authenticated_as = None, envelope_from = ''<a@b>'', recipients = [''<c@d>''], data_buf = ''hi''\<rparr>"

section \<open>Acceptance\<close>

definition route_of :: "('n, 'r) smtp_context \<Rightarrow> new_mail \<Rightarrow> route" where
  "route_of ctx new =
     (if is_active (ctx_routing ctx) then resolve (ctx_routing ctx) (email (nm_from new))
      else Deliver [\<lparr>rt_transport = [], rt_recipients = None\<rparr>])"

lemma data_end_route:
  "data_end X ctx Q env h q =
     (case build_new_mail X ctx h of
        Inl err \<Rightarrow> (q, Custom 554 (''rejected: '' @ core_error_to_string err))
      | Inr new \<Rightarrow>
          (case route_of ctx new of
             Reject \<Rightarrow> (q, Custom 550 ''sender not permitted'')
           | Deliver targets \<Rightarrow>
               (case enqueue_targets Q env new 0 targets 0 q of
                  (accepted, q') \<Rightarrow> (q', if accepted = 0 then INTERNAL_ERROR else OK))))"
  unfolding data_end_def route_of_def by (rule refl)

lemma data_end_Deliver:
  assumes "build_new_mail X ctx h = Inr new" and "route_of ctx new = Deliver targets"
    and "db_inv E q" and "\<forall>j. ts_ok (t_now (env j))"
  defines "ms \<equiv> stored env new 0 targets (db_view E q)"
  obtains q' where "data_end X ctx (sqlite_ops E) env h q = (q', if ms = [] then INTERNAL_ERROR else OK)"
    and "db_inv E q'" and "db_view E q' = db_view E q ++ map_of (map (\<lambda>m. (id_of m, m)) ms)"
    and "ms = [] \<longrightarrow> q' = q"
proof -
  from iq.enqueue_targets_view [where env = env and new = new and k = 0 and targets = targets and n = 0,
      OF assms(3) spec [OF assms(4)], folded ms_def]
  show thesis using that assms(1,2) by (auto simp: data_end_route)
qed

text \<open>C19: The ingress answers \<open>OK\<close> at the end of the data only after storing at least one mail, and on
  every other answer (unparsable message, sender rejected by the routing, no target stored)
  the queue is exactly as before. Every mail stored is new and pending with no attempts, comes
  from the envelope's sender without its brackets, and is valid; every mail stored earlier is
  kept.\<close>

theorem data_end_ok_means_queued:
  assumes "db_inv E q" and "\<forall>j. ts_ok (t_now (env j))"
    and "data_end X ctx (sqlite_ops E) env h q = (q', r)"
  shows "db_inv E q' \<and> (r \<noteq> OK \<longrightarrow> q' = q) \<and>
     (r = OK \<longrightarrow> (\<exists>ms. ms \<noteq> [] \<and> distinct (map id_of ms) \<and>
        db_view E q' = db_view E q ++ map_of (map (\<lambda>m. (id_of m, m)) ms) \<and>
        (\<forall>m \<in> set ms. db_view E q (id_of m) = None \<and> status m = Pending \<and> attempts m = 0 \<and>
           from_addr m = address_new (strip_brackets (envelope_from h)) \<and>
           trim (email (from_addr m)) \<noteq> [] \<and> to_addrs m \<noteq> [] \<and> trim (subject m) \<noteq> [])))"
proof (cases "build_new_mail X ctx h")
  case (Inl e)
  with assms(1,3) show ?thesis by (auto simp: data_end_route)
next
  case (Inr new)
  show ?thesis
  proof (cases "route_of ctx new")
    case Reject
    with Inr assms(1,3) show ?thesis by (auto simp: data_end_route)
  next
    case (Deliver targets)
    let ?ms = "stored env new 0 targets (db_view E q)"
    obtain q1 where q1: "data_end X ctx (sqlite_ops E) env h q = (q1, if ?ms = [] then INTERNAL_ERROR else OK)"
      "db_inv E q1" "db_view E q1 = db_view E q ++ map_of (map (\<lambda>m. (id_of m, m)) ?ms)"
      "?ms = [] \<longrightarrow> q1 = q" using data_end_Deliver [OF Inr Deliver assms(1,2)] .
    from q1(1) assms(3) have eq: "q1 = q'" and r: "r = (if ?ms = [] then INTERNAL_ERROR else OK)" by simp_all
    note d = r q1(2-4) [unfolded eq]
    have "db_view E q (id_of m) = None \<and> status m = Pending \<and> attempts m = 0 \<and>
           from_addr m = address_new (strip_brackets (envelope_from h)) \<and>
           trim (email (from_addr m)) \<noteq> [] \<and> to_addrs m \<noteq> [] \<and> trim (subject m) \<noteq> []"
      if "m \<in> set ?ms" for m
      using stored_valid [OF that] stored_fresh [OF that] build_new_mail_from [OF Inr] by auto
    with d stored_distinct [of env new 0 targets "db_view E q"] show ?thesis
      by (cases "?ms = []") (simp, simp, blast)
  qed
qed

lemma sample_build:
  "build_new_mail sample_ext (context_of sample_ext sample_config) ready =
     Inr \<lparr>nm_from = address_new (strip_brackets ''<a@b>''), nm_to = [address_new (strip_brackets ''<c@d>'')],
          nm_subject = ''hi'', nm_body = ''text'', nm_transport = None\<rparr>"
  by (simp add: build_new_mail_def sample_ext_def ready_def context_of_def sample_config_def
      default_config_def extract_name_def compile_matcher_def)

lemma sample_brackets: "strip_brackets ''<a@b>'' = ''a@b''" "strip_brackets ''<c@d>'' = ''c@d''"
  by code_simp+

lemma sample_trim: "trim ''a@b'' = ''a@b''" "trim ''hi'' = ''hi''"
  by code_simp+

lemma sample_tenv_simps [simp]:
  "t_now (sample_tenv k) = 5" "t_uuid (sample_tenv k) = of_nat k" "t_io (sample_tenv k) = calm 5"
  by (simp_all add: sample_tenv_def)

lemma sample_route: "route_of (context_of sample_ext sample_config) new = Deliver [\<lparr>rt_transport = [], rt_recipients = None\<rparr>]"
  by (simp add: route_of_def context_of_def sample_config_def default_config_def is_active_def)

theorem data_end_ok_means_queued_witness:
  "\<exists>q' ms. data_end sample_ext (context_of sample_ext sample_config) (sqlite_ops sample_codec) sample_tenv ready [] = (q', OK) \<and>
     ms \<noteq> [] \<and> db_view sample_codec q' = db_view sample_codec [] ++ map_of (map (\<lambda>m. (id_of m, m)) ms)"
proof -
  let ?ctx = "context_of sample_ext sample_config"
  have ts: "\<forall>j. ts_ok (t_now (sample_tenv j))" by simp
  have "db_view sample_codec [] = Map.empty" by (simp add: fun_eq_iff db_view_def)
  then have ne: "stored sample_tenv \<lparr>nm_from = address_new (strip_brackets ''<a@b>''), nm_to = [address_new (strip_brackets ''<c@d>'')],
      nm_subject = ''hi'', nm_body = ''text'', nm_transport = None\<rparr> 0 [\<lparr>rt_transport = [], rt_recipients = None\<rparr>]
      (db_view sample_codec []) \<noteq> []"
    by (simp add: Let_def sample_brackets sample_trim)
  obtain q' where run: "data_end sample_ext ?ctx (sqlite_ops sample_codec) sample_tenv ready [] = (q', OK)"
    by (rule data_end_Deliver [OF sample_build sample_route db_inv_empty ts])
      (simp only: ne if_False)
  from data_end_ok_means_queued [OF db_inv_empty ts run] run show ?thesis by auto
qed

text \<open>C20: A message whose sender the routing allows becomes exactly one independent mail per target that
  gives a valid mail, in the order of the targets: with the target's recipients where it names
  some and the envelope's otherwise, and with the target's transport where it names one. Nothing
  else is stored, and without active routing there is one mail for the original recipients with no
  transport. This holds whenever the random ids are fresh and the queue takes every mail.\<close>

theorem data_end_fans_out:
  assumes "db_inv E q" and "\<forall>j. ts_ok (t_now (env j))" 
    and "\<And>j. j < length targets \<Longrightarrow> io_fault (t_io (env j)) = None"
    and "inj_on (\<lambda>j. t_uuid (env j)) {..<length targets}"
    and "\<And>j. j < length targets \<Longrightarrow> db_view E q (t_uuid (env j)) = None"
    and "build_new_mail X ctx h = Inr new"
    and "(if is_active (ctx_routing ctx) then resolve (ctx_routing ctx) (email (nm_from new))
          else Deliver [\<lparr>rt_transport = [], rt_recipients = None\<rparr>]) = Deliver targets"
  shows "\<exists>q' r. data_end X ctx (sqlite_ops E) env h q = (q', r) \<and>
     (r = OK \<longleftrightarrow> (\<exists>t \<in> set targets. validate_mail (target_payload new t) = Inr ())) \<and>
     db_view E q' = db_view E q ++ map_of (map (\<lambda>(j, t). (t_uuid (env j),
        from_new (new\<lparr>nm_to := (case rt_recipients t of Some rs \<Rightarrow> rs | None \<Rightarrow> nm_to new),
                      nm_transport := (if rt_transport t = [] then None else Some (rt_transport t))\<rparr>)
          (t_now (env j)) (t_uuid (env j))))
       (filter (\<lambda>(j, t). validate_mail (target_payload new t) = Inr ()) (List.enumerate 0 targets)))"
proof -
  from assms(7) have route: "route_of ctx new = Deliver targets" unfolding route_of_def .
  let ?sel = "filter (\<lambda>(j, t). validate_mail (target_payload new t) = Inr ()) (List.enumerate 0 targets)"
  let ?ms = "stored env new 0 targets (db_view E q)"
  have ms: "?ms = map (\<lambda>(j, t). from_new (target_payload new t) (t_now (env j)) (t_uuid (env j))) ?sel"
    by (rule stored_all) (use assms(3-5) in \<open>simp_all add: lessThan_atLeast0\<close>)
  have tr: "nm_transport new = None" using build_new_mail_from [OF assms(6)] by simp
  have pay: "target_payload new t = new\<lparr>nm_to := (case rt_recipients t of Some rs \<Rightarrow> rs | None \<Rightarrow> nm_to new),
      nm_transport := (if rt_transport t = [] then None else Some (rt_transport t))\<rparr>" for t
    using tr by (simp add: target_payload_def split: option.split)
  have "(?sel = []) = (\<not> (\<exists>t \<in> set targets. validate_mail (target_payload new t) = Inr ()))"
  proof -
    have "set targets = snd ` set (List.enumerate 0 targets)"
      by (metis list.set_map map_snd_enumerate)
    then show ?thesis
      unfolding filter_empty_conv case_prod_unfold by (simp only: bex_simps ball_simps not_not)
  qed
  then have sel: "?ms \<noteq> [] \<longleftrightarrow> (\<exists>t \<in> set targets. validate_mail (target_payload new t) = Inr ())"
    unfolding ms by simp
  obtain q' where q': "data_end X ctx (sqlite_ops E) env h q = (q', if ?ms = [] then INTERNAL_ERROR else OK)"
    "db_view E q' = db_view E q ++ map_of (map (\<lambda>m. (id_of m, m)) ?ms)"
    by (rule data_end_Deliver [OF assms(6) route assms(1,2)])
  have "map (\<lambda>m. (id_of m, m)) ?ms = map (\<lambda>(j, t). (t_uuid (env j),
        from_new (target_payload new t) (t_now (env j)) (t_uuid (env j)))) ?sel"
    unfolding ms by (simp add: comp_def case_prod_unfold)
  with q' sel show ?thesis unfolding pay by auto
qed

definition sample_rule :: route_rule where
  "sample_rule =
     \<lparr>rr_transport = None, rr_recipients = [],
      rr_targets = [\<lparr>tc_transport = ''smtp'', tc_recipients = []\<rparr>, \<lparr>tc_transport = ''teams'', tc_recipients = [''ops'']\<rparr>]\<rparr>"

definition routed :: "(string, string) smtp_context" where
  "routed = (context_of sample_ext sample_config)\<lparr>ctx_routing := \<lparr>rc_default = Some sample_rule, rc_senders = []\<rparr>\<rparr>"

lemma routed_resolve:
  "resolve (ctx_routing routed) s =
     Deliver [\<lparr>rt_transport = ''smtp'', rt_recipients = None\<rparr>,
              \<lparr>rt_transport = ''teams'', rt_recipients = Some [address_new ''ops'']\<rparr>]"
proof -
  have "\<not> eq_ignore_ascii_case ''smtp'' ''reject''" "\<not> eq_ignore_ascii_case ''teams'' ''reject''"
    by code_simp+
  then show ?thesis
    by (simp add: routed_def resolve_def bt_get_def expand_def sample_rule_def recipient_override_def)
qed

theorem data_end_fans_out_witness:
  "\<exists>q'. data_end sample_ext routed (sqlite_ops sample_codec) sample_tenv ready [] = (q', OK) \<and>
     map_option transport (db_view sample_codec q' 1) = Some (Some ''teams'')"
proof -
  let ?new = "\<lparr>nm_from = address_new ''a@b'', nm_to = [address_new ''c@d''], nm_subject = ''hi'',
      nm_body = ''text'', nm_transport = None\<rparr>"
  let ?ts = "[\<lparr>rt_transport = ''smtp'', rt_recipients = None\<rparr>,
              \<lparr>rt_transport = ''teams'', rt_recipients = Some [address_new ''ops'']\<rparr>]"
  have b: "build_new_mail sample_ext routed ready = Inr ?new"
    by (simp add: build_new_mail_def sample_ext_def ready_def routed_def context_of_def sample_config_def
        default_config_def extract_name_def compile_matcher_def sample_brackets)
  have v: "db_view sample_codec [] = Map.empty" by (simp add: fun_eq_iff db_view_def)
  have act: "is_active (ctx_routing routed)" by (simp add: routed_def is_active_def)
  have inj: "inj_on (\<lambda>j. t_uuid (sample_tenv j)) {..<length ?ts}"
    by (simp add: inj_on_def lessThan_Suc numeral_2_eq_2)
  have ts: "\<forall>j. ts_ok (t_now (sample_tenv j))" by simp
  from data_end_fans_out [OF db_inv_empty ts _ inj _ b, unfolded routed_resolve] act v
  show ?thesis by (auto simp: sample_trim)
qed

section \<open>Access control\<close>

text \<open>The network an entry of the whitelist stands for covers \<open>ip\<close>.\<close>

definition entry_covers :: "('i, 'n, 'r, 'm) smtp_ext \<Rightarrow> string \<Rightarrow> 'i \<Rightarrow> bool" where
  "entry_covers X e ip =
     (case parse_net X e of
        Some net \<Rightarrow> net_contains X net ip
      | None \<Rightarrow>
          (case parse_ip X e of
             Some a \<Rightarrow>
               (case net_new X a (if is_ipv4 X a then 32 else 128) of
                  Some net \<Rightarrow> net_contains X net ip
                | None \<Rightarrow> False)
           | None \<Rightarrow> False))"

lemma is_allowed_covers:
  "is_allowed X (parse_whitelist X es) ip \<longleftrightarrow> (\<exists>e \<in> set es. entry_covers X e ip)"
  by (induction es) (auto simp: is_allowed_def entry_covers_def split: option.splits)

fun granted :: "(string \<Rightarrow> string option) \<Rightarrow> auth_config \<Rightarrow> command \<Rightarrow> bool" where
  "granted ev a (AuthPlain z u p) = (\<exists>n. authenticate ev a u p = Inr (Some n))"
| "granted ev a (AuthLogin u p) = (\<exists>n. authenticate ev a u p = Inr (Some n))"
| "granted ev a _ = False"

lemma try_auth_granted:
  "try_auth ev ctx u p h = (h', r) \<Longrightarrow> authenticated_as h' \<noteq> None \<Longrightarrow>
     authenticated_as h \<noteq> None \<or> (\<exists>n. authenticate ev (ctx_auth ctx) u p = Inr (Some n))"
  by (auto simp: try_auth_def split: sum.splits option.splits)

lemma mail_from_open:
  "mail_from X ctx ip f h = (h', OK) \<Longrightarrow>
     is_allowed X (whitelist ctx) ip \<and> (anonymous_enabled ctx \<or> authenticated_as h \<noteq> None)"
  by (auto simp: mail_from_def Let_def split: if_splits)

lemma handle_auth:
  assumes "handle ev X ctx Q ip c (h, q) = ((h', q'), r)" and "authenticated_as h' \<noteq> None"
  shows "authenticated_as h \<noteq> None \<or> granted ev (ctx_auth ctx) c"
  using assms
  by (cases c)
    (auto simp: relay_ops Let_def dest: try_auth_granted split: if_splits prod.splits)

lemma handle_auth_keeps:
  assumes "handle ev X ctx Q ip c (h, q) = ((h', q'), r)" and "authenticated_as h \<noteq> None"
  shows "authenticated_as h' \<noteq> None"
  using assms
  by (cases c) (auto simp: relay_ops try_auth_def Let_def split: if_splits prod.splits sum.splits option.splits)

lemma handle_queue:
  "handle ev X ctx Q ip c (h, q) = ((h', q'), r) \<Longrightarrow> (\<And>env. c \<noteq> DataEnd env) \<Longrightarrow> q' = q"
  by (cases c) (auto split: prod.splits)

lemma session_access:
  assumes "session ev X ctx Q ip opened cs (h, q) = Some (h', q')" and "q' \<noteq> q"
    and "opened \<Longrightarrow> is_allowed X (whitelist ctx) ip \<and> (anonymous_enabled ctx \<or> authenticated_as h \<noteq> None)"
  shows "is_allowed X (whitelist ctx) ip \<and>
     (anonymous_enabled ctx \<or> authenticated_as h \<noteq> None \<or> (\<exists>c \<in> set cs. granted ev (ctx_auth ctx) c))"
  using assms
proof (induction cs arbitrary: opened h q)
  case (Cons c cs)
  obtain h1 q1 r where hd: "handle ev X ctx Q ip c (h, q) = ((h1, q1), r)" by (metis surj_pair)
  note auth = handle_auth [OF hd]
  consider (mail) f where "c = MailFrom f" | (finish) env where "c = DataEnd env"
    | (other) op where "session ev X ctx Q ip op cs (h1, q1) = Some (h', q')" "q1 = q" "op \<longrightarrow> opened"
    using Cons.prems(1) hd handle_queue [OF hd] by (cases c) auto
  then show ?case
  proof cases
    case mail
    with hd have m: "mail_from X ctx ip f h = (h1, the r)" "r \<noteq> None" "q1 = q" by (auto split: prod.splits)
    have "session ev X ctx Q ip (r = Some OK) cs (h1, q) = Some (h', q')"
      using Cons.prems(1) hd mail m(3) by simp
    moreover have "is_allowed X (whitelist ctx) ip \<and> (anonymous_enabled ctx \<or> authenticated_as h1 \<noteq> None)"
      if "r = Some OK" using mail_from_open [of X ctx ip f h h1] m(1) that handle_auth_keeps [OF hd] by auto
    ultimately show ?thesis using Cons.IH [OF _ Cons.prems(2), of "r = Some OK" h1] auth by auto
  next
    case finish
    with Cons.prems(1) hd have "opened" by (simp split: if_splits)
    from Cons.prems(3) [OF this] show ?thesis by blast
  next
    case other
    have "is_allowed X (whitelist ctx) ip \<and> (anonymous_enabled ctx \<or> authenticated_as h1 \<noteq> None)" if op
      using that other(3) Cons.prems(3) handle_auth_keeps [OF hd] by auto
    from Cons.IH [OF other(1) [unfolded other(2)] Cons.prems(2) this] auth show ?thesis by auto
  qed
qed simp

text \<open>Access control of a whole session, for any sequence of callbacks that mailin can make on one
  connection (data end only in a transaction whose \<open>mail\<close> callback answered \<open>OK\<close>): if the queue
  changed at all, then the peer's address is covered by an entry of the configured whitelist, and
  either anonymous submission is enabled or some \<open>AUTH\<close> of the session presented credentials the
  authentication accepts. In particular an empty whitelist admits nobody.\<close>

lemma session_access_control:
  assumes "session ev X (context_of X c) (sqlite_ops E) ip False cs (handler_new, q) = Some (h', q')"
    and "q' \<noteq> q"
  shows "(\<exists>e \<in> set (ip_whitelist (cfg_security c)). entry_covers X e ip) \<and>
     (anon_enabled (anonymous (cfg_auth c)) \<or> (\<exists>cmd \<in> set cs. granted ev (cfg_auth c) cmd))"
  using session_access [OF assms]
  by (simp add: context_of_def handler_new_def is_allowed_covers)

end
