(* ===== verification/Relay_Main.thy ===== *)
theory Relay_Main
  imports Transport_Smtp Plugin_Host Dispatcher_Properties Ingress_Properties
begin

text \<open>
  Models \<open>crates/oxid-relay/src/main.rs\<close> and \<open>crates/logging/src/lib.rs\<close>: the mapping of the settings
  to the dispatcher, the URL of the queue, the instance lock, the construction of the transports
  with the choice of the default one, and the start-up of the relay in the order of
  \<open>run_relay\<close>. Opening and locking files, the logging subscriber, the signals and the Windows
  service manager are the environment.
\<close>

section \<open>Logging\<close>

text \<open>\<open>from_env\<close> and \<open>try_new\<close> are what \<open>EnvFilter::try_from_default_env\<close> and \<open>try_new\<close> answer,
  \<open>fallback\<close> is \<open>EnvFilter::new("info")\<close>.\<close>

definition use_ansi :: "bool \<Rightarrow> bool \<Rightarrow> bool" where
  "use_ansi is_terminal windows = (is_terminal \<and> \<not> windows)"

definition build_filter :: "(string + 'f) \<Rightarrow> (string \<Rightarrow> string + 'f) \<Rightarrow> 'f \<Rightarrow> string \<Rightarrow> 'f" where
  "build_filter from_env try_new fallback lvl =
     (case from_env of Inr f \<Rightarrow> f | Inl _ \<Rightarrow> (case try_new lvl of Inr f \<Rightarrow> f | Inl _ \<Rightarrow> fallback))"

section \<open>Settings, URL and lock\<close>

definition dispatcher_config_of :: "config \<Rightarrow> dispatcher_config" where
  "dispatcher_config_of c =
     (let s = cfg_dispatcher c
      in \<lparr>batch_size = set_batch_size s, concurrency = set_concurrency s,
          poll_interval = from_secs (poll_interval_secs s),
          sending_lease = from_secs (sending_lease_secs s),
          retry = \<lparr>max_attempts = set_max_attempts s, base_delay = from_secs (retry_base_secs s),
                   max_delay = from_secs (retry_max_secs s)\<rparr>\<rparr>)"

definition sqlite_url :: "string \<Rightarrow> string" where
  "sqlite_url db = (if starts_with db ''sqlite:'' then db else ''sqlite:'' @ db)"

datatype try_lock = Locked | WouldBlock | LockError string

definition lock_path :: "string \<Rightarrow> string" where
  "lock_path db = db @ ''.lock''"

text \<open>\<open>open_file\<close> and \<open>lock_file\<close> are what opening and locking the file of that path answer; the
  result names the file that is held.\<close>

definition acquire_instance_lock ::
  "(string \<Rightarrow> string + unit) \<Rightarrow> (string \<Rightarrow> try_lock) \<Rightarrow> string \<Rightarrow> string + string option" where
  "acquire_instance_lock open_file lock_file db =
     (if contains_str db '':memory:'' \<or> trim db = [] then Inr None
      else (let path = lock_path db in
        (case open_file path of
           Inl e \<Rightarrow> Inl (''opening lock file '' @ path)
         | Inr _ \<Rightarrow>
             (case lock_file path of
                Locked \<Rightarrow> Inr (Some path)
              | WouldBlock \<Rightarrow>
                  Inl (''another OxidRelay instance is already running on this queue (lock '' @ path @ '' is held)'')
              | LockError e \<Rightarrow> Inl (''locking '' @ path)))))"

section \<open>Transports\<close>

text \<open>The plugins found in one directory that have their settings.\<close>

definition plugins_with_settings ::
  "(string \<Rightarrow> string option) \<Rightarrow> config \<Rightarrow> 'ast plugin list \<Rightarrow> (string \<times> 'ast rhai_transport) list" where
  "plugins_with_settings env c ps =
     List.map_filter (\<lambda>p. case plugin_settings env c (mf_name (pl_manifest p)) of
         Inl _ \<Rightarrow> None
       | Inr settings \<Rightarrow> Some (mf_name (pl_manifest p), rhai_new p (string_config_map settings))) ps"

text \<open>\<open>ReqwestClient::new\<close> always succeeds.\<close>

definition build_plugin_transports ::
  "(string \<Rightarrow> string option) \<Rightarrow> (string \<Rightarrow> plugin_error + 'ast plugin list) \<Rightarrow> string list \<Rightarrow> config \<Rightarrow>
   (string \<times> 'ast rhai_transport) list" where
  "build_plugin_transports env disc dirs c =
     concat (map (\<lambda>dir. case disc dir of Inl _ \<Rightarrow> [] | Inr ps \<Rightarrow> plugins_with_settings env c ps) dirs)"

text \<open>The table of transports and the default one: the configured default wins, otherwise SMTP when its
  transport could be built; plugins are added after SMTP.\<close>

definition build_transports ::
  "('b, 'msg, 'n) lettre \<Rightarrow> ('n \<Rightarrow> 'ast \<Rightarrow> string \<Rightarrow> dyn btree_map \<times> dyn btree_map \<Rightarrow> string + (string + unit)) \<Rightarrow>
   (string \<Rightarrow> string option) \<Rightarrow> (string \<times> 'ast rhai_transport) list \<Rightarrow> config \<Rightarrow>
   'n transport_ops hash_map \<times> string option" where
  "build_transports L run env plugins c =
     (let smtp_part =
        (case smtp (cfg_mail c) of
           None \<Rightarrow> ([], default_transport (cfg_mail c))
         | Some s \<Rightarrow>
             (case smtp_new L env s of
                Inl _ \<Rightarrow> ([], default_transport (cfg_mail c))
              | Inr t \<Rightarrow>
                  (hm_insert ''smtp'' (smtp_ops L t) [],
                   case default_transport (cfg_mail c) of None \<Rightarrow> Some ''smtp'' | Some d \<Rightarrow> Some d)))
      in (fold (\<lambda>(k, v). hm_insert k v) (map (\<lambda>(n, t). (n, rhai_ops run t)) plugins) (fst smtp_part),
          snd smtp_part))"

section \<open>Start-up\<close>

datatype startup_error =
    LoadFailed string config_error
  | LoggingFailed string
  | LockFailed string
  | QueueFailed string core_error

record ('n, 'ctx) relay =
  relay_inner :: "'n inner"
  relay_queue :: "row list"
  relay_lock :: "string option"
  relay_ingress :: "'ctx option"

text \<open>What the environment answers during start-up: the configuration file and its TOML parser, the
  logging subscriber, the lock file, the database; and for the plugins the file system, the
  manifest parser, the Rhai compiler and the kind of build.\<close>

record start_env =
  se_read :: "string \<Rightarrow> string + string"
  se_toml :: "string \<Rightarrow> string + config"
  se_logging :: "string \<Rightarrow> string + unit"
  se_open :: "string \<Rightarrow> string + unit"
  se_lock :: "string \<Rightarrow> try_lock"
  se_options :: "string \<Rightarrow> string + string"
  se_pool :: "string \<Rightarrow> string + row list option"
  se_io :: io

record 'ast plugin_env =
  pe_fs :: file_system
  pe_manifest :: "string \<Rightarrow> string + manifest"
  pe_compile :: "string \<Rightarrow> string + 'ast"
  pe_split :: "string \<Rightarrow> string list"
  pe_debug :: bool
  pe_os :: platform

definition find_plugins ::
  "'ast plugin_env \<Rightarrow> (string \<Rightarrow> string option) \<Rightarrow> config \<Rightarrow> (string \<times> 'ast rhai_transport) list" where
  "find_plugins P env c =
     build_plugin_transports env (discover (pe_fs P) (pe_manifest P) (pe_compile P))
       (plugin_dirs env (pe_split P) (path_join (pe_fs P)) (pe_debug P) (pe_os P)) c"

text \<open>\<open>run_relay\<close> up to \<open>dispatcher.run\<close>, which is the step machine of \<open>Dispatcher\<close> started on
  \<open>relay_queue\<close>; the ingress serves on its own thread when it is configured.\<close>

definition start_relay ::
  "start_env \<Rightarrow> ('b, 'msg, 'n) lettre \<Rightarrow>
   ('n \<Rightarrow> 'ast \<Rightarrow> string \<Rightarrow> dyn btree_map \<times> dyn btree_map \<Rightarrow> string + (string + unit)) \<Rightarrow>
   'ast plugin_env \<Rightarrow> (string \<Rightarrow> string option) \<Rightarrow> ('i, 'net, 'r, 'm) smtp_ext \<Rightarrow> string \<Rightarrow>
   startup_error + ('n, ('net, 'r) smtp_context) relay" where
  "start_relay S L run P env X path =
     res_bind (map_err (LoadFailed path) (load (se_read S) (se_toml S) path)) (\<lambda>c.
     res_bind (map_err LoggingFailed (se_logging S (level (cfg_logging c)))) (\<lambda>_.
     res_bind (map_err LockFailed (acquire_instance_lock (se_open S) (se_lock S) (database (cfg_queue c)))) (\<lambda>lock.
     let db_url = sqlite_url (database (cfg_queue c)) in
     res_bind (map_err (QueueFailed db_url) (connect (se_options S) (se_pool S) (se_io S) db_url)) (\<lambda>q.
     case build_transports L run env (find_plugins P env c) c of
       (ts, d) \<Rightarrow>
         Inr \<lparr>relay_inner = dispatcher_new ts d (dispatcher_config_of c), relay_queue = q, relay_lock = lock,
              relay_ingress = (case ingress_smtp (cfg_ingress c) of None \<Rightarrow> None | Some _ \<Rightarrow> Some (context_of X c))\<rparr>))))"

section \<open>Windows service\<close>

datatype service_control = SC_Stop | SC_Shutdown | SC_Interrogate | SC_Other

datatype handler_result = NoError | NotImplemented

text \<open>The control handler: whether it asks for a shutdown, and its answer.\<close>

fun service_event :: "service_control \<Rightarrow> bool \<times> handler_result" where
  "service_event SC_Stop = (True, NoError)"
| "service_event SC_Shutdown = (True, NoError)"
| "service_event SC_Interrogate = (False, NoError)"
| "service_event SC_Other = (False, NotImplemented)"

section \<open>Facts\<close>

lemma load_validates: "load rd toml path = Inr c \<Longrightarrow> validate c = Inr ()"
  by (auto simp: load_def from_toml_str_def res_bind_eq_Inr_iff)

lemma validate_knobs:
  assumes "validate c = Inr u"
  shows "0 < set_batch_size (cfg_dispatcher c)" and "0 < set_concurrency (cfg_dispatcher c)"
    and "0 < set_max_attempts (cfg_dispatcher c)" and "0 < poll_interval_secs (cfg_dispatcher c)"
proof -
  from assms have "validate_dispatcher (cfg_dispatcher c) = Inr ()"
    by (auto simp: validate_def res_bind_eq_Inr_iff split: if_splits)
  then show "0 < set_batch_size (cfg_dispatcher c)" "0 < set_concurrency (cfg_dispatcher c)"
    "0 < set_max_attempts (cfg_dispatcher c)" "0 < poll_interval_secs (cfg_dispatcher c)" by (simp_all add: validate_dispatcher_iff)
qed

lemma start_relay_Inr:
  assumes "start_relay S L run P env X path = Inr r"
  obtains c where "load (se_read S) (se_toml S) path = Inr c"
    and "acquire_instance_lock (se_open S) (se_lock S) (database (cfg_queue c)) = Inr (relay_lock r)"
    and "connect (se_options S) (se_pool S) (se_io S) (sqlite_url (database (cfg_queue c))) = Inr (relay_queue r)"
    and "relay_inner r = (case build_transports L run env (find_plugins P env c) c of
           (ts, d) \<Rightarrow> dispatcher_new ts d (dispatcher_config_of c))"
    and "relay_ingress r = (case ingress_smtp (cfg_ingress c) of None \<Rightarrow> None | Some _ \<Rightarrow> Some (context_of X c))"
  using assms that
  by (auto simp: start_relay_def res_bind_eq_Inr_iff Let_def case_prod_unfold)

lemma started_config:
  assumes "start_relay S L run P env X path = Inr r"
  obtains c where "load (se_read S) (se_toml S) path = Inr c" and "disp_config (relay_inner r) = dispatcher_config_of c"
proof -
  from assms obtain c where c: "load (se_read S) (se_toml S) path = Inr c"
    and i: "relay_inner r = (case build_transports L run env (find_plugins P env c) c of
           (ts, d) \<Rightarrow> dispatcher_new ts d (dispatcher_config_of c))" by (rule start_relay_Inr)
  have "disp_config (relay_inner r) = dispatcher_config_of c"
    unfolding i by (simp add: dispatcher_new_def split: prod.split)
  with c show thesis by (rule that)
qed

lemma started_params:
  assumes "start_relay S L run P env X path = Inr r" and "chrono_ok C"
  shows "params_ok C (relay_inner r)"
proof -
  from assms(1) obtain c where c: "load (se_read S) (se_toml S) path = Inr c"
    and d: "disp_config (relay_inner r) = dispatcher_config_of c" by (rule started_config)
  from validate_knobs [OF load_validates [OF c]] d assms(2) show ?thesis
    by (simp add: params_ok_def dispatcher_config_of_def Let_def)
qed

lemma started_relay_poll:
  assumes "start_relay S L run P env X path = Inr r"
  shows "poll_interval (disp_config (relay_inner r)) \<noteq> from_secs 0"
proof -
  from assms obtain c where c: "load (se_read S) (se_toml S) path = Inr c"
    and d: "disp_config (relay_inner r) = dispatcher_config_of c" by (rule started_config)
  from validate_knobs(4) [OF load_validates [OF c]] d show ?thesis
    by (simp add: dispatcher_config_of_def Let_def)
qed

lemma started_lock:
  assumes "load (se_read S) (se_toml S) path = Inr c" and "start_relay S L run P env X path = Inr r"
    and "\<not> contains_str (database (cfg_queue c)) '':memory:''"
  shows "relay_lock r = Some (database (cfg_queue c) @ ''.lock'')"
proof -
  from assms(1,2) have "acquire_instance_lock (se_open S) (se_lock S) (database (cfg_queue c)) = Inr (relay_lock r)"
    by (auto elim!: start_relay_Inr)
  moreover from load_validates [OF assms(1)] have "trim (database (cfg_queue c)) \<noteq> []"
    by (auto simp: validate_def split: if_splits)
  ultimately show ?thesis
    using assms(3) by (auto simp: acquire_instance_lock_def lock_path_def Let_def split: sum.splits try_lock.splits if_splits)
qed

section \<open>Properties\<close>

text \<open>C38: A relay that starts has validated parameters: at least one permit, a non-empty batch, at least one
  attempt, proper durations and a period between polls. One bound that deliveries need is not
  validated: with more permits than a semaphore can have, the relay starts all the same, and the
  first fetch that answers a mail crashes the dispatcher.\<close>

theorem started_relay_parameters:
  assumes "start_relay S L run P env X path = Inr r" and "chrono_ok C"
  shows "params_ok C (relay_inner r) \<and> 0 < concurrency (disp_config (relay_inner r)) \<and>
     0 < batch_size (disp_config (relay_inner r)) \<and>
     poll_interval (disp_config (relay_inner r)) \<noteq> from_secs 0 \<and>
     (max_permits < concurrency (disp_config (relay_inner r)) \<and> phase_of s = Fetching now \<and>
      q_fetch_due Q io (batch_size (disp_config (relay_inner r))) now (queue_of s) = Inr (m # ms) \<longrightarrow>
        step dbg Q C (relay_inner r) (Fetch io) s = Some (s\<lparr>phase_of := Crashed\<rparr>))"
proof -
  from assms(1) obtain c where c: "load (se_read S) (se_toml S) path = Inr c"
    and d: "disp_config (relay_inner r) = dispatcher_config_of c" by (rule started_config)
  from validate_knobs [OF load_validates [OF c]] d started_params [OF assms] show ?thesis
    by (simp add: dispatcher_config_of_def Let_def fetched_def)
qed

definition sample_start :: "row list option \<Rightarrow> try_lock \<Rightarrow> start_env" where
  "sample_start db lk =
     \<lparr>se_read = (\<lambda>_. Inr []), se_toml = (\<lambda>_. Inr sample_config), se_logging = (\<lambda>_. Inr ()),
      se_open = (\<lambda>_. Inr ()), se_lock = (\<lambda>_. lk), se_options = (\<lambda>u. Inr u), se_pool = (\<lambda>_. Inr db), se_io = calm 1\<rparr>"

definition sample_plugins :: "string plugin_env" where
  "sample_plugins =
     \<lparr>pe_fs = sample_fs, pe_manifest = (\<lambda>_. Inr sample_manifest), pe_compile = (\<lambda>s. Inr s),
      pe_split = (\<lambda>s. [s]), pe_debug = True, pe_os = OtherUnix\<rparr>"

definition sample_run :: "bool \<Rightarrow> string \<Rightarrow> string \<Rightarrow> dyn btree_map \<times> dyn btree_map \<Rightarrow> string + (string + unit)" where
  "sample_run net ast f args = Inr (Inr ())"

lemma sample_validates: "validate sample_config = Inr ()"
  unfolding sample_config_def by code_simp

lemma sample_start_ok:
  "\<exists>r. start_relay (sample_start None Locked) sample_lettre sample_run sample_plugins (\<lambda>_. None) sample_ext ''c.toml'' = Inr r"
  by (simp add: start_relay_def load_def from_toml_str_def sample_start_def sample_validates
      acquire_instance_lock_def connect_def migrate_def Let_def split: prod.split)

definition sample_crowd :: start_env where
  "sample_crowd = (sample_start None Locked)\<lparr>se_toml := (\<lambda>_. Inr (sample_config
     \<lparr>cfg_dispatcher := (cfg_dispatcher sample_config)\<lparr>set_concurrency := 2 ^ 61\<rparr>\<rparr>))\<rparr>"

lemma sample_crowd_ok:
  "\<exists>r. start_relay sample_crowd sample_lettre sample_run sample_plugins (\<lambda>_. None) sample_ext ''c.toml'' = Inr r \<and>
     concurrency (disp_config (relay_inner r)) = 2 ^ 61"
proof -
  let ?c = "sample_config\<lparr>cfg_dispatcher := (cfg_dispatcher sample_config)\<lparr>set_concurrency := 2 ^ 61\<rparr>\<rparr>"
  have "validate ?c = Inr ()"
    using sample_validates by (auto simp: validate_def res_bind_eq_Inr_iff validate_dispatcher_iff split: if_splits)
  then show ?thesis
    by (simp add: sample_crowd_def start_relay_def load_def from_toml_str_def sample_start_def acquire_instance_lock_def
        connect_def migrate_def dispatcher_config_of_def dispatcher_new_def Let_def split: prod.split)
qed

theorem started_relay_parameters_witness:
  "\<exists>r. start_relay sample_crowd sample_lettre sample_run sample_plugins (\<lambda>_. None) sample_ext ''c.toml'' = Inr r \<and>
     params_ok sample_chrono (relay_inner r) \<and>
     (\<forall>s :: row list dstate. phase_of s = Fetching 5 \<and> queue_of s = one_mail \<longrightarrow>
        step True sample_ops sample_chrono (relay_inner r) (Fetch (calm 1)) s = Some (s\<lparr>phase_of := Crashed\<rparr>))"
proof -
  from sample_crowd_ok obtain r where
    r: "start_relay sample_crowd sample_lettre sample_run sample_plugins (\<lambda>_. None) sample_ext ''c.toml'' = Inr r"
    and c: "concurrency (disp_config (relay_inner r)) = 2 ^ 61" by blast
  note P = started_relay_parameters [OF r sample_chrono_ok]
  from P have b: "0 < batch_size (disp_config (relay_inner r))" by blast
  have big: "max_permits < concurrency (disp_config (relay_inner r))" by (simp add: c max_permits_def)
  let ?b = "batch_size (disp_config (relay_inner r))"
  from sq.fetch_ok [OF one_mail_inv, of 5 "calm 1" ?b] obtain ms where
    ms: "q_fetch_due sample_ops (calm 1) ?b 5 one_mail = Inr ms" "due_batch [3 \<mapsto> from_new hello 1 3] ?b 5 ms"
    by (auto simp: one_mail_view)
  have "ms \<noteq> []" by (rule due_batch_nonempty [OF ms(2) b, of 3 "from_new hello 1 3"]) (simp_all add: due_def live_def)
  then obtain m ms' where "ms = m # ms'" by (cases ms) auto
  with ms(1) P big r show ?thesis by metis
qed

text \<open>C39: A queue on disk is opened only under its instance lock: when the lock is held by another
  instance the start fails with that message, whatever the database would have answered, and a
  relay that starts holds the lock file named after its database.\<close>

theorem started_relay_holds_lock:
  assumes "load (se_read S) (se_toml S) path = Inr c" and "se_logging S (level (cfg_logging c)) = Inr ()"
    and "\<not> contains_str (database (cfg_queue c)) '':memory:''"
  shows "(se_open S (database (cfg_queue c) @ ''.lock'') = Inr () \<and>
          se_lock S (database (cfg_queue c) @ ''.lock'') = WouldBlock \<longrightarrow>
            (\<exists>msg. start_relay S L run P env X path = Inl (LockFailed msg))) \<and>
     (\<forall>r. start_relay S L run P env X path = Inr r \<longrightarrow>
        relay_lock r = Some (database (cfg_queue c) @ ''.lock'') \<and>
        se_lock S (database (cfg_queue c) @ ''.lock'') = Locked)"
proof -
  from load_validates [OF assms(1)] have db: "trim (database (cfg_queue c)) \<noteq> []"
    by (auto simp: validate_def split: if_splits)
  show ?thesis
    using assms db
    by (auto simp: start_relay_def acquire_instance_lock_def lock_path_def Let_def res_bind_eq_Inr_iff
        case_prod_unfold split: sum.splits try_lock.splits)
qed

theorem started_relay_holds_lock_witness:
  "\<exists>msg. start_relay (sample_start None WouldBlock) sample_lettre sample_run sample_plugins (\<lambda>_. None) sample_ext ''c.toml'' =
     Inl (LockFailed msg)"
proof -
  have l: "load (se_read (sample_start None WouldBlock)) (se_toml (sample_start None WouldBlock)) ''c.toml'' = Inr sample_config"
    by (simp add: load_def from_toml_str_def sample_start_def sample_validates)
  have m: "\<not> contains_str (database (cfg_queue sample_config)) '':memory:''"
    unfolding sample_config_def by code_simp
  from started_relay_holds_lock [OF l _ m, of sample_lettre sample_run sample_plugins "\<lambda>_. None" sample_ext]
  show ?thesis by (simp add: sample_start_def)
qed

text \<open>C40: The lock does not follow the database. Take a relay that runs on a database file and holds its
  lock, and a second configuration that names the same file with the scheme \<open>sqlite:\<close> in front. Then
  both give the same URL, and the second relay starts on it, as long as the lock of the first is the
  only one that is taken: both run on one queue.\<close>

theorem lock_differs_for_same_database:
  assumes "load (se_read S1) (se_toml S1) path1 = Inr c1" and "start_relay S1 L1 run1 P1 env1 X1 path1 = Inr r1"
    and "\<not> contains_str (''sqlite:'' @ database (cfg_queue c1)) '':memory:''"
    and "\<not> starts_with (database (cfg_queue c1)) ''sqlite:''"
    and "load (se_read S2) (se_toml S2) path2 = Inr c2"
    and "database (cfg_queue c2) = ''sqlite:'' @ database (cfg_queue c1)"
    and "se_logging S2 (level (cfg_logging c2)) = Inr ()"
    and "\<And>p. se_open S2 p = Inr () \<and> se_lock S2 p = (if Some p = relay_lock r1 then WouldBlock else Locked)"
    and "connect (se_options S2) (se_pool S2) (se_io S2) (sqlite_url (database (cfg_queue c1))) = Inr q"
  shows "sqlite_url (database (cfg_queue c2)) = sqlite_url (database (cfg_queue c1)) \<and>
     (\<exists>r2. start_relay S2 L2 run2 P2 env2 X2 path2 = Inr r2 \<and> relay_queue r2 = q \<and>
        relay_lock r2 = Some (''sqlite:'' @ database (cfg_queue c1) @ ''.lock'') \<and>
        relay_lock r1 = Some (database (cfg_queue c1) @ ''.lock''))"
proof -
  let ?db = "database (cfg_queue c1)"
  have "\<not> contains_str ?db '':memory:''" using assms(3) contains_str_append by blast
  from started_lock [OF assms(1,2) this] have l1: "relay_lock r1 = Some (?db @ ''.lock'')" .
  have url: "sqlite_url (''sqlite:'' @ ?db) = sqlite_url ?db" using assms(4) by (simp add: sqlite_url_def starts_with_def)
  have "trim (''sqlite:'' @ ?db) \<noteq> []"
    using load_validates [OF assms(5)] assms(6) by (auto simp: validate_def split: if_splits)
  with assms(3,8) l1 have "acquire_instance_lock (se_open S2) (se_lock S2) (database (cfg_queue c2)) =
      Inr (Some (''sqlite:'' @ ?db @ ''.lock''))"
    by (simp add: acquire_instance_lock_def lock_path_def Let_def assms(6) del: append_Cons)
  with url l1 assms(5-7,9) show ?thesis
    by (simp add: start_relay_def Let_def case_prod_unfold)
qed

definition sample_alias :: start_env where
  "sample_alias = (sample_start None Locked)
     \<lparr>se_toml := (\<lambda>_. Inr (sample_config\<lparr>cfg_queue := \<lparr>database = ''sqlite:'' @ database (cfg_queue sample_config)\<rparr>\<rparr>)),
      se_lock := (\<lambda>p. if p = database (cfg_queue sample_config) @ ''.lock'' then WouldBlock else Locked)\<rparr>"

theorem lock_differs_for_same_database_witness:
  "\<exists>r1 r2. start_relay (sample_start None Locked) sample_lettre sample_run sample_plugins (\<lambda>_. None) sample_ext ''c.toml'' = Inr r1 \<and>
     start_relay sample_alias sample_lettre sample_run sample_plugins (\<lambda>_. None) sample_ext ''c.toml'' = Inr r2"
proof -
  let ?c2 = "sample_config\<lparr>cfg_queue := \<lparr>database = ''sqlite:'' @ database (cfg_queue sample_config)\<rparr>\<rparr>"
  from sample_start_ok obtain r where
    r: "start_relay (sample_start None Locked) sample_lettre sample_run sample_plugins (\<lambda>_. None) sample_ext ''c.toml'' = Inr r" ..
  have l1: "load (se_read (sample_start None Locked)) (se_toml (sample_start None Locked)) ''c.toml'' = Inr sample_config"
    by (simp add: load_def from_toml_str_def sample_start_def sample_validates)
  have v: "validate ?c2 = Inr ()" unfolding sample_config_def by code_simp
  have l2: "load (se_read sample_alias) (se_toml sample_alias) ''c.toml'' = Inr ?c2"
    using v by (simp add: load_def from_toml_str_def sample_start_def sample_alias_def)
  have db: "\<not> contains_str (''sqlite:'' @ database (cfg_queue sample_config)) '':memory:''"
    "\<not> starts_with (database (cfg_queue sample_config)) ''sqlite:''"
    unfolding sample_config_def by code_simp+
  have m: "\<not> contains_str (database (cfg_queue sample_config)) '':memory:''" using db(1) contains_str_append by blast
  note lock = started_lock [OF l1 r m]
  show ?thesis
    using lock_differs_for_same_database [OF l1 r db l2, where q = "[]" and ?L2.0 = sample_lettre and ?run2.0 = sample_run
        and ?P2.0 = sample_plugins and ?env2.0 = "\<lambda>_. None" and ?X2.0 = sample_ext] r
    by (auto simp: sample_alias_def sample_start_def lock connect_def migrate_def)
qed

text \<open>The table of transports has exactly the SMTP transport, when its section is configured and it
  could be built, and the plugins whose settings resolved, the later one winning a name; the
  default is the configured one, else SMTP when it was built, else none.\<close>

lemma transport_table:
  "hm_get (fst (build_transports L run env plugins c)) n =
     (case map_of (rev plugins) n of
        Some t \<Rightarrow> Some (rhai_ops run t)
      | None \<Rightarrow>
          (case smtp (cfg_mail c) of
             None \<Rightarrow> None
           | Some s \<Rightarrow> (case smtp_new L env s of Inl _ \<Rightarrow> None | Inr t \<Rightarrow> if n = ''smtp'' then Some (smtp_ops L t) else None))) \<and>
   snd (build_transports L run env plugins c) =
     (case default_transport (cfg_mail c) of
        Some d \<Rightarrow> Some d
      | None \<Rightarrow>
          (case smtp (cfg_mail c) of
             None \<Rightarrow> None
           | Some s \<Rightarrow> (case smtp_new L env s of Inl _ \<Rightarrow> None | Inr t \<Rightarrow> Some ''smtp'')))"
proof -
  define base where "base = (case smtp (cfg_mail c) of None \<Rightarrow> []
      | Some s \<Rightarrow> (case smtp_new L env s of Inl _ \<Rightarrow> [] | Inr t \<Rightarrow> hm_insert ''smtp'' (smtp_ops L t) []))"
  have wf: "hm_wf base"
    by (simp add: base_def hm.wf_emp hm.wf_ins split: option.split sum.split)
  have get: "hm_get base n = (case smtp (cfg_mail c) of None \<Rightarrow> None
      | Some s \<Rightarrow> (case smtp_new L env s of Inl _ \<Rightarrow> None | Inr t \<Rightarrow> if n = ''smtp'' then Some (smtp_ops L t) else None))"
    by (simp add: base_def hm.get_emp hm.get_ins [OF hm.wf_emp] split: option.split sum.split)
  have "map_of (rev (map (\<lambda>(n, t). (n, rhai_ops run t)) plugins)) n = map_option (rhai_ops run) (map_of (rev plugins) n)"
    unfolding rev_map by (simp add: map_of_map comp_def)
  moreover have "fst (build_transports L run env plugins c) =
      fold (\<lambda>(k, v). hm_insert k v) (map (\<lambda>(n, t). (n, rhai_ops run t)) plugins) base"
    by (simp add: build_transports_def base_def Let_def split: option.split sum.split)
  ultimately show ?thesis
    using hm.get_insert_all [OF wf, of "map (\<lambda>(n, t). (n, rhai_ops run t)) plugins" n] get
    by (auto simp: build_transports_def Let_def split: option.split sum.split)
qed

end
