(* ===== verification/Relay_Spec.thy ===== *)
theory Relay_Spec
  imports Dispatcher_Properties
begin

text \<open>
  The abstract specification of the relay's queue and dispatcher, and that they implement it. The
  specification knows the stored mails and the ids the transports have accepted, in order, and
  nothing of ticks, tasks, permits, batches, tables or clocks: a mail is accepted once, claimed,
  and then completed, scheduled again, buried or given back. \<open>abs_relay\<close> reads this state off a
  state of the dispatcher, and every step of the dispatcher is a step of the specification.
\<close>

section \<open>Specification\<close>

type_synonym relay_state = "store \<times> mail_id list"

inductive spec_step :: "u32 \<Rightarrow> relay_state \<Rightarrow> relay_state \<Rightarrow> bool" for n where
  Idle: "spec_step n (M, L) (M, L)"
| Accept: "M i = None \<Longrightarrow> spec_step n (M, L) (M(i \<mapsto> from_new new t i), L)"
| Pick: "M i = Some m \<Longrightarrow> live m \<Longrightarrow>
    spec_step n (M, L) (M(i \<mapsto> m\<lparr>status := Sending, last_error := None, updated_at := t\<rparr>), L)"
| Complete: "M i = Some m \<Longrightarrow> status m = Sending \<Longrightarrow>
    spec_step n (M, L) (M(i \<mapsto> m\<lparr>status := Sent, last_error := None, updated_at := t\<rparr>), L @ [i])"
| Retry: "M i = Some m \<Longrightarrow> status m = Sending \<Longrightarrow> unat (attempts m) + 1 < unat n \<Longrightarrow>
    spec_step n (M, L) (M(i \<mapsto> m\<lparr>status := Failed, last_error := Some e, updated_at := t,
                                attempts := attempts m + 1, next_attempt_at := r\<rparr>), L)"
| Bury: "M i = Some m \<Longrightarrow> status m = Sending \<Longrightarrow> unat (attempts m) + 1 \<le> unat n \<Longrightarrow>
    spec_step n (M, L) (M(i \<mapsto> m\<lparr>status := Dead, last_error := Some e, updated_at := t,
                                attempts := attempts m + 1\<rparr>), L)"
| Give_Back:
    "spec_step n (M, L) (\<lambda>i. map_option (\<lambda>m. if status m = Sending \<and> P m
        then m\<lparr>status := Pending, updated_at := t\<rparr> else m) (M i), L)"
| Unrecorded: "distinct is \<Longrightarrow> (\<And>i. i \<in> set is \<Longrightarrow> \<exists>m. M i = Some m \<and> status m = Sending) \<Longrightarrow>
    spec_step n (M, L) (M, L @ is)"

definition delivered :: "(mail_id \<times> exchange) list \<Rightarrow> mail_id list" where
  "delivered xs = map fst (filter (\<lambda>(i, x). success x) xs)"

definition abs_relay :: "('q \<Rightarrow> store) \<Rightarrow> 'q dstate \<Rightarrow> relay_state" where
  "abs_relay view s = (view (queue_of s), delivered (sends s))"

lemma delivered_simps [simp]:
  "delivered [] = []" "delivered ((i, x) # xs) = (if success x then i # delivered xs else delivered xs)"
  "delivered (xs @ ys) = delivered xs @ delivered ys"
  by (simp_all add: delivered_def)

inductive_cases spec_stepE: "spec_step n (M, L) (M', L')"

text \<open>What the specification promises about one mail: it stays, with its message; once \<open>Sent\<close> or \<open>Dead\<close> it is
  final; and the transports are handed only mails in flight.\<close>

lemma spec_step_keeps:
  assumes "spec_step n (M, L) (M', L')" and "M i = Some m"
  shows "\<exists>m'. M' i = Some m' \<and> content m' = content m \<and> (terminal m \<longrightarrow> m' = m)"
  using assms by (elim spec_stepE) (auto simp: content_def terminal_def live_def)

lemma spec_step_handed:
  assumes "spec_step n (M, L) (M', L')"
  shows "\<exists>is. L' = L @ is \<and> (\<forall>i \<in> set is. \<exists>m. M i = Some m \<and> status m = Sending)"
  using assms by (elim spec_stepE) auto

lemma spec_run_keeps:
  assumes "(spec_step n)\<^sup>*\<^sup>* (M, L) (M', L')" and "M i = Some m"
  shows "\<exists>m'. M' i = Some m' \<and> content m' = content m \<and> (terminal m \<longrightarrow> m' = m)"
  using assms(1)
proof (induction rule: rtranclp_induct2)
  case refl
  with assms(2) show ?case by simp
next
  case (step M1 L1 M2 L2)
  then obtain m1 where "M1 i = Some m1" "content m1 = content m" "terminal m \<longrightarrow> m1 = m" by blast
  with spec_step_keeps [OF step(2), of i m1] show ?case by metis
qed

section \<open>Simulation\<close>

lemma spec_requeue: "spec_step n (M, L) (requeue_at io P M, L)"
proof (cases "io_fault io = None")
  case True
  show ?thesis unfolding requeue_at_def requeue_store_def requeued_def if_P [OF True] by (rule spec_step.Give_Back)
qed (auto simp: requeue_at_def intro: spec_step.Idle)

lemma spec_add: "spec_step n (M, L) (add_at io (from_new new t i) M, L)"
  using spec_step.Accept [of M i n L new t] by (auto simp: add_at_def intro: spec_step.Idle)

lemma spec_pick:
  assumes "M i = Some m" and "live m"
  shows "spec_step n (M, L) (upd_at io i (set_mail_status (io_now io) Sending None False None) M, L)"
  using spec_step.Pick [of M i m n L "io_now io"] assms
  by (auto simp: upd_at_def set_mail_status_def intro: spec_step.Idle)

lemma exchange_cases:
  fixes x :: exchange
  obtains (none) "x = None" | (panicked) n where "x = Some (n, None)"
    | (success) n where "x = Some (n, Some (Inr ()))" | (failure) n e where "x = Some (n, Some (Inl e))"
proof (cases x)
  case (Some p)
  then obtain n r where x: "x = Some (n, r)" by (cases p) simp
  show thesis
  proof (cases r)
    case (Some u)
    with x that(3,4) show thesis by (cases u) simp_all
  qed (use x that(2) in simp)
qed (rule that(1))

lemma spec_finish:
  assumes "params_ok C I" and "denv_ok I env" and m: "M (id_of f) = Some m" "claimed_as f m"
    and lim: "attempts f < max_attempts (retry (disp_config I))"
  shows "spec_step (max_attempts (retry (disp_config I))) (M, L)
     (upd_at (d_io env) (id_of f) (mark_mail (io_now (d_io env)) (delivery_mark dbg C I env f)) M,
      L @ delivered [(id_of f, exchange_of I env f)])"
    (is "spec_step ?n _ (?M, _)")
proof -
  let ?i = "id_of f" and ?t = "io_now (d_io env)"
  from m(2) have s: "status m = Sending" and a: "attempts f = attempts m" by (simp_all add: claimed_as_def)
  from lim a have le: "unat (attempts m) + 1 \<le> unat ?n" by (simp add: word_less_nat_alt)
  have M: "?M = (if io_fault (d_io env) = None
      then M(?i \<mapsto> mark_mail ?t (delivery_mark dbg C I env f) m) else M)"
    using m(1) by (simp add: upd_at_def)
  have same: "M(?i \<mapsto> m) = M" using m(1) by (simp add: fun_upd_idem_iff)
  have lost: "spec_step ?n (M, L) (M, L @ [?i])"
    by (rule spec_step.Unrecorded) (use m(1) s in simp_all)
  show ?thesis
  proof (cases "io_fault (d_io env) = None")
    case False
    then have "?M = M" unfolding M by (rule if_not_P)
    with lost show ?thesis by (simp add: spec_step.Idle)
  next
    case True
    then have M': "?M = M(?i \<mapsto> mark_mail ?t (delivery_mark dbg C I env f) m)" unfolding M by (rule if_P)
    note D = delivery_mark_cases [OF assms(1,2) lim]
    show ?thesis
    proof (cases "exchange_of I env f" rule: exchange_cases)
      case none
      then show ?thesis
        unfolding M' unfolding D using spec_step.Bury [where M = M and i = ?i and m = m and n = ?n and L = L and t = ?t] m(1) s le True
        by (simp add: set_mail_status_def)
    next
      case panicked
      then show ?thesis
        unfolding M' unfolding D by (simp add: same spec_step.Idle)
    next
      case success
      then show ?thesis
        unfolding M' unfolding D using spec_step.Complete [of M ?i m ?n L ?t] m(1) s True
        by (simp add: set_mail_status_def)
    next
      case failure
      then show ?thesis
        unfolding M' unfolding D using spec_step.Bury [where M = M and i = ?i and m = m and n = ?n and L = L and t = ?t] spec_step.Retry [where M = M and i = ?i and m = m and n = ?n and L = L and t = ?t] m(1) s le True a
        by (simp add: set_mail_status_def)
    qed
  qed
qed

text \<open>The exchanges a kill leaves unrecorded are those of different mails in flight.\<close>

lemma spec_kill:
  assumes inv: "disp_inv c M p fl" and "distinct (map fst lost)" and k: "\<forall>(k, env) \<in> set lost. k < length fl"
  shows "spec_step n (M, L) (M, L @ delivered (map (\<lambda>(k, env). (id_of (fl ! k), exchange_of I env (fl ! k))) lost))"
proof -
  let ?ok = "filter (\<lambda>(k, env). success (exchange_of I env (fl ! k))) lost"
  define ks where "ks = map fst ?ok"
  have eq: "delivered (map (\<lambda>(k, env). (id_of (fl ! k), exchange_of I env (fl ! k))) lost) = map (\<lambda>k. id_of (fl ! k)) ks"
    unfolding ks_def by (induction lost) auto
  have ks: "distinct ks" "\<forall>k \<in> set ks. k < length fl"
    using assms(2) k by (auto simp: ks_def distinct_map_filter)
  have "distinct (map id_of fl)" using disp_invD(1) [OF inv] by simp
  then have "inj_on (\<lambda>k. id_of (fl ! k)) {..<length fl}"
    using nth_eq_iff_index_eq [of "map id_of fl"] by (auto simp: inj_on_def)
  with ks have "distinct (map (\<lambda>k. id_of (fl ! k)) ks)"
    by (auto simp: distinct_map intro: inj_on_subset)
  moreover have "\<exists>m. M i = Some m \<and> status m = Sending" if "i \<in> set (map (\<lambda>k. id_of (fl ! k)) ks)" for i
  proof -
    from that ks(2) obtain k where "k < length fl" "i = id_of (fl ! k)" by auto
    with flight_nth [OF inv] show ?thesis by (metis claimed_as_def)
  qed
  ultimately show ?thesis unfolding eq by (rule spec_step.Unrecorded)
qed

section \<open>Channels\<close>

text \<open>What an exchange logged for the mail \<open>i\<close> says about it: the transport used is the one the mail
  requests, or the default for a mail that requests none, and it is registered under that name.\<close>

definition channel_ok :: "'n inner \<Rightarrow> store \<Rightarrow> mail_id \<Rightarrow> exchange \<Rightarrow> bool" where
  "channel_ok I M i x =
     (case M i of
        None \<Rightarrow> False
      | Some m \<Rightarrow>
          (let wanted = (case transport m of Some t \<Rightarrow> Some t | None \<Rightarrow> disp_default I)
           in case x of
                None \<Rightarrow> (case wanted of None \<Rightarrow> True | Some t \<Rightarrow> hm_get (transports I) t = None)
              | Some (n, r) \<Rightarrow> wanted = Some n \<and> hm_get (transports I) n \<noteq> None))"

lemma exchange_channel:
  assumes "M (id_of f) = Some m" and "claimed_as f m"
  shows "channel_ok I M (id_of f) (exchange_of I env f)"
  using assms
  by (auto simp: channel_ok_def exchange_of_def pick_transport_def claimed_as_def content_def Let_def
      split: option.splits bind_splits)

lemma channel_ok_evolves:
  assumes "evolves M M'" and "channel_ok I M i x"
  shows "channel_ok I M' i x"
proof -
  from assms(2) obtain m where m: "M i = Some m" by (auto simp: channel_ok_def split: option.splits)
  with assms(1) obtain m' where m': "M' i = Some m'" "content m' = content m" unfolding evolves_def by blast
  then have "transport m' = transport m" by (simp add: content_def)
  with assms(2) m m'(1) show ?thesis by (simp add: channel_ok_def)
qed

section \<open>The simulation over the contract\<close>

locale relay_refinement = mail_dispatch
begin

lemma step_refines:
  assumes q: "ok (queue_of s)" and p: "params_ok C I" and a: "action_ok I a"
    and inv: "sys_inv I (view (queue_of s)) s" and st: "step dbg Q C I a s = Some s'"
  shows "spec_step (max_attempts (retry (disp_config I))) (abs_relay view s) (abs_relay view s')"
proof -
  let ?M = "view (queue_of s)"
  note S = conjunct2 [OF step_store [OF q p a st]] and L = step_sends [OF st]
  from inv have d: "disp_inv (concurrency (disp_config I)) ?M (phase_of s) (flight s)"
    and b: "budget (max_attempts (retry (disp_config I))) ?M" by (simp_all add: sys_inv_def)
  show ?thesis
  proof (cases a)
    case (Claim io)
    from st [unfolded Claim] obtain m ms n where ph: "phase_of s = Claiming (m # ms) n" by (rule step_Claim)
    from spec_pick [of ?M "id_of m" m, OF claim_head [OF d [unfolded ph]]] ph S L Claim show ?thesis by (simp add: abs_relay_def)
  next
    case (Finish k env)
    from st Finish have k: "k < length (flight s)" by (simp split: if_splits)
    from flight_nth [OF d k] obtain m where m: "?M (id_of (flight s ! k)) = Some m"
      "claimed_as (flight s ! k) m" "\<not> terminal m" .
    from budgetD [OF b m(1,3)] m(2) have
      "attempts (flight s ! k) < max_attempts (retry (disp_config I))" by (simp add: claimed_as_def)
    from spec_finish [where M = ?M and f = "flight s ! k" and m = m and env = env, OF p _ m(1,2) this] a S L Finish show ?thesis by (simp add: abs_relay_def)
  next
    case (Kill lost)
    from st Kill have "distinct (map fst lost)" "\<forall>(k, env) \<in> set lost. k < length (flight s)"
      by (auto split: if_splits)
    from spec_kill [OF d this] S L Kill show ?thesis by (simp add: abs_relay_def)
  qed (use S L in \<open>simp_all add: abs_relay_def spec_requeue spec_add spec_step.Idle\<close>)
qed

text \<open>Every exchange went through the transport its mail asks for.\<close>

lemma step_channel:
  assumes q: "ok (queue_of s)" and p: "params_ok C I" and a: "action_ok I a"
    and inv: "sys_inv I (view (queue_of s)) s" and st: "step dbg Q C I a s = Some s'"
    and old: "\<forall>i x. (i, x) \<in> set (sends s) \<longrightarrow> channel_ok I (view (queue_of s)) i x"
  shows "\<forall>i x. (i, x) \<in> set (sends s') \<longrightarrow> channel_ok I (view (queue_of s')) i x"
proof -
  note ev = step_inv(3) [OF q p a inv st]
  from inv have d: "disp_inv (concurrency (disp_config I)) (view (queue_of s)) (phase_of s) (flight s)"
    by (simp add: sys_inv_def)
  have new: "channel_ok I (view (queue_of s)) (id_of (flight s ! k)) (exchange_of I env (flight s ! k))"
    if "k < length (flight s)" for k env
    using flight_nth [OF d that] by (auto intro: exchange_channel)
  have "set (sends s') \<subseteq> set (sends s) \<union> {(id_of (flight s ! k), exchange_of I env (flight s ! k)) |k env. k < length (flight s)}"
    using step_sends [OF st] st by (auto split: action.splits if_splits)
  with old new have "\<forall>i x. (i, x) \<in> set (sends s') \<longrightarrow> channel_ok I (view (queue_of s)) i x" by auto
  then show ?thesis using channel_ok_evolves [OF ev] by blast
qed

lemma reachable_channel:
  assumes "reachable P dbg Q C I q0 s" and "ok q0" and "params_ok C I"
    and "budget (max_attempts (retry (disp_config I))) (view q0)"
    and P: "\<And>a. P a \<Longrightarrow> action_ok I a"
  shows "\<forall>i x. (i, x) \<in> set (sends s) \<longrightarrow> channel_ok I (view (queue_of s)) i x"
  using assms(1)
proof (induction rule: reachable.induct)
  case init
  then show ?case by (simp add: start_def)
next
  case (next_step s a s')
  from reachable_inv [OF next_step(1) assms(2-4) P] have "ok (queue_of s)" "sys_inv I (view (queue_of s)) s" by simp_all
  from step_channel [OF this(1) assms(3) P [OF next_step(2)] this(2) next_step(3,4)] show ?case .
qed

lemma reachable_refines:
  assumes "reachable P dbg Q C I q0 s" and "ok q0" and "params_ok C I"
    and "budget (max_attempts (retry (disp_config I))) (view q0)"
    and P: "\<And>a. P a \<Longrightarrow> action_ok I a"
  shows "(spec_step (max_attempts (retry (disp_config I))))\<^sup>*\<^sup>* (view q0, []) (abs_relay view s)"
  using assms(1)
proof (induction rule: reachable.induct)
  case init
  then show ?case by (simp add: abs_relay_def start_def)
next
  case (next_step s a s')
  from reachable_inv [OF next_step(1) assms(2-4) P] have "ok (queue_of s)" "sys_inv I (view (queue_of s)) s" by simp_all
  from step_refines [OF this(1) assms(3) P [OF next_step(2)] this(2) next_step(3)] next_step(4) show ?case
    by (rule rtranclp.rtrancl_into_rtrancl [rotated])
qed

end

interpretation rq: relay_refinement "sqlite_ops E" "db_inv E" "db_view E" "uuid_to_string E" for E
  by unfold_locales

section \<open>Refinement\<close>

text \<open>C7: The dispatcher on the SQLite queue implements the specification: every reachable state is
  reached by the specification from the initial mails with nothing delivered, and from there every
  step, of any kind and with any answers of clock, queue and transports, is a step of the
  specification on the stored mails and the ids accepted by the transports. So a mail is accepted
  once, is handed out only while pending or failed, and every mail in flight is completed after a
  success, scheduled again while attempts are left, buried at the latest with the last one, or
  given back.\<close>

theorem dispatcher_refines_spec:
  assumes "reachable (action_ok I) dbg (sqlite_ops E) C I q0 s" and "db_inv E q0" and "params_ok C I"
    and "budget (max_attempts (retry (disp_config I))) (db_view E q0)"
  shows "(spec_step (max_attempts (retry (disp_config I))))\<^sup>*\<^sup>* (db_view E q0, []) (abs_relay (db_view E) s) \<and>
     (\<forall>a s'. action_ok I a \<and> step dbg (sqlite_ops E) C I a s = Some s' \<longrightarrow>
        spec_step (max_attempts (retry (disp_config I))) (abs_relay (db_view E) s) (abs_relay (db_view E) s'))"
proof -
  from dq.reachable_inv [OF assms] have "db_inv E (queue_of s)" "sys_inv I (db_view E (queue_of s)) s" by simp_all
  with rq.reachable_refines [OF assms] rq.step_refines [OF _ assms(3)] show ?thesis by blast
qed

theorem dispatcher_refines_spec_witness:
  "\<exists>s s' :: row list dstate. step True sample_ops sample_chrono sample_inner (Finish 0 (sample_env True 7)) s = Some s' \<and>
     spec_step 5 (abs_relay (db_view sample_codec) s) (abs_relay (db_view sample_codec) s')"
proof -
  from sample_flying obtain s where s: "sample_reach s" "flight s = [from_new hello 1 3]" by blast
  obtain s' where st: "step True sample_ops sample_chrono sample_inner (Finish 0 (sample_env True 7)) s = Some s'"
    using s by simp
  have "action_ok sample_inner (Finish 0 (sample_env True 7))" by simp
  with dispatcher_refines_spec [OF sample_reach_any [OF s(1)] one_mail_inv sample_params sample_budget] st
  show ?thesis unfolding sample_config by blast
qed

text \<open>C14: No mail goes out on a channel it was not meant for: in every reachable state, each exchange in
  the log was made for a stored mail with the transport the mail requests, or with the default one if
  it requests none, and that transport is registered; and a mail is buried for want of a transport
  only if there is none under that name.\<close>

theorem exchanges_use_requested_transport:
  assumes "reachable (action_ok I) dbg (sqlite_ops E) C I q0 s" and "db_inv E q0" and "params_ok C I"
    and "budget (max_attempts (retry (disp_config I))) (db_view E q0)" and "(i, x) \<in> set (sends s)"
  shows "\<exists>m. db_view E (queue_of s) i = Some m \<and>
     (case x of
        Some (n, r) \<Rightarrow>
          (case transport m of Some t \<Rightarrow> n = t | None \<Rightarrow> disp_default I = Some n) \<and> n \<in> fst ` set (transports I)
      | None \<Rightarrow>
          (case transport m of
             Some t \<Rightarrow> t \<notin> fst ` set (transports I)
           | None \<Rightarrow> (\<forall>d. disp_default I = Some d \<longrightarrow> d \<notin> fst ` set (transports I))))"
proof -
  from rq.reachable_channel [OF assms(1-4)] assms(5) have "channel_ok I (db_view E (queue_of s)) i x" by auto
  then obtain m where m: "db_view E (queue_of s) i = Some m" and c: "channel_ok I (db_view E (queue_of s)) i x"
    by (auto simp: channel_ok_def split: option.splits)
  show ?thesis
    by (rule exI [of _ m])
      (use m c in \<open>auto simp: channel_ok_def Let_def hm_get_def map_of_eq_None_iff rev_image_eqI split: option.splits\<close>)
qed

theorem exchanges_use_requested_transport_witness:
  "\<exists>(s :: row list dstate) n r m. (3, Some (n, r)) \<in> set (sends s) \<and> db_view sample_codec (queue_of s) 3 = Some m \<and>
     n \<in> fst ` set (transports sample_inner)"
proof -
  from sample_flying obtain s where s: "sample_reach s" "flight s = [from_new hello 1 3]" by blast
  let ?a = "Finish 0 (sample_env True 7)" and ?x = "Some (''smtp'', Some (Inr ()))"
  obtain s' where st: "step True sample_ops sample_chrono sample_inner ?a s = Some s'" using s by simp
  have l: "(3, ?x) \<in> set (sends s')"
    using s(2) by (simp add: step_sends [OF st] exchange_of_def sample_pick sample_transport_def)
  have r: "reachable (action_ok sample_inner) True sample_ops sample_chrono sample_inner one_mail s'"
    by (rule reachable.next_step [OF sample_reach_any [OF s(1)] _ st]) simp
  from exchanges_use_requested_transport [OF r one_mail_inv sample_params sample_budget l] l show ?thesis by auto
qed

end
