(* ===== verification/Relay_Shell.thy ===== *)
theory Relay_Shell
  imports Relay_Main Relay_Spec
begin

text \<open>
  Models the rest of \<open>crates/oxid-relay/src/main.rs\<close> and of \<open>crates/logging/src/lib.rs\<close>: the whole of \<open>run_relay\<close> as
  start-up followed by a run of the dispatcher until it is told to stop, the two ways to run it
  (in the foreground and under the Windows service manager, with the reports it gets), the signals
  that end it, and the installation of the log subscriber. The operating system and the runtime
  builder are parameters.
\<close>

section \<open>Logging and environment\<close>

text \<open>\<open>try_init\<close> installs a subscriber with the given colours and filter, and fails when there is one.\<close>

definition init_logging ::
  "(bool \<Rightarrow> 'f \<Rightarrow> string + unit) \<Rightarrow> (string + 'f) \<Rightarrow> (string \<Rightarrow> string + 'f) \<Rightarrow> 'f \<Rightarrow> bool \<Rightarrow> bool \<Rightarrow> string \<Rightarrow> string + unit" where
  "init_logging try_init from_env try_new fallback is_terminal windows lvl =
     try_init (use_ansi is_terminal windows) (build_filter from_env try_new fallback lvl)"

text \<open>\<open>dotenv\<close> answers the path of the file and the environment with its variables; the second result is
  the line for the standard error.\<close>

definition load_dotenv ::
  "bool \<Rightarrow> ('env \<Rightarrow> string + (string \<times> 'env)) \<Rightarrow> 'env \<Rightarrow> 'env \<times> string option" where
  "load_dotenv debug_assertions dotenv env =
     (if debug_assertions
      then (case dotenv env of
              Inr (path, env') \<Rightarrow> (env', Some (''loaded environment from '' @ path))
            | Inl _ \<Rightarrow> (env, None))
      else (env, None))"

text \<open>What can end a wait: \<open>ctrl_c\<close> returns (also with an error), or the SIGTERM stream yields.\<close>

datatype os_event = CtrlC | CtrlCError | Sigterm

definition ends_relay :: "bool \<Rightarrow> bool \<Rightarrow> os_event \<Rightarrow> bool" where
  "ends_relay unix term_ok e =
     (case e of CtrlC \<Rightarrow> True | CtrlCError \<Rightarrow> True | Sigterm \<Rightarrow> unix \<and> term_ok)"

fun shutdown_signal :: "bool \<Rightarrow> bool \<Rightarrow> os_event list \<Rightarrow> bool" where
  "shutdown_signal unix term_ok [] = False"
| "shutdown_signal unix term_ok (e # es) =
     (if ends_relay unix term_ok e then True else shutdown_signal unix term_ok es)"

section \<open>Running\<close>

text \<open>\<open>run_relay\<close> with the actions the dispatcher's machine takes: an error of the start-up, the final
  state when the dispatcher has stopped, and nothing while it still runs.\<close>

definition run_relay ::
  "bool \<Rightarrow> codec \<Rightarrow> chrono \<Rightarrow> start_env \<Rightarrow> ('b, 'msg, 'n) lettre \<Rightarrow>
   ('n \<Rightarrow> 'ast \<Rightarrow> string \<Rightarrow> dyn btree_map \<times> dyn btree_map \<Rightarrow> string + (string + unit)) \<Rightarrow>
   'ast plugin_env \<Rightarrow> (string \<Rightarrow> string option) \<Rightarrow> ('i, 'net, 'r, 'm) smtp_ext \<Rightarrow> 'n action list \<Rightarrow> string \<Rightarrow>
   (startup_error + row list dstate) option" where
  "run_relay dbg E C S L run P env X as path =
     (case start_relay S L run P env X path of
        Inl e \<Rightarrow> Some (Inl e)
      | Inr r \<Rightarrow>
          (case steps dbg (sqlite_ops E) C (relay_inner r) as (start (relay_queue r)) of
             None \<Rightarrow> None
           | Some s \<Rightarrow> if phase_of s = Stopped then Some (Inr s) else None))"

datatype 'e shell_error =
    RuntimeFailed string
  | RegisterFailed string
  | StatusFailed string
  | ServiceDispatcherFailed string
  | RelayFailed 'e

text \<open>In both ways of running, \<open>relay\<close> is what \<open>run_relay\<close> answers for a configuration path.\<close>

definition run_foreground :: "string + unit \<Rightarrow> (string \<Rightarrow> 'e + unit) \<Rightarrow> string \<Rightarrow> 'e shell_error + unit" where
  "run_foreground runtime relay path =
     res_bind (map_err (\<lambda>_. RuntimeFailed ''building async runtime'') runtime) (\<lambda>_.
     map_err RelayFailed (relay path))"

section \<open>Windows service\<close>

datatype service_state = SvcRunning | SvcStopped

record service_status =
  sv_type :: string
  sv_state :: service_state
  sv_controls :: "service_control list"
  sv_exit_code :: nat
  sv_checkpoint :: nat
  sv_wait_hint :: duration
  sv_process_id :: "nat option"

definition status_report :: "service_state \<Rightarrow> service_control list \<Rightarrow> service_status" where
  "status_report st controls =
     \<lparr>sv_type = ''OWN_PROCESS'', sv_state = st, sv_controls = controls, sv_exit_code = 0,
      sv_checkpoint = 0, sv_wait_hint = from_secs 0, sv_process_id = None\<rparr>"

text \<open>\<open>register\<close>, \<open>report\<close> and \<open>runtime\<close> are what the service manager and the runtime builder answer;
  \<open>config_path\<close> is the content of \<open>CONFIG_PATH\<close>. The result has the reports that were made.\<close>

definition run_service ::
  "string + unit \<Rightarrow> (service_status \<Rightarrow> string + unit) \<Rightarrow> string + unit \<Rightarrow> (string \<Rightarrow> 'e + unit) \<Rightarrow> string option \<Rightarrow>
   service_status list \<times> ('e shell_error + unit)" where
  "run_service register report runtime relay config_path =
     (case register of
        Inl e \<Rightarrow> ([], Inl (RegisterFailed (''registering control handler: '' @ e)))
      | Inr _ \<Rightarrow>
          (let up = status_report SvcRunning [SC_Stop, SC_Shutdown];
               down = status_report SvcStopped []
           in case report up of
                Inl e \<Rightarrow> ([up], Inl (StatusFailed (''setting running status: '' @ e)))
              | Inr _ \<Rightarrow>
                  (let path = (case config_path of Some p \<Rightarrow> p | None \<Rightarrow> ''config.toml'')
                   in case runtime of
                        Inl e \<Rightarrow> ([up], Inl (RuntimeFailed (''building async runtime: '' @ e)))
                      | Inr _ \<Rightarrow> ([up, down], map_err RelayFailed (relay path)))))"

text \<open>\<open>run\<close>: the path is stored unless there is one already, and the service dispatcher, when it starts, calls
  \<open>service_main\<close>, which prints an error and returns.\<close>

definition service_runner ::
  "string + unit \<Rightarrow> (string option \<Rightarrow> service_status list \<times> ('e shell_error + unit)) \<Rightarrow> string option \<Rightarrow> string \<Rightarrow>
   service_status list \<times> ('e shell_error + unit)" where
  "service_runner dispatcher service config_path path =
     (case dispatcher of
        Inl e \<Rightarrow> ([], Inl (ServiceDispatcherFailed (''starting service dispatcher: '' @ e)))
      | Inr _ \<Rightarrow> (fst (service (Some (case config_path of Some p \<Rightarrow> p | None \<Rightarrow> path))), Inr ()))"

record cli =
  cli_config :: string
  cli_service :: bool

definition main_entry ::
  "bool \<Rightarrow> (string \<Rightarrow> 'res) \<Rightarrow> (string \<Rightarrow> 'res) \<Rightarrow> cli \<Rightarrow> 'res" where
  "main_entry windows as_service in_foreground c =
     (if windows \<and> cli_service c then as_service (cli_config c) else in_foreground (cli_config c))"

section \<open>The whole run\<close>

lemma steps_reachable:
  assumes "steps dbg Q C I as s = Some s'" and "reachable P dbg Q C I q0 s" and "\<forall>a \<in> set as. P a"
  shows "reachable P dbg Q C I q0 s'"
  using assms
proof (induction as arbitrary: s)
  case (Cons a as)
  from Cons.prems(1) obtain s1 where st: "step dbg Q C I a s = Some s1" and rest: "steps dbg Q C I as s1 = Some s'"
    by (auto split: option.splits)
  from Cons.IH [OF rest reachable.next_step [OF Cons.prems(2) _ st]] Cons.prems(3) show ?case by simp
qed simp

lemma run_relay_Inr:
  assumes "run_relay dbg E C S L run P env X as path = Some (Inr s)"
  obtains r where "start_relay S L run P env X path = Inr r"
    and "steps dbg (sqlite_ops E) C (relay_inner r) as (start (relay_queue r)) = Some s" and "phase_of s = Stopped"
  using assms by (auto simp: run_relay_def split: sum.splits option.splits if_splits)

text \<open>C13: A relay that was started and has stopped on request has done so between two ticks, with no
  delivery in flight, and its whole run is one of the specification: from the mails it found, by
  accepted mails and recorded or lost outcomes, to the mails it leaves; on a fresh database it
  finds none, and on any well formed one every mail it found is still there with its message
  unchanged, and untouched if it was \<open>Sent\<close> or \<open>Dead\<close> already.\<close>

theorem relay_run_refines_spec:
  assumes "run_relay dbg E C S L run P env X as path = Some (Inr s)" and "chrono_ok C" and "codec_ok E"
    and "start_relay S L run P env X path = Inr r" and "\<forall>a \<in> set as. action_ok (relay_inner r) a"
    and "(\<forall>db. se_pool S db = Inr None) \<or> db_inv E (relay_queue r) \<and>
           budget (max_attempts (retry (disp_config (relay_inner r)))) (db_view E (relay_queue r))"
  shows "phase_of s = Stopped \<and> flight s = [] \<and>
     (spec_step (max_attempts (retry (disp_config (relay_inner r)))))\<^sup>*\<^sup>*
        (db_view E (relay_queue r), []) (abs_relay (db_view E) s) \<and>
     ((\<forall>db. se_pool S db = Inr None) \<longrightarrow> relay_queue r = []) \<and>
     (\<forall>i m. db_view E (relay_queue r) i = Some m \<longrightarrow>
        (\<exists>m'. db_view E (queue_of s) i = Some m' \<and> content m' = content m \<and> (status m \<in> {Sent, Dead} \<longrightarrow> m' = m)))"
proof -
  from assms(1,4) have run: "steps dbg (sqlite_ops E) C (relay_inner r) as (start (relay_queue r)) = Some s"
    and stop: "phase_of s = Stopped" by (auto elim: run_relay_Inr)
  have fresh: "relay_queue r = []" if "\<forall>db. se_pool S db = Inr None"
    using assms(4) that by (elim start_relay_Inr) (auto simp: connect_def migrate_def res_bind_eq_Inr_iff split: option.splits)
  have p: "params_ok C (relay_inner r)" by (rule started_params [OF assms(4,2)])
  then have max: "0 < max_attempts (retry (disp_config (relay_inner r)))" by (simp add: params_ok_def)
  have q: "db_inv E (relay_queue r)" using assms(3,6) fresh by (auto simp: db_inv_def)
  have b: "budget (max_attempts (retry (disp_config (relay_inner r)))) (db_view E (relay_queue r))"
    using assms(6) fresh max by (auto simp: budget_def db_view_def)
  have r: "reachable (action_ok (relay_inner r)) dbg (sqlite_ops E) C (relay_inner r) (relay_queue r) s"
    by (rule steps_reachable [OF run reachable.init assms(5)])
  from dq.reachable_inv [OF r q p b] have inv: "sys_inv (relay_inner r) (db_view E (queue_of s)) s" by simp
  have "flight s = []" using disp_invD(5) [OF conjunct1 [OF inv [unfolded sys_inv_def]]] stop by simp
  moreover note run_spec = rq.reachable_refines [OF r q p b]
  moreover have "\<exists>m'. db_view E (queue_of s) i = Some m' \<and> content m' = content m \<and> (status m \<in> {Sent, Dead} \<longrightarrow> m' = m)"
    if "db_view E (relay_queue r) i = Some m" for i m
    using spec_run_keeps [OF run_spec [unfolded abs_relay_def] that] by (auto simp: terminal_def)
  ultimately show ?thesis using stop fresh by blast
qed

theorem relay_run_refines_spec_witness:
  "\<exists>n s. run_relay True sample_codec sample_chrono (sample_start None Locked) sample_lettre sample_run sample_plugins
       (\<lambda>_. None) sample_ext [Recover (calm 1), Shutdown] ''c.toml'' = Some (Inr s) \<and>
     (spec_step n)\<^sup>*\<^sup>*
        (db_view sample_codec [], []) (abs_relay (db_view sample_codec) s)"
proof -
  obtain r where r: "start_relay (sample_start None Locked) sample_lettre sample_run sample_plugins (\<lambda>_. None) sample_ext ''c.toml'' = Inr r"
    using sample_start_ok ..
  from started_relay_poll [OF r] obtain s where s: "run_relay True sample_codec sample_chrono (sample_start None Locked)
      sample_lettre sample_run sample_plugins (\<lambda>_. None) sample_ext [Recover (calm 1), Shutdown] ''c.toml'' = Some (Inr s)"
    by (simp add: run_relay_def r start_def)
  have fresh: "\<forall>db. se_pool (sample_start None Locked) db = Inr None" by (simp add: sample_start_def)
  have ok: "\<forall>a \<in> set [Recover (calm 1), Shutdown]. action_ok (relay_inner r) a" by simp
  from relay_run_refines_spec [OF s sample_chrono_ok sample_codec_ok r ok disjI1 [OF fresh]] fresh s
  show ?thesis by auto
qed

end
