(* ===== verification/Relay_System.thy ===== *)
theory Relay_System
  imports Relay_Spec Ingress_Properties
begin

text \<open>
  The running relay as one system: the dispatcher (theory \<open>Dispatcher\<close>) and any number of SMTP
  connections, each served by a worker thread with its own clone of the \<open>RelayHandler\<close>, on one
  queue. A connection makes the callbacks of \<open>crates/ingress-smtp/src/lib.rs\<close> one by one; the loop of
  \<open>data_end\<close> over its targets is taken apart at its blocking queue calls, so that connections,
  deliveries, faults and kills interleave freely between them. The state also logs what the
  properties speak about: for every mail stored the peer and the callbacks of its connection, and
  for every message the answer and the mails behind it.
\<close>

section \<open>Connections\<close>

text \<open>\<open>job\<close> is the loop of \<open>data_end\<close> in progress: the message, the targets left, the mails stored so far
  (the counter \<open>accepted\<close> is their number). \<open>opened\<close>: a transaction whose \<open>mail\<close> callback answered \<open>OK\<close>
  is open.\<close>

record 'i conn =
  peer :: 'i
  handler :: relay_handler
  calls :: "command list"
  opened :: bool
  job :: "(new_mail \<times> route_target list \<times> mail list) option"

definition conn_new :: "'i \<Rightarrow> 'i conn" where
  "conn_new ip = \<lparr>peer = ip, handler = handler_new, calls = [], opened = False, job = None\<rparr>"

fun opens :: "command \<Rightarrow> response option \<Rightarrow> bool \<Rightarrow> bool" where
  "opens (MailFrom f) r was = (r = Some OK)"
| "opens Helo r was = False"
| "opens (DataEnd env) r was = False"
| "opens _ r was = was"

definition call_back ::
  "(string \<Rightarrow> string option) \<Rightarrow> ('i, 'n, 'r, 'm) smtp_ext \<Rightarrow> ('n, 'r) smtp_context \<Rightarrow> 'q queue_ops \<Rightarrow> command \<Rightarrow>
   'q \<Rightarrow> 'i conn \<Rightarrow> 'i conn" where
  "call_back ev X ctx Q cmd q k =
     (case handle ev X ctx Q (peer k) cmd (handler k, q) of
        ((h, q'), r) \<Rightarrow> k\<lparr>handler := h, calls := calls k @ [cmd], opened := opens cmd r (opened k)\<rparr>)"

text \<open>\<open>data_end\<close> up to its loop: an answer at once, or the targets.\<close>

definition end_of_data ::
  "('i, 'n, 'r, 'm) smtp_ext \<Rightarrow> ('n, 'r) smtp_context \<Rightarrow> relay_handler \<Rightarrow> response + (new_mail \<times> route_target list)" where
  "end_of_data X ctx h =
     (case build_new_mail X ctx h of
        Inl err \<Rightarrow> Inl (Custom 554 (''rejected: '' @ core_error_to_string err))
      | Inr new \<Rightarrow>
          (case (if is_active (ctx_routing ctx) then resolve (ctx_routing ctx) (email (nm_from new))
                 else Deliver [\<lparr>rt_transport = [], rt_recipients = None\<rparr>]) of
             Reject \<Rightarrow> Inl (Custom 550 ''sender not permitted'')
           | Deliver targets \<Rightarrow> Inr (new, targets)))"

text \<open>One round of the loop, with the mail it stored if it did, and the answer after the last one.\<close>

definition serve_target :: "'q queue_ops \<Rightarrow> tenv \<Rightarrow> new_mail \<Rightarrow> route_target \<Rightarrow> 'q \<Rightarrow> 'q \<times> mail list" where
  "serve_target Q env new t q =
     (case validate_mail (target_payload new t) of
        Inl _ \<Rightarrow> (q, [])
      | Inr _ \<Rightarrow>
          (case q_enqueue Q (t_io env) (from_new (target_payload new t) (t_now env) (t_uuid env)) q of
             (q', Inr m) \<Rightarrow> (q', [m])
           | (q', Inl _) \<Rightarrow> (q', [])))"

definition data_answer :: "mail list \<Rightarrow> response" where
  "data_answer accepted = (if length accepted = 0 then INTERNAL_ERROR else OK)"

section \<open>The system\<close>

record ('i, 'q) system =
  disp :: "'q dstate"
  conns :: "nat \<rightharpoonup> 'i conn"
  intake :: "(mail \<times> 'i \<times> command list) list"
  answers :: "(nat \<times> response \<times> mail list) list"

text \<open>\<open>Relay a\<close> is a step of the dispatcher, whose \<open>Kill\<close> ends every connection with the process; what
  reaches the queue from outside comes by \<open>Target\<close>.\<close>

datatype ('i, 'n) event =
    Relay "'n action"
  | Connect nat 'i
  | Callback nat command
  | EndOfData nat
  | Target nat tenv
  | Reply nat
  | Close nat

fun own_action :: "'n action \<Rightarrow> bool" where
  "own_action (Ingress new t i io) = False"
| "own_action a = True"

fun survives :: "'n action \<Rightarrow> bool" where
  "survives (Kill lost) = False"
| "survives a = True"

fun is_data_end :: "command \<Rightarrow> bool" where
  "is_data_end (DataEnd env) = True"
| "is_data_end c = False"

fun sys_step ::
  "(string \<Rightarrow> string option) \<Rightarrow> ('i, 'net, 'r, 'm) smtp_ext \<Rightarrow> ('net, 'r) smtp_context \<Rightarrow> bool \<Rightarrow> 'q queue_ops \<Rightarrow>
   chrono \<Rightarrow> 'n inner \<Rightarrow> ('i, 'n) event \<Rightarrow> ('i, 'q) system \<Rightarrow> ('i, 'q) system option" where
  "sys_step ev X ctx dbg Q C I (Relay a) S =
     (if own_action a
      then map_option (\<lambda>s. S\<lparr>disp := s, conns := (if survives a then conns S else Map.empty)\<rparr>)
             (step dbg Q C I a (disp S))
      else None)"
| "sys_step ev X ctx dbg Q C I (Connect c ip) S =
     (if conns S c = None then Some (S\<lparr>conns := (conns S)(c \<mapsto> conn_new ip)\<rparr>) else None)"
| "sys_step ev X ctx dbg Q C I (Callback c cmd) S =
     (case conns S c of
        None \<Rightarrow> None
      | Some k \<Rightarrow>
          (if job k = None \<and> \<not> is_data_end cmd
           then Some (S\<lparr>conns := (conns S)(c \<mapsto> call_back ev X ctx Q cmd (queue_of (disp S)) k)\<rparr>)
           else None))"
| "sys_step ev X ctx dbg Q C I (EndOfData c) S =
     (case conns S c of
        None \<Rightarrow> None
      | Some k \<Rightarrow>
          (if job k = None \<and> opened k
           then Some (case end_of_data X ctx (handler k) of
                  Inl r \<Rightarrow> S\<lparr>conns := (conns S)(c \<mapsto> k\<lparr>opened := False\<rparr>), answers := answers S @ [(c, r, [])]\<rparr>
                | Inr (new, ts) \<Rightarrow> S\<lparr>conns := (conns S)(c \<mapsto> k\<lparr>opened := False, job := Some (new, ts, [])\<rparr>)\<rparr>)
           else None))"
| "sys_step ev X ctx dbg Q C I (Target c env) S =
     (case conns S c of
        None \<Rightarrow> None
      | Some k \<Rightarrow>
          (case job k of
             Some (new, t # ts, accepted) \<Rightarrow>
               (case serve_target Q env new t (queue_of (disp S)) of
                  (q, stored_now) \<Rightarrow>
                    Some (S\<lparr>disp := (disp S)\<lparr>queue_of := q\<rparr>,
                            conns := (conns S)(c \<mapsto> k\<lparr>job := Some (new, ts, accepted @ stored_now)\<rparr>),
                            intake := intake S @ map (\<lambda>m. (m, peer k, calls k)) stored_now\<rparr>))
           | _ \<Rightarrow> None))"
| "sys_step ev X ctx dbg Q C I (Reply c) S =
     (case conns S c of
        None \<Rightarrow> None
      | Some k \<Rightarrow>
          (case job k of
             Some (new, [], accepted) \<Rightarrow>
               Some (S\<lparr>conns := (conns S)(c \<mapsto> k\<lparr>job := None\<rparr>),
                       answers := answers S @ [(c, data_answer accepted, accepted)]\<rparr>)
           | _ \<Rightarrow> None))"
| "sys_step ev X ctx dbg Q C I (Close c) S = Some (S\<lparr>conns := (conns S)(c := None)\<rparr>)"

fun sys_steps ::
  "(string \<Rightarrow> string option) \<Rightarrow> ('i, 'net, 'r, 'm) smtp_ext \<Rightarrow> ('net, 'r) smtp_context \<Rightarrow> bool \<Rightarrow> 'q queue_ops \<Rightarrow>
   chrono \<Rightarrow> 'n inner \<Rightarrow> ('i, 'n) event list \<Rightarrow> ('i, 'q) system \<Rightarrow> ('i, 'q) system option" where
  "sys_steps ev X ctx dbg Q C I [] S = Some S"
| "sys_steps ev X ctx dbg Q C I (e # es) S =
     (case sys_step ev X ctx dbg Q C I e S of None \<Rightarrow> None | Some S' \<Rightarrow> sys_steps ev X ctx dbg Q C I es S')"

definition sys_start :: "'q \<Rightarrow> ('i, 'q) system" where
  "sys_start q = \<lparr>disp = start q, conns = Map.empty, intake = [], answers = []\<rparr>"

fun event_ok :: "'n inner \<Rightarrow> ('i, 'n) event \<Rightarrow> bool" where
  "event_ok I (Relay a) = action_ok I a"
| "event_ok I (Target c env) = ts_ok (t_now env)"
| "event_ok I e = True"

inductive sys_reachable ::
  "(string \<Rightarrow> string option) \<Rightarrow> ('i, 'net, 'r, 'm) smtp_ext \<Rightarrow> ('net, 'r) smtp_context \<Rightarrow> bool \<Rightarrow> 'q queue_ops \<Rightarrow>
   chrono \<Rightarrow> 'n inner \<Rightarrow> 'q \<Rightarrow> ('i, 'q) system \<Rightarrow> bool"
  for ev X ctx dbg Q C I q0 where
  sys_init: "sys_reachable ev X ctx dbg Q C I q0 (sys_start q0)"
| sys_next: "sys_reachable ev X ctx dbg Q C I q0 S \<Longrightarrow> event_ok I e \<Longrightarrow>
     sys_step ev X ctx dbg Q C I e S = Some S' \<Longrightarrow> sys_reachable ev X ctx dbg Q C I q0 S'"

section \<open>The dispatcher's part of a run\<close>

lemma serve_target_Ingress:
  assumes "serve_target Q env new t (queue_of s) = (q, ms)"
  shows "s\<lparr>queue_of := q\<rparr> = s \<or>
     step dbg Q C I (Ingress (target_payload new t) (t_now env) (t_uuid env) (t_io env)) s = Some (s\<lparr>queue_of := q\<rparr>)"
  using assms by (auto simp: serve_target_def split: sum.splits prod.splits)

text \<open>Every step of the system is a step of the dispatcher's machine, or none of its business.\<close>

lemma sys_step_disp:
  assumes "sys_step ev X ctx dbg Q C I e S = Some S'" and "event_ok I e"
  shows "disp S' = disp S \<or>
     (\<exists>a. action_ok I a \<and> step dbg Q C I a (disp S) = Some (disp S') \<and> (e = Relay a \<or> \<not> own_action a))"
proof (cases e)
  case (Target c env)
  with assms(1) obtain k new t ts acc q ms where
    st: "serve_target Q env new t (queue_of (disp S)) = (q, ms)" and d: "disp S' = (disp S)\<lparr>queue_of := q\<rparr>"
    by (auto split: option.splits list.splits prod.splits)
  let ?a = "Ingress (target_payload new t) (t_now env) (t_uuid env) (t_io env)"
  have "action_ok I ?a" "\<not> own_action ?a"
    using assms(2) Target by simp_all
  with serve_target_Ingress [OF st, where dbg = dbg and C = C and I = I] d show ?thesis by metis
qed (use assms in \<open>auto split: option.splits if_splits list.splits sum.splits simp del: step.simps\<close>)

lemma sys_reachable_disp:
  assumes "sys_reachable ev X ctx dbg Q C I q0 S"
  shows "reachable (action_ok I) dbg Q C I q0 (disp S)"
  using assms
proof (induction rule: sys_reachable.induct)
  case sys_init
  show ?case by (simp add: sys_start_def reachable.init)
next
  case (sys_next S e S')
  from sys_step_disp [OF sys_next(3,2)] sys_next(4) show ?case
    by (metis reachable.next_step)
qed

lemma sys_steps_Relay:
  assumes "steps dbg Q C I as (disp S) = Some s'" and "\<forall>a \<in> set as. own_action a \<and> survives a"
  shows "sys_steps ev X ctx dbg Q C I (map Relay as) S = Some (S\<lparr>disp := s'\<rparr>)"
  using assms
proof (induction as arbitrary: S)
  case (Cons a as)
  then obtain s1 where s1: "step dbg Q C I a (disp S) = Some s1" "steps dbg Q C I as s1 = Some s'"
    by (auto split: option.splits)
  from Cons.IH [of "S\<lparr>disp := s1\<rparr>"] s1 Cons.prems(2) show ?case by simp
qed simp

section \<open>An uninterrupted message\<close>

lemma sys_steps_append:
  "sys_steps ev X ctx dbg Q C I (es @ es') S =
     (case sys_steps ev X ctx dbg Q C I es S of None \<Rightarrow> None | Some S' \<Rightarrow> sys_steps ev X ctx dbg Q C I es' S')"
  by (induction es arbitrary: S) (auto split: option.split)

lemma sys_steps_reachable:
  assumes "sys_reachable ev X ctx dbg Q C I q0 S" and "sys_steps ev X ctx dbg Q C I es S = Some S'" and "\<forall>e \<in> set es. event_ok I e"
  shows "sys_reachable ev X ctx dbg Q C I q0 S'"
  using assms
proof (induction es arbitrary: S)
  case (Cons e es)
  then obtain S1 where S1: "sys_step ev X ctx dbg Q C I e S = Some S1" "sys_steps ev X ctx dbg Q C I es S1 = Some S'"
    by (auto split: option.splits)
  from sys_reachable.sys_next [OF Cons.prems(1) _ S1(1)] Cons.prems(3) Cons.IH [OF _ S1(2)] show ?case by simp
qed simp

text \<open>The events of one message on a connection make up \<open>data_end\<close> when nothing comes between them.\<close>

lemma targets_run:
  assumes "conns S c = Some k" and "job k = Some (new, ts, acc)"
    and "enqueue_targets Q env new j ts (length acc) (queue_of (disp S)) = (n, q)"
  shows "\<exists>S' ms. sys_steps ev X ctx dbg Q C I (map (\<lambda>i. Target c (env i)) [j..<j + length ts]) S = Some S' \<and>
     disp S' = (disp S)\<lparr>queue_of := q\<rparr> \<and> conns S' c = Some (k\<lparr>job := Some (new, [], ms)\<rparr>) \<and> length ms = n \<and>
     answers S' = answers S"
  using assms
proof (induction ts arbitrary: S k acc j)
  case Nil
  then show ?case by (intro exI [of _ S] exI [of _ acc]) simp
next
  case (Cons t ts)
  obtain q1 ms1 where sv: "serve_target Q (env j) new t (queue_of (disp S)) = (q1, ms1)" by (metis surj_pair)
  let ?k = "k\<lparr>job := Some (new, ts, acc @ ms1)\<rparr>"
  let ?S = "S\<lparr>disp := (disp S)\<lparr>queue_of := q1\<rparr>, conns := (conns S)(c \<mapsto> ?k),
      intake := intake S @ map (\<lambda>m. (m, peer k, calls k)) ms1\<rparr>"
  have st: "sys_step ev X ctx dbg Q C I (Target c (env j)) S = Some ?S" using Cons.prems(1,2) sv by simp
  have "enqueue_targets Q env new (Suc j) ts (length (acc @ ms1)) q1 = (n, q)"
    using Cons.prems(3) sv by (auto simp: serve_target_def split: sum.splits prod.splits)
  with Cons.IH [of ?S ?k "acc @ ms1" "Suc j"] obtain S' ms where
    "sys_steps ev X ctx dbg Q C I (map (\<lambda>i. Target c (env i)) [Suc j..<Suc j + length ts]) ?S = Some S'"
    "disp S' = (disp ?S)\<lparr>queue_of := q\<rparr>" "conns S' c = Some (?k\<lparr>job := Some (new, [], ms)\<rparr>)" "length ms = n"
    "answers S' = answers ?S" by auto
  moreover have "[j..<j + length (t # ts)] = j # [Suc j..<Suc j + length ts]" by (simp add: upt_conv_Cons del: upt_Suc)
  ultimately show ?case
    by (intro exI [of _ S'] exI [of _ ms]) (simp only: list.map sys_steps.simps st option.case, simp)
qed

lemma uninterrupted_data_end:
  assumes "conns S c = Some k" and "job k = None" and "opened k"
    and "data_end X ctx Q env (handler k) (queue_of (disp S)) = (q, r)"
  shows "\<exists>es S' ms. set es \<subseteq> {EndOfData c, Reply c} \<union> range (\<lambda>i. Target c (env i)) \<and>
     sys_steps ev X ctx dbg Q C I es S = Some S' \<and> disp S' = (disp S)\<lparr>queue_of := q\<rparr> \<and>
     answers S' = answers S @ [(c, r, ms)]"
proof (cases "end_of_data X ctx (handler k)")
  case (Inl r')
  with assms(4) have "r' = r" "q = queue_of (disp S)"
    by (auto simp: end_of_data_def data_end_def split: sum.splits route.splits prod.splits if_splits)
  with assms(1-3) Inl show ?thesis by (intro exI [of _ "[EndOfData c]"]) auto
next
  case (Inr x)
  obtain new ts where x: "x = (new, ts)" by (cases x)
  obtain n where n: "enqueue_targets Q env new 0 ts 0 (queue_of (disp S)) = (n, q)" "r = (if n = 0 then INTERNAL_ERROR else OK)"
    using assms(4) Inr x by (auto simp: end_of_data_def data_end_def split: sum.splits route.splits prod.splits if_splits)
  let ?S = "S\<lparr>conns := (conns S)(c \<mapsto> k\<lparr>opened := False, job := Some (new, ts, [])\<rparr>)\<rparr>"
  obtain S1 ms where S1: "sys_steps ev X ctx dbg Q C I (map (\<lambda>i. Target c (env i)) [0..<0 + length ts]) ?S = Some S1"
    "disp S1 = (disp ?S)\<lparr>queue_of := q\<rparr>" "conns S1 c = Some (k\<lparr>opened := False, job := Some (new, [], ms)\<rparr>)" "length ms = n"
    "answers S1 = answers ?S"
    using targets_run [where ev = ev and X = X and ctx = ctx and dbg = dbg and C = C and I = I and S = ?S and c = c and
        k = "k\<lparr>opened := False, job := Some (new, ts, [])\<rparr>" and acc = "[]" and j = 0 and q = q and new = new and Q = Q and env = env and n = n] n(1) by auto
  let ?es = "EndOfData c # map (\<lambda>i. Target c (env i)) [0..<length ts] @ [Reply c]"
  let ?S' = "S1\<lparr>conns := (conns S1)(c \<mapsto> k\<lparr>opened := False, job := None\<rparr>),
      answers := answers S1 @ [(c, data_answer ms, ms)]\<rparr>"
  have "sys_steps ev X ctx dbg Q C I ?es S = Some ?S'"
    using assms(1-3) Inr x S1 by (simp add: sys_steps_append)
  moreover have "disp ?S' = (disp S)\<lparr>queue_of := q\<rparr>" "answers ?S' = answers S @ [(c, r, ms)]"
    using S1 n(2) by (simp_all add: data_answer_def)
  moreover have "set ?es \<subseteq> {EndOfData c, Reply c} \<union> range (\<lambda>i. Target c (env i))" by auto
  ultimately show ?thesis by blast
qed

section \<open>Who may submit\<close>

text \<open>What a connection must show before a mail of it is stored.\<close>

definition vetted ::
  "(string \<Rightarrow> string option) \<Rightarrow> ('i, 'n, 'r, 'm) smtp_ext \<Rightarrow> ('n, 'r) smtp_context \<Rightarrow> 'i \<Rightarrow> command list \<Rightarrow> bool" where
  "vetted ev X ctx ip cs =
     (is_allowed X (whitelist ctx) ip \<and>
      (anonymous_enabled ctx \<or> list_ex (granted ev (ctx_auth ctx)) cs))"

text \<open>The sender of a message is one of the connection's \<open>mail\<close> callbacks.\<close>

definition named_sender :: "command list \<Rightarrow> address \<Rightarrow> bool" where
  "named_sender cs a = (\<exists>f. MailFrom f \<in> set cs \<and> a = address_new (strip_brackets f))"

definition conn_inv ::
  "(string \<Rightarrow> string option) \<Rightarrow> ('i, 'n, 'r, 'm) smtp_ext \<Rightarrow> ('n, 'r) smtp_context \<Rightarrow> 'i conn \<Rightarrow> bool" where
  "conn_inv ev X ctx k =
     ((authenticated_as (handler k) \<noteq> None \<longrightarrow> list_ex (granted ev (ctx_auth ctx)) (calls k)) \<and>
      (opened k \<longrightarrow> vetted ev X ctx (peer k) (calls k) \<and> MailFrom (envelope_from (handler k)) \<in> set (calls k)) \<and>
      (\<forall>new ts acc. job k = Some (new, ts, acc) \<longrightarrow>
         vetted ev X ctx (peer k) (calls k) \<and> named_sender (calls k) (nm_from new)))"

lemma vetted_snoc: "vetted ev X ctx ip cs \<Longrightarrow> vetted ev X ctx ip (cs @ [c])"
  by (auto simp: vetted_def)

lemma handle_envelope:
  assumes "handle ev X ctx Q ip c (h, q) = ((h', q'), r)" and "opens c r was"
  shows "(\<exists>f. c = MailFrom f \<and> envelope_from h' = f \<and> mail_from X ctx ip f h = (h', OK)) \<or>
     was \<and> envelope_from h' = envelope_from h"
  using assms
  by (cases c)
    (auto simp: relay_ops try_auth_def Let_def split: if_splits prod.splits sum.splits option.splits)

lemma call_back_inv:
  assumes "conn_inv ev X ctx k" and "job k = None"
  shows "conn_inv ev X ctx (call_back ev X ctx Q cmd q k)"
proof -
  obtain h q' r where hd: "handle ev X ctx Q (peer k) cmd (handler k, q) = ((h, q'), r)" by (metis surj_pair)
  have auth: "list_ex (granted ev (ctx_auth ctx)) (calls k @ [cmd])" if "authenticated_as h \<noteq> None"
    using handle_auth [OF hd that] assms(1) by (auto simp: conn_inv_def)
  have "vetted ev X ctx (peer k) (calls k @ [cmd]) \<and> MailFrom (envelope_from h) \<in> set (calls k @ [cmd])"
    if "opens cmd r (opened k)"
    using handle_envelope [OF hd that]
  proof (elim disjE exE conjE)
    fix f assume f: "cmd = MailFrom f" "envelope_from h = f" "mail_from X ctx (peer k) f (handler k) = (h, OK)"
    from mail_from_open [OF f(3)] assms(1) f(1,2) show ?thesis by (auto simp: vetted_def conn_inv_def)
  next
    assume "opened k" "envelope_from h = envelope_from (handler k)"
    with assms(1) show ?thesis by (auto simp: conn_inv_def intro: vetted_snoc)
  qed
  with auth show ?thesis using assms(2) by (simp add: call_back_def hd conn_inv_def)
qed

lemma end_of_data_sender:
  "end_of_data X ctx h = Inr (new, ts) \<Longrightarrow> nm_from new = address_new (strip_brackets (envelope_from h))"
  by (auto simp: end_of_data_def build_new_mail_from split: sum.splits route.splits if_splits)

lemma conn_inv_simps:
  "conn_inv ev X ctx (conn_new ip)"
  "conn_inv ev X ctx k \<Longrightarrow> conn_inv ev X ctx (k\<lparr>opened := False\<rparr>)"
  "conn_inv ev X ctx k \<Longrightarrow> conn_inv ev X ctx (k\<lparr>job := None\<rparr>)"
  "conn_inv ev X ctx k \<Longrightarrow> job k = Some (new, ts, acc) \<Longrightarrow> conn_inv ev X ctx (k\<lparr>job := Some (new, ts', acc')\<rparr>)"
  "conn_inv ev X ctx k \<Longrightarrow> opened k \<Longrightarrow> end_of_data X ctx (handler k) = Inr (new, ts) \<Longrightarrow>
     conn_inv ev X ctx (k\<lparr>opened := False, job := Some (new, ts, acc)\<rparr>)"
  by (auto simp: conn_inv_def conn_new_def handler_new_def named_sender_def dest!: end_of_data_sender)

section \<open>What the logs say\<close>

definition conns_inv ::
  "(string \<Rightarrow> string option) \<Rightarrow> ('i, 'n, 'r, 'm) smtp_ext \<Rightarrow> ('n, 'r) smtp_context \<Rightarrow> ('i, 'q) system \<Rightarrow> bool" where
  "conns_inv ev X ctx S =
     ((\<forall>c k. conns S c = Some k \<longrightarrow> conn_inv ev X ctx k \<and>
         (\<forall>new ts acc. job k = Some (new, ts, acc) \<longrightarrow> set acc \<subseteq> fst ` set (intake S))) \<and>
      (\<forall>c r ms. (c, r, ms) \<in> set (answers S) \<longrightarrow> (r = OK \<longleftrightarrow> ms \<noteq> []) \<and> set ms \<subseteq> fst ` set (intake S)) \<and>
      (\<forall>m ip cs. (m, ip, cs) \<in> set (intake S) \<longrightarrow> vetted ev X ctx ip cs))"

lemma conns_invD:
  assumes "conns_inv ev X ctx S" and "conns S c = Some k"
  shows "conn_inv ev X ctx k" and "job k = Some (new, ts, acc) \<Longrightarrow> set acc \<subseteq> fst ` set (intake S)"
    and "job k = Some (new, ts, acc) \<Longrightarrow> vetted ev X ctx (peer k) (calls k)"
  using assms by (auto simp: conns_inv_def conn_inv_def)

lemma answersD:
  assumes "conns_inv ev X ctx S" and "(c, r, ms) \<in> set (answers S)"
  shows "r = OK \<longleftrightarrow> ms \<noteq> []" and "m \<in> set ms \<Longrightarrow> m \<in> fst ` set (intake S)"
  using assms unfolding conns_inv_def by blast+

lemma conns_inv_sub:
  assumes "conns_inv ev X ctx S" and "\<And>c k. conns S' c = Some k \<Longrightarrow> conns S c = Some k"
    and "intake S' = intake S" and "answers S' = answers S"
  shows "conns_inv ev X ctx S'"
  using assms unfolding conns_inv_def by simp blast

text \<open>Replacing one connection, with nothing stored.\<close>

lemma conns_inv_upd:
  assumes "conns_inv ev X ctx S" and "conn_inv ev X ctx k"
    and "\<And>new ts acc. job k = Some (new, ts, acc) \<Longrightarrow> set acc \<subseteq> fst ` set (intake S)"
  shows "conns_inv ev X ctx (S\<lparr>conns := (conns S)(c \<mapsto> k)\<rparr>)"
  using assms by (auto simp: conns_inv_def)

lemma conns_inv_answer:
  assumes "conns_inv ev X ctx S" and "(r = OK) = (ms \<noteq> [])" and "set ms \<subseteq> fst ` set (intake S)"
  shows "conns_inv ev X ctx (S\<lparr>answers := answers S @ [(c, r, ms)]\<rparr>)"
  using assms by (auto simp: conns_inv_def)

lemma conns_inv_store:
  assumes S: "conns_inv ev X ctx S" and k: "conns S c = Some k" "job k = Some (new, t # ts, acc)"
    and S': "conns S' = (conns S)(c \<mapsto> k\<lparr>job := Some (new, ts, acc @ ms)\<rparr>)"
      "intake S' = intake S @ map (\<lambda>m. (m, peer k, calls k)) ms" "answers S' = answers S"
  shows "conns_inv ev X ctx S'"
proof -
  note ck = conns_invD [OF S k(1)]
  have mono: "A \<subseteq> fst ` set (intake S')" if "A \<subseteq> fst ` set (intake S)" for A
    using that unfolding S'(2) by auto
  have ms: "set ms \<subseteq> fst ` set (intake S')" unfolding S'(2) by force
  have "conn_inv ev X ctx k' \<and> (\<forall>new ts acc. job k' = Some (new, ts, acc) \<longrightarrow> set acc \<subseteq> fst ` set (intake S'))"
    if "conns S' c' = Some k'" for c' k'
  proof (cases "c' = c")
    case True
    then show ?thesis
      using that conn_inv_simps(4) [OF ck(1) k(2)] ck(2) [OF k(2), THEN mono] ms unfolding S'(1) by auto
  next
    case False
    then have "conns S c' = Some k'" using that unfolding S'(1) by simp
    from conns_invD(1,2) [OF S this] show ?thesis by (simp add: mono)
  qed
  moreover have "(r = OK \<longleftrightarrow> xs \<noteq> []) \<and> set xs \<subseteq> fst ` set (intake S')" if "(c', r, xs) \<in> set (answers S')" for c' r xs
  proof -
    from S that [unfolded S'(3)] have "(r = OK \<longleftrightarrow> xs \<noteq> []) \<and> set xs \<subseteq> fst ` set (intake S)"
      unfolding conns_inv_def by blast
    with mono show ?thesis by simp
  qed
  moreover have "vetted ev X ctx ip cs" if "(m, ip, cs) \<in> set (intake S')" for m ip cs
    using S that ck(3) [OF k(2)] unfolding S'(2) conns_inv_def by auto
  ultimately show ?thesis unfolding conns_inv_def by blast
qed

lemma end_of_data_refuses: "end_of_data X ctx h = Inl r \<Longrightarrow> r \<noteq> OK"
  by (auto simp: end_of_data_def split: sum.splits route.splits if_splits)

lemma sys_step_conns_inv:
  assumes "conns_inv ev X ctx S" and "sys_step ev X ctx dbg Q C I e S = Some S'"
  shows "conns_inv ev X ctx S'"
proof (cases e)
  case (Relay a)
  with assms(2) show ?thesis
    by (intro conns_inv_sub [OF assms(1)]) (auto simp del: step.simps split: if_splits)
next
  case (Connect c ip)
  with assms(2) have "S' = S\<lparr>conns := (conns S)(c \<mapsto> conn_new ip)\<rparr>" by (simp split: if_splits)
  then show ?thesis
    using conns_inv_upd [OF assms(1) conn_inv_simps(1)] by (simp add: conn_new_def)
next
  case (Callback c cmd)
  with assms(2) obtain k where k: "conns S c = Some k" "job k = None"
    and S': "S' = S\<lparr>conns := (conns S)(c \<mapsto> call_back ev X ctx Q cmd (queue_of (disp S)) k)\<rparr>"
    by (auto split: option.splits if_splits)
  have "job (call_back ev X ctx Q cmd (queue_of (disp S)) k) = None"
    using k(2) by (simp add: call_back_def split: prod.split)
  then show ?thesis unfolding S'
    by (intro conns_inv_upd assms(1) call_back_inv [OF conns_invD(1) [OF assms(1) k(1)] k(2)]) simp
next
  case (EndOfData c)
  with assms(2) obtain k where k: "conns S c = Some k" "job k = None" "opened k"
    by (auto split: option.splits if_splits)
  note ck = conns_invD(1) [OF assms(1) k(1)]
  show ?thesis
  proof (cases "end_of_data X ctx (handler k)")
    case (Inl r)
    with EndOfData assms(2) k have S': "S' = (S\<lparr>conns := (conns S)(c \<mapsto> k\<lparr>opened := False\<rparr>)\<rparr>)
        \<lparr>answers := answers (S\<lparr>conns := (conns S)(c \<mapsto> k\<lparr>opened := False\<rparr>)\<rparr>) @ [(c, r, [])]\<rparr>" by simp
    show ?thesis unfolding S'
      by (intro conns_inv_answer conns_inv_upd assms(1) conn_inv_simps(2) [OF ck])
        (use k(2) end_of_data_refuses [OF Inl] in simp_all)
  next
    case (Inr x)
    obtain new ts where x: "x = (new, ts)" by (cases x)
    with EndOfData assms(2) k Inr have S': "S' = S\<lparr>conns := (conns S)(c \<mapsto> k\<lparr>opened := False, job := Some (new, ts, [])\<rparr>)\<rparr>"
      by simp
    show ?thesis unfolding S'
      by (intro conns_inv_upd assms(1) conn_inv_simps(5) [OF ck k(3) Inr [unfolded x]]) simp
  qed
next
  case (Target c env)
  with assms(2) obtain k new t ts acc q ms where k: "conns S c = Some k" "job k = Some (new, t # ts, acc)"
    and S': "S' = S\<lparr>disp := (disp S)\<lparr>queue_of := q\<rparr>, conns := (conns S)(c \<mapsto> k\<lparr>job := Some (new, ts, acc @ ms)\<rparr>),
        intake := intake S @ map (\<lambda>m. (m, peer k, calls k)) ms\<rparr>"
    by (auto split: option.splits list.splits prod.splits)
  show ?thesis by (rule conns_inv_store [OF assms(1) k]) (simp_all add: S')
next
  case (Reply c)
  with assms(2) obtain k new acc where k: "conns S c = Some k" "job k = Some (new, [], acc)"
    and S': "S' = (S\<lparr>conns := (conns S)(c \<mapsto> k\<lparr>job := None\<rparr>)\<rparr>)
        \<lparr>answers := answers (S\<lparr>conns := (conns S)(c \<mapsto> k\<lparr>job := None\<rparr>)\<rparr>) @ [(c, data_answer acc, acc)]\<rparr>"
    by (auto split: option.splits list.splits)
  note ck = conns_invD [OF assms(1) k(1)]
  show ?thesis unfolding S'
    by (intro conns_inv_answer conns_inv_upd assms(1) conn_inv_simps(3) [OF ck(1)])
      (use ck(2) [OF k(2)] in \<open>auto simp: data_answer_def\<close>)
next
  case (Close c)
  with assms(2) show ?thesis by (intro conns_inv_sub [OF assms(1)]) (auto split: if_splits)
qed

lemma sys_reachable_conns:
  assumes "sys_reachable ev X ctx dbg Q C I q0 S"
  shows "conns_inv ev X ctx S"
  using assms
proof (induction rule: sys_reachable.induct)
  case sys_init
  show ?case by (simp add: sys_start_def conns_inv_def)
next
  case (sys_next S e S')
  from sys_step_conns_inv [OF sys_next(4,3)] show ?case .
qed

section \<open>What the store keeps of the logs\<close>

text \<open>Every mail taken in is new against the initial store \<open>M0\<close>, names a sender of its connection and is
  in the store \<open>M\<close> with its message; and the store has nothing else that is new.\<close>

definition intake_inv :: "store \<Rightarrow> store \<Rightarrow> ('i, 'q) system \<Rightarrow> bool" where
  "intake_inv M0 M S =
     ((\<forall>m ip cs. (m, ip, cs) \<in> set (intake S) \<longrightarrow>
         M0 (id_of m) = None \<and> named_sender cs (from_addr m) \<and> (\<exists>m'. M (id_of m) = Some m' \<and> content m' = content m)) \<and>
      (\<forall>i. M i \<noteq> None \<longrightarrow> M0 i \<noteq> None \<or> (\<exists>m ip cs. (m, ip, cs) \<in> set (intake S) \<and> id_of m = i)))"

lemma intake_invD:
  assumes "intake_inv M0 M S" and "m \<in> fst ` set (intake S)"
  shows "M0 (id_of m) = None" and "\<exists>m'. M (id_of m) = Some m' \<and> content m' = content m"
  using assms unfolding intake_inv_def by fastforce+

lemma intake_inv_evolves:
  assumes "intake_inv M0 M S" and "evolves M M'" and "dom M' = dom M" and "intake S' = intake S"
  shows "intake_inv M0 M' S'"
proof -
  have "\<exists>m'. M' i = Some m' \<and> content m' = content m" if "M i = Some m1" "content m1 = content m" for i m1 m
    using assms(2) that unfolding evolves_def by metis
  moreover have "M' i \<noteq> None \<longleftrightarrow> M i \<noteq> None" for i using assms(3) by (auto simp: dom_def)
  ultimately show ?thesis using assms(1,4) unfolding intake_inv_def by (metis (no_types, lifting))
qed

lemma intake_inv_add:
  assumes "intake_inv M0 M S" and "M (id_of m) = None" and "M0 (id_of m) = None" and "named_sender cs (from_addr m)"
    and "intake S' = intake S @ [(m, ip, cs)]"
  shows "intake_inv M0 (M(id_of m \<mapsto> m)) S'"
proof -
  have "id_of m1 \<noteq> id_of m" if "(m1, ip1, cs1) \<in> set (intake S)" for m1 ip1 cs1
    using that assms(1,2) unfolding intake_inv_def by fastforce
  with assms show ?thesis unfolding intake_inv_def by simp blast
qed

lemma intake_inv_same: "intake_inv M0 M S \<Longrightarrow> intake S' = intake S \<Longrightarrow> intake_inv M0 M S'"
  by (simp add: intake_inv_def)

locale whole_relay = relay_refinement Q ok view ids + mail_intake Q ok view ids
  for Q :: "'q queue_ops" and ok :: "'q \<Rightarrow> bool" and view :: "'q \<Rightarrow> store" and ids :: "mail_id \<Rightarrow> string"
begin

lemma serve_target_view:
  assumes "ok q" and "ts_ok (t_now env)" and "serve_target Q env new t q = (q', ms)"
  shows "ms = [] \<and> q' = q \<or>
     (\<exists>m. ms = [m] \<and> m = from_new (target_payload new t) (t_now env) (t_uuid env) \<and>
        view q (id_of m) = None \<and> view q' = (view q)(id_of m \<mapsto> m))"
  using enqueue_one [OF assms(1,2), of "t_io env" "t_uuid env" "target_payload new t"] assms(3)
  by (auto simp: serve_target_def split: sum.splits prod.splits if_splits)

lemma own_step_dom:
  assumes "ok (queue_of s)" and "params_ok C I" and "action_ok I a" and "step dbg Q C I a s = Some s'" and "own_action a"
  shows "dom (view (queue_of s')) = dom (view (queue_of s))"
proof -
  have "store_after dbg C I a s M i = None \<longleftrightarrow> M i = None" for M i
    using assms(5) by (cases a) (auto simp: upd_at_None requeue_at_def requeue_store_def split: phase.splits list.splits)
  then show ?thesis using step_store [OF assms(1-4)] by (auto simp: dom_def)
qed

lemma sys_step_intake:
  assumes q: "ok (queue_of (disp S))" and p: "params_ok C I" and e: "event_ok I e"
    and inv: "sys_inv I (view (queue_of (disp S))) (disp S)" and st: "sys_step ev X ctx dbg Q C I e S = Some S'"
    and c: "conns_inv ev X ctx S" and M0: "evolves M0 (view (queue_of (disp S)))"
    and old: "intake_inv M0 (view (queue_of (disp S))) S"
  shows "intake_inv M0 (view (queue_of (disp S'))) S'"
proof (cases e)
  case (Relay a)
  with st obtain s' where s': "step dbg Q C I a (disp S) = Some s'" and a: "own_action a" "action_ok I a"
    and S': "disp S' = s'" "intake S' = intake S" using e by (auto simp del: step.simps split: if_splits)
  from intake_inv_evolves [OF old _ own_step_dom [OF q p a(2) s' a(1)]] step_inv(3) [OF q p a(2) inv s'] S'
  show ?thesis by simp
next
  case (Target c1 env)
  with st obtain k new t ts acc q' ms where k: "conns S c1 = Some k" "job k = Some (new, t # ts, acc)"
    and sv: "serve_target Q env new t (queue_of (disp S)) = (q', ms)"
    and S': "queue_of (disp S') = q'" "intake S' = intake S @ map (\<lambda>m. (m, peer k, calls k)) ms"
    by (auto split: option.splits list.splits prod.splits)
  have "ts_ok (t_now env)" using e Target by simp
  from serve_target_view [OF q this sv] show ?thesis
  proof (elim disjE exE conjE)
    assume "ms = []" "q' = queue_of (disp S)"
    with S' intake_inv_same [OF old] show ?thesis by simp
  next
    fix m assume m: "ms = [m]" "m = from_new (target_payload new t) (t_now env) (t_uuid env)"
      "view (queue_of (disp S)) (id_of m) = None" "view q' = (view (queue_of (disp S)))(id_of m \<mapsto> m)"
    have "M0 (id_of m) = None" using M0 m(3) unfolding evolves_def by (metis not_Some_eq)
    moreover have "named_sender (calls k) (from_addr m)"
      using conns_invD(1) [OF c k(1)] k(2) by (simp add: m(2) conn_inv_def)
    ultimately show ?thesis using intake_inv_add [OF old m(3)] m S' by simp
  qed
qed (use st in \<open>auto intro!: intake_inv_same [OF old] split: option.splits if_splits sum.splits list.splits\<close>)

lemma sys_reachable_intake:
  assumes "sys_reachable ev X ctx dbg Q C I q0 S" and "ok q0" and "params_ok C I"
    and "budget (max_attempts (retry (disp_config I))) (view q0)"
  shows "intake_inv (view q0) (view (queue_of (disp S))) S"
  using assms(1)
proof (induction rule: sys_reachable.induct)
  case sys_init
  show ?case by (simp add: sys_start_def start_def intake_inv_def)
next
  case (sys_next S e S')
  from reachable_inv [OF sys_reachable_disp [OF sys_next(1)] assms(2-4)] have
    "ok (queue_of (disp S))" "sys_inv I (view (queue_of (disp S))) (disp S)" "evolves (view q0) (view (queue_of (disp S)))" by simp_all
  from sys_step_intake [OF this(1) assms(3) sys_next(2) this(2) sys_next(3) sys_reachable_conns [OF sys_next(1)] this(3) sys_next(4)]
  show ?case .
qed

end

interpretation ws: whole_relay "sqlite_ops E" "db_inv E" "db_view E" "uuid_to_string E" for E
  by (intro whole_relay.intro rq.relay_refinement_axioms iq.mail_intake_axioms)

end
