(* ===== verification/Plugin_Scripts.thy ===== *)
theory Plugin_Scripts
  imports Plugin_Host
begin

text \<open>
  Models the plugins the repository ships (\<open>plugins/graph\<close>, \<open>plugins/teams\<close>, \<open>plugins/ntfy\<close>): the
  function \<open>send(mail, config)\<close> of each \<open>script.rhai\<close>, run by the host API of theory \<open>Plugin_Host\<close>. Of
  the Rhai language the theory models what the scripts use: object maps, property access, templates,
  comparisons with integers, \<open>for\<close>, \<open>throw\<close> and the typed arguments of the registered functions. The
  JSON library, the display of values that are not strings, numbers or unit, and the text of an error
  are parameters.
\<close>

section \<open>What the scripts use of Rhai\<close>

fun nat_to_string :: "nat \<Rightarrow> string" where
  "nat_to_string n =
     (if n < 10 then [char_of (48 + n)] else nat_to_string (n div 10) @ [char_of (48 + n mod 10)])"

declare nat_to_string.simps [simp del]

definition int_to_string :: "int \<Rightarrow> string" where
  "int_to_string i = (if i < 0 then CHR ''-'' # nat_to_string (nat (- i)) else nat_to_string (nat i))"

record 'j engine =
  type_name :: "dyn \<Rightarrow> string"
  display :: "dyn \<Rightarrow> string"
  json_print :: "dyn \<Rightarrow> string + string"
  json_parse :: "string \<Rightarrow> string + 'j"
  to_dynamic :: "'j \<Rightarrow> rhai_error + dyn"

text \<open>An interpolated value \<open>${v}\<close> of a template: a string stands for itself and unit for nothing.\<close>

fun interpolate :: "'j engine \<Rightarrow> dyn \<Rightarrow> string" where
  "interpolate E (DStr s) = s"
| "interpolate E (DInt i) = int_to_string i"
| "interpolate E (DBool b) = (if b then ''true'' else ''false'')"
| "interpolate E DUnit = []"
| "interpolate E d = display E d"

text \<open>\<open>d.k\<close>: a key that an object map does not have reads as unit; the other types of the model have
  none of the properties the scripts read.\<close>

fun dot :: "dyn \<Rightarrow> string \<Rightarrow> ('w, dyn) host" where
  "dot (DMap m) k = host_res (Inr (case bt_get m k of Some v \<Rightarrow> v | None \<Rightarrow> DUnit))"
| "dot d k = host_res (Inl (ErrorDotExpr k))"

fun in_map :: "string \<Rightarrow> dyn \<Rightarrow> ('w, bool) host" where
  "in_map k (DMap m) = host_res (Inr (bt_get m k \<noteq> None))"
| "in_map k d = host_res (Inl (ErrorFunctionNotFound ''contains''))"

definition object_map :: "(string \<times> dyn) list \<Rightarrow> dyn btree_map" where
  "object_map kvs = fold (\<lambda>(k, v). bt_insert k v) kvs []"

text \<open>Values of different types are unequal and not ordered.\<close>

fun ne_int :: "dyn \<Rightarrow> int \<Rightarrow> bool" where
  "ne_int (DInt i) n = (i \<noteq> n)"
| "ne_int d n = True"

fun lt_int :: "dyn \<Rightarrow> int \<Rightarrow> bool" where
  "lt_int (DInt i) n = (i < n)"
| "lt_int d n = False"

fun ge_int :: "dyn \<Rightarrow> int \<Rightarrow> bool" where
  "ge_int (DInt i) n = (n \<le> i)"
| "ge_int d n = False"

definition throw :: "string \<Rightarrow> ('w, 'a) host" where
  "throw s = host_res (Inl (ErrorRuntime s))"

text \<open>The values a \<open>for\<close> loop goes through: an array's elements, a string's characters.\<close>

fun elements :: "dyn \<Rightarrow> ('w, dyn list) host" where
  "elements (DArray xs) = host_res (Inr xs)"
| "elements (DStr s) = host_res (Inr (map (\<lambda>c. DOther [c]) s))"
| "elements d = host_res (Inl ErrorFor)"

text \<open>The host functions as the engine dispatches them, on the types of their arguments.\<close>

fun call_http_post :: "'j engine \<Rightarrow> 'w http_client \<Rightarrow> dyn \<Rightarrow> dyn \<Rightarrow> dyn \<Rightarrow> ('w, dyn) host" where
  "call_http_post E http (DStr url) (DMap headers) (DStr b) =
     host_bind (http_post (type_name E) http url headers b) (\<lambda>res. host_res (Inr (DMap res)))"
| "call_http_post E http url headers b = host_res (Inl (ErrorFunctionNotFound ''http_post''))"

fun call_http_post_form :: "'j engine \<Rightarrow> 'w http_client \<Rightarrow> dyn \<Rightarrow> dyn \<Rightarrow> dyn \<Rightarrow> ('w, dyn) host" where
  "call_http_post_form E http (DStr url) (DMap headers) (DMap form) =
     host_bind (http_post_form (type_name E) http url headers form) (\<lambda>res. host_res (Inr (DMap res)))"
| "call_http_post_form E http url headers form = host_res (Inl (ErrorFunctionNotFound ''http_post_form''))"

definition call_to_json :: "'j engine \<Rightarrow> dyn \<Rightarrow> ('w, dyn) host" where
  "call_to_json E d = host_res (res_bind (to_json (json_print E) d) (\<lambda>s. Inr (DStr s)))"

fun call_parse_json :: "'j engine \<Rightarrow> dyn \<Rightarrow> ('w, dyn) host" where
  "call_parse_json E (DStr raw) = host_res (parse_json (json_parse E) (to_dynamic E) raw)"
| "call_parse_json E d = host_res (Inl (ErrorFunctionNotFound ''parse_json''))"

section \<open>plugins/graph\<close>

fun push_recipients :: "dyn list \<Rightarrow> dyn list \<Rightarrow> ('w, dyn list) host" where
  "push_recipients [] recipients = host_res (Inr recipients)"
| "push_recipients (recipient # rs) recipients =
     host_bind (dot recipient ''email'') (\<lambda>e.
     push_recipients rs
       (recipients @ [DMap (object_map [(''emailAddress'', DMap (object_map [(''address'', e)]))])]))"

definition graph_token :: "'j engine \<Rightarrow> 'w http_client \<Rightarrow> dyn \<Rightarrow> ('w, dyn) host" where
  "graph_token E http config =
     host_bind (dot config ''tenant_id'') (\<lambda>tenant_id.
     let token_url = ''https://login.microsoftonline.com/'' @ interpolate E tenant_id @ ''/oauth2/v2.0/token'' in
     host_bind (dot config ''client_id'') (\<lambda>client_id.
     host_bind (dot config ''client_secret'') (\<lambda>client_secret.
     let token_form = object_map
           [(''client_id'', client_id), (''client_secret'', client_secret),
            (''scope'', DStr ''https://graph.microsoft.com/.default''),
            (''grant_type'', DStr ''client_credentials'')] in
     host_bind (call_http_post_form E http (DStr token_url) (DMap []) (DMap token_form)) (\<lambda>token_res.
     host_bind (dot token_res ''status'') (\<lambda>status.
     host_bind (dot token_res ''body'') (\<lambda>b.
     if ne_int status 200
     then throw (''token request failed: '' @ interpolate E status @ '' '' @ interpolate E b)
     else host_bind (call_parse_json E b) (\<lambda>v. dot v ''access_token'')))))))"

definition graph_payload :: "dyn \<Rightarrow> ('w, dyn) host" where
  "graph_payload mail =
     host_bind (dot mail ''to'') (\<lambda>to.
     host_bind (elements to) (\<lambda>rs.
     host_bind (push_recipients rs []) (\<lambda>recipients.
     host_bind (dot mail ''subject'') (\<lambda>subject.
     host_bind (dot mail ''body'') (\<lambda>content.
     host_res (Inr (DMap (object_map
       [(''message'', DMap (object_map
          [(''subject'', subject),
           (''body'', DMap (object_map [(''contentType'', DStr ''Text''), (''content'', content)])),
           (''toRecipients'', DArray recipients)])),
        (''saveToSentItems'', DBool False)]))))))))"

definition graph_send :: "'j engine \<Rightarrow> 'w http_client \<Rightarrow> dyn \<Rightarrow> dyn \<Rightarrow> ('w, unit) host" where
  "graph_send E http mail config =
     host_bind (graph_token E http config) (\<lambda>access_token.
     host_bind (graph_payload mail) (\<lambda>payload.
     host_bind (dot config ''sender'') (\<lambda>sender.
     let send_url = ''https://graph.microsoft.com/v1.0/users/'' @ interpolate E sender @ ''/sendMail'';
         headers = object_map
           [(''Authorization'', DStr (''Bearer '' @ interpolate E access_token)),
            (''Content-Type'', DStr ''application/json'')] in
     host_bind (call_to_json E payload) (\<lambda>js.
     host_bind (call_http_post E http (DStr send_url) (DMap headers) js) (\<lambda>res.
     host_bind (dot res ''status'') (\<lambda>status.
     host_bind (dot res ''body'') (\<lambda>b.
     if ne_int status 202
     then throw (''sendMail failed: '' @ interpolate E status @ '' '' @ interpolate E b)
     else host_res (Inr ()))))))))"

section \<open>plugins/teams\<close>

definition teams_card :: "dyn \<Rightarrow> dyn \<Rightarrow> dyn" where
  "teams_card title txt = DMap (object_map
     [(''type'', DStr ''AdaptiveCard''),
      (''$schema'', DStr ''http://adaptivecards.io/schemas/adaptive-card.json''),
      (''version'', DStr ''1.4''),
      (''body'', DArray
         [DMap (object_map [(''type'', DStr ''TextBlock''), (''text'', title), (''weight'', DStr ''Bolder''),
            (''size'', DStr ''Medium''), (''wrap'', DBool True)]),
          DMap (object_map [(''type'', DStr ''TextBlock''), (''text'', txt), (''wrap'', DBool True)])])])"

definition teams_payload :: "dyn \<Rightarrow> dyn" where
  "teams_payload crd = DMap (object_map
     [(''type'', DStr ''message''),
      (''attachments'', DArray [DMap (object_map
         [(''contentType'', DStr ''application/vnd.microsoft.card.adaptive''), (''content'', crd)])])])"

definition teams_send :: "'j engine \<Rightarrow> 'w http_client \<Rightarrow> dyn \<Rightarrow> dyn \<Rightarrow> ('w, unit) host" where
  "teams_send E http mail config =
     host_bind (dot mail ''subject'') (\<lambda>subject.
     host_bind (dot mail ''body'') (\<lambda>content.
     host_bind (dot config ''webhook_url'') (\<lambda>webhook_url.
     host_bind (call_to_json E (teams_payload (teams_card subject content))) (\<lambda>js.
     host_bind (call_http_post E http webhook_url
        (DMap (object_map [(''Content-Type'', DStr ''application/json'')])) js) (\<lambda>res.
     host_bind (dot res ''status'') (\<lambda>status.
     host_bind (dot res ''body'') (\<lambda>b.
     if lt_int status 200 \<or> ge_int status 300
     then throw (''teams webhook failed: '' @ interpolate E status @ '' '' @ interpolate E b)
     else host_res (Inr ()))))))))"

section \<open>plugins/ntfy\<close>

definition ntfy_send :: "'j engine \<Rightarrow> 'w http_client \<Rightarrow> dyn \<Rightarrow> dyn \<Rightarrow> ('w, unit) host" where
  "ntfy_send E http mail config =
     host_bind (in_map ''server'' config) (\<lambda>has_server.
     host_bind (if has_server then dot config ''server'' else host_res (Inr (DStr ''https://ntfy.sh''))) (\<lambda>server.
     host_bind (dot config ''topic'') (\<lambda>topic.
     let url = interpolate E server @ ''/'' @ interpolate E topic in
     host_bind (dot mail ''subject'') (\<lambda>subject.
     let headers = object_map [(''Title'', subject)] in
     host_bind (in_map ''token'' config) (\<lambda>has_token.
     host_bind (if has_token
                then host_bind (dot config ''token'') (\<lambda>token.
                     host_res (Inr (bt_insert ''Authorization'' (DStr (''Bearer '' @ interpolate E token)) headers)))
                else host_res (Inr headers)) (\<lambda>headers.
     host_bind (dot mail ''body'') (\<lambda>content.
     host_bind (call_http_post E http (DStr url) (DMap headers) content) (\<lambda>res.
     host_bind (dot res ''status'') (\<lambda>status.
     host_bind (dot res ''body'') (\<lambda>b.
     if lt_int status 200 \<or> ge_int status 300
     then throw (''ntfy failed: '' @ interpolate E status @ '' '' @ interpolate E b)
     else host_res (Inr ())))))))))))"

section \<open>The scripts as compiled plugins\<close>

datatype script = Graph_Script | Teams_Script | Ntfy_Script

fun script_fn :: "script \<Rightarrow> 'j engine \<Rightarrow> 'w http_client \<Rightarrow> dyn \<Rightarrow> dyn \<Rightarrow> ('w, unit) host" where
  "script_fn Graph_Script = graph_send"
| "script_fn Teams_Script = teams_send"
| "script_fn Ntfy_Script = ntfy_send"

text \<open>\<open>call_fn\<close> on the compiled script, which declares the one function \<open>send\<close>; \<open>show_error\<close> is the text
  of an error. The network is the world of the client.\<close>

definition run_script ::
  "'j engine \<Rightarrow> (rhai_error \<Rightarrow> string) \<Rightarrow> 'n http_client \<Rightarrow> 'n \<Rightarrow> script \<Rightarrow> string \<Rightarrow>
   dyn btree_map \<times> dyn btree_map \<Rightarrow> string + (string + unit)" where
  "run_script E show_error http net ast f args =
     (let (mail, config) = args in
      if f = ''send''
      then Inr (map_err show_error (snd (script_fn ast E http (DMap mail) (DMap config) net)))
      else Inr (Inl (show_error (ErrorFunctionNotFound f))))"

section \<open>Facts\<close>

declare dot.simps [simp del] in_map.simps [simp del]

lemma host_bind_res [simp]:
  "host_bind (host_res (Inr x)) f = f x"
  "host_bind (host_res (Inl e)) f = host_res (Inl e)"
  by (simp_all add: host_bind_def host_res_def fun_eq_iff)

text \<open>A setting as a template shows it.\<close>

definition setting :: "string btree_map \<Rightarrow> string \<Rightarrow> string" where
  "setting st k = (case bt_get st k of Some s \<Rightarrow> s | None \<Rightarrow> [])"

lemma dot_config:
  assumes "bt_wf st"
  shows "dot (DMap (string_config_map st)) k =
     host_res (Inr (case bt_get st k of Some s \<Rightarrow> DStr s | None \<Rightarrow> DUnit))"
  using config_map_lookup [OF assms, of k] by (simp add: dot.simps split: option.split)

lemma in_map_config:
  assumes "bt_wf st"
  shows "in_map k (DMap (string_config_map st)) = host_res (Inr (bt_get st k \<noteq> None))"
  using config_map_lookup [OF assms, of k] by (simp add: in_map.simps)

lemma interpolate_setting:
  "interpolate E (case bt_get st k of Some s \<Rightarrow> DStr s | None \<Rightarrow> DUnit) = setting st k"
  by (simp add: setting_def split: option.split)

lemma dot_mail:
  "dot (DMap (mail_to_map m)) ''to'' = host_res (Inr (DArray (map (\<lambda>a. DMap (addr_to_map a)) (to_addrs m))))"
  "dot (DMap (mail_to_map m)) ''subject'' = host_res (Inr (DStr (subject m)))"
  "dot (DMap (mail_to_map m)) ''body'' = host_res (Inr (DStr (body m)))"
  by (simp_all add: dot.simps mail_to_map_eq bt_get_def)

definition graph_recipient :: "address \<Rightarrow> dyn" where
  "graph_recipient a = DMap [(''emailAddress'', DMap [(''address'', DStr (email a))])]"

definition graph_message :: "mail \<Rightarrow> dyn" where
  "graph_message m = DMap
     [(''message'', DMap
        [(''body'', DMap [(''content'', DStr (body m)), (''contentType'', DStr ''Text'')]),
         (''subject'', DStr (subject m)),
         (''toRecipients'', DArray (map graph_recipient (to_addrs m)))]),
      (''saveToSentItems'', DBool False)]"

lemma dot_addr: "dot (DMap (addr_to_map a)) ''email'' = host_res (Inr (DStr (email a)))"
  by (simp add: dot.simps addr_to_map_eq bt_get_def)

lemma push_recipients_eq:
  "push_recipients (map (\<lambda>a. DMap (addr_to_map a)) as) acc = host_res (Inr (acc @ map graph_recipient as))"
  by (induction as arbitrary: acc) (simp_all add: dot_addr graph_recipient_def object_map_def)

lemma graph_payload_eq: "graph_payload (DMap (mail_to_map m)) = host_res (Inr (graph_message m))"
  by (simp add: graph_payload_def dot_mail push_recipients_eq graph_message_def object_map_def less_char_def)

text \<open>The answer of a request as the scripts see it.\<close>

definition response_value :: "http_response \<Rightarrow> dyn" where
  "response_value r = DMap [(''body'', DStr (resp_body r)), (''status'', DInt (int (unat (resp_status r))))]"

lemma dot_response:
  "dot (response_value r) ''status'' = host_res (Inr (DInt (int (unat (resp_status r)))))"
  "dot (response_value r) ''body'' = host_res (Inr (DStr (resp_body r)))"
  by (simp_all add: dot.simps response_value_def bt_get_def)

definition ask :: "'w http_client \<Rightarrow> http_request \<Rightarrow> ('w, dyn) host" where
  "ask http r w =
     (case http w r of
        (w', Inl e) \<Rightarrow> (w', Inl (ErrorRuntime (''http error: '' @ e)))
      | (w', Inr resp) \<Rightarrow> (w', Inr (response_value resp)))"

lemma ask_exec: "host_bind (exec http r) (\<lambda>res. host_res (Inr (DMap res))) = ask http r"
  by (simp add: fun_eq_iff host_bind_def host_res_def exec_def ask_def response_value_def less_char_def
      split: prod.split sum.split)

lemma host_bind_assoc: "host_bind (host_bind c f) g = host_bind c (\<lambda>x. host_bind (f x) g)"
  by (simp add: fun_eq_iff host_bind_def split: prod.split sum.split)

lemma host_bind_ask:
  "host_bind (ask http r) g w =
     (case http w r of
        (w', Inl e) \<Rightarrow> (w', Inl (ErrorRuntime (''http error: '' @ e)))
      | (w', Inr resp) \<Rightarrow> g (response_value resp) w')"
  by (simp add: host_bind_def ask_def split: prod.split sum.split)

text \<open>String pairs, and what the host functions do with a map of them.\<close>

definition str_map :: "(string \<times> string) list \<Rightarrow> (string \<times> dyn) list" where
  "str_map ps = map (\<lambda>(k, s). (k, DStr s)) ps"

lemma map_to_pairs_str_map: "map_to_pairs ty (str_map ps) = Inr ps"
  by (subst map_to_pairs_strings) (auto simp: str_map_def intro!: map_idI)

lemma call_http_post_strings:
  "call_http_post E http (DStr url) (DMap (str_map hs)) (DStr b) =
     ask http \<lparr>req_method = ''POST'', req_url = url, req_headers = hs, req_body = TextBody b\<rparr>"
  by (simp add: http_post_def host_bind_assoc map_to_pairs_str_map ask_exec)

lemma call_http_post_form_strings:
  "call_http_post_form E http (DStr url) (DMap (str_map hs)) (DMap (str_map fs)) =
     ask http \<lparr>req_method = ''POST'', req_url = url, req_headers = hs, req_body = FormBody fs\<rparr>"
  by (simp add: http_post_form_def host_bind_assoc map_to_pairs_str_map ask_exec)

subsection \<open>The protocol of the graph script\<close>

definition token_request :: "string btree_map \<Rightarrow> http_request" where
  "token_request st =
     \<lparr>req_method = ''POST'',
      req_url = ''https://login.microsoftonline.com/'' @ setting st ''tenant_id'' @ ''/oauth2/v2.0/token'',
      req_headers = [],
      req_body = FormBody
        [(''client_id'', setting st ''client_id''), (''client_secret'', setting st ''client_secret''),
         (''grant_type'', ''client_credentials''), (''scope'', ''https://graph.microsoft.com/.default'')]\<rparr>"

definition send_mail_request :: "string \<Rightarrow> string \<Rightarrow> string \<Rightarrow> http_request" where
  "send_mail_request sender token js =
     \<lparr>req_method = ''POST'',
      req_url = ''https://graph.microsoft.com/v1.0/users/'' @ sender @ ''/sendMail'',
      req_headers = [(''Authorization'', ''Bearer '' @ token), (''Content-Type'', ''application/json'')],
      req_body = TextBody js\<rparr>"

text \<open>The token an answer of the token endpoint holds.\<close>

definition token_of :: "'j engine \<Rightarrow> http_response \<Rightarrow> rhai_error + string" where
  "token_of E r =
     (if resp_status r \<noteq> 200
      then Inl (ErrorRuntime (''token request failed: '' @ int_to_string (int (unat (resp_status r))) @ '' '' @ resp_body r))
      else res_bind (parse_json (json_parse E) (to_dynamic E) (resp_body r)) (\<lambda>v.
           case v of DMap fs \<Rightarrow> Inr (case bt_get fs ''access_token'' of Some d \<Rightarrow> interpolate E d | None \<Rightarrow> [])
           | _ \<Rightarrow> Inl (ErrorDotExpr ''access_token'')))"

definition check_status :: "(nat \<Rightarrow> bool) \<Rightarrow> string \<Rightarrow> http_response \<Rightarrow> rhai_error + unit" where
  "check_status ok msg r =
     (if ok (unat (resp_status r)) then Inr ()
      else Inl (ErrorRuntime (msg @ int_to_string (int (unat (resp_status r))) @ '' '' @ resp_body r)))"

text \<open>A request whose answer must have a good status.\<close>

definition post_checked :: "'w http_client \<Rightarrow> (nat \<Rightarrow> bool) \<Rightarrow> string \<Rightarrow> http_request \<Rightarrow> ('w, unit) host" where
  "post_checked http ok msg rq w =
     (case http w rq of
        (w', Inl e) \<Rightarrow> (w', Inl (ErrorRuntime (''http error: '' @ e)))
      | (w', Inr r) \<Rightarrow> (w', check_status ok msg r))"

text \<open>What follows the answer to the token request.\<close>

definition graph_after_token ::
  "'j engine \<Rightarrow> 'w http_client \<Rightarrow> mail \<Rightarrow> string \<Rightarrow> 'w \<times> (string + http_response) \<Rightarrow> 'w \<times> (rhai_error + unit)" where
  "graph_after_token E http m sender wa =
     (case wa of
        (w, Inl e) \<Rightarrow> (w, Inl (ErrorRuntime (''http error: '' @ e)))
      | (w, Inr r) \<Rightarrow>
          host_bind (host_res (token_of E r)) (\<lambda>tok.
          host_bind (host_res (to_json (json_print E) (graph_message m))) (\<lambda>js.
          post_checked http (\<lambda>n. n = 202) ''sendMail failed: '' (send_mail_request sender tok js))) w)"

lemma status_compare:
  "ne_int (DInt (int (unat (x :: u16)))) 200 \<longleftrightarrow> x \<noteq> 200"
  "ne_int (DInt (int (unat (x :: u16)))) 202 \<longleftrightarrow> unat x \<noteq> 202"
  "lt_int (DInt (int (unat (x :: u16)))) 200 \<or> ge_int (DInt (int (unat x))) 300 \<longleftrightarrow> \<not> (200 \<le> unat x \<and> unat x < 300)"
  by (auto simp: word_unat_eq_iff simp del: of_nat_unat)

lemma access_token_eq:
  "host_bind (host_bind (call_parse_json E (DStr raw)) (\<lambda>v. dot v ''access_token'')) (\<lambda>tok. f (interpolate E tok)) =
      host_bind (host_res (res_bind (parse_json (json_parse E) (to_dynamic E) raw) (\<lambda>v.
         case v of DMap fs \<Rightarrow> Inr (case bt_get fs ''access_token'' of Some d \<Rightarrow> interpolate E d | None \<Rightarrow> [])
         | _ \<Rightarrow> Inl (ErrorDotExpr ''access_token'')))) f"
  by (cases "parse_json (json_parse E) (to_dynamic E) raw")
    (auto simp: dot.simps split: dyn.split option.split)

lemma graph_token_eq:
  assumes "bt_wf st" and "bt_get st ''client_id'' \<noteq> None" and "bt_get st ''client_secret'' \<noteq> None"
  shows "host_bind (graph_token E http (DMap (string_config_map st))) (\<lambda>tok. f (interpolate E tok)) w =
     (case http w (token_request st) of
        (w1, Inl e) \<Rightarrow> (w1, Inl (ErrorRuntime (''http error: '' @ e)))
      | (w1, Inr r) \<Rightarrow> host_bind (host_res (token_of E r)) f w1)"
proof -
  from assms(2,3) obtain cid sec where s: "bt_get st ''client_id'' = Some cid" "bt_get st ''client_secret'' = Some sec"
    by auto
  have form: "object_map
           [(''client_id'', DStr cid), (''client_secret'', DStr sec),
            (''scope'', DStr ''https://graph.microsoft.com/.default''),
            (''grant_type'', DStr ''client_credentials'')] =
      str_map [(''client_id'', cid), (''client_secret'', sec),
         (''grant_type'', ''client_credentials''), (''scope'', ''https://graph.microsoft.com/.default'')]"
    by (simp add: object_map_def str_map_def less_char_def)
  have none: "DMap [] = DMap (str_map [])" by (simp add: str_map_def)
  have req: "\<lparr>req_method = ''POST'',
      req_url = ''https://login.microsoftonline.com/'' @ setting st ''tenant_id'' @ ''/oauth2/v2.0/token'',
      req_headers = [],
      req_body = FormBody [(''client_id'', cid), (''client_secret'', sec),
         (''grant_type'', ''client_credentials''), (''scope'', ''https://graph.microsoft.com/.default'')]\<rparr> = token_request st"
    by (simp add: token_request_def setting_def s)
  show ?thesis
    unfolding graph_token_def dot_config [OF assms(1)] host_bind_res interpolate_setting Let_def s option.case
      form none call_http_post_form_strings host_bind_assoc req host_bind_ask dot_response status_compare interpolate.simps
    by (simp add: token_of_def throw_def access_token_eq del: call_parse_json.simps of_nat_unat split: prod.split sum.split)
qed

lemma send_headers_eq:
  "object_map [(''Authorization'', DStr a), (''Content-Type'', DStr b)] =
     str_map [(''Authorization'', a), (''Content-Type'', b)]"
  by (simp add: object_map_def str_map_def less_char_def)

lemma post_and_check:
  assumes "\<And>x :: u16. bad (DInt (int (unat x))) \<longleftrightarrow> \<not> ok (unat x)"
  shows "host_bind (call_http_post E http (DStr url) (DMap (str_map hs)) (DStr js)) (\<lambda>res.
     host_bind (dot res ''status'') (\<lambda>status.
     host_bind (dot res ''body'') (\<lambda>b.
     if bad status then throw (msg @ interpolate E status @ '' '' @ interpolate E b) else host_res (Inr ())))) =
     post_checked http ok msg \<lparr>req_method = ''POST'', req_url = url, req_headers = hs, req_body = TextBody js\<rparr>"
proof
  show "host_bind (call_http_post E http (DStr url) (DMap (str_map hs)) (DStr js)) (\<lambda>res.
     host_bind (dot res ''status'') (\<lambda>status.
     host_bind (dot res ''body'') (\<lambda>b.
     if bad status then throw (msg @ interpolate E status @ '' '' @ interpolate E b) else host_res (Inr ())))) w =
     post_checked http ok msg \<lparr>req_method = ''POST'', req_url = url, req_headers = hs, req_body = TextBody js\<rparr> w" for w
    unfolding call_http_post_strings host_bind_ask dot_response host_bind_res assms post_checked_def check_status_def
      throw_def host_res_def interpolate.simps
    by (simp split: prod.split sum.split)
qed

lemma call_to_json_bind:
  "host_bind (call_to_json E d) g = host_bind (host_res (to_json (json_print E) d)) (\<lambda>s. g (DStr s))"
  by (cases "to_json (json_print E) d") (simp_all add: call_to_json_def)

lemma graph_send_eq:
  assumes "bt_wf st" and "bt_get st ''client_id'' \<noteq> None" and "bt_get st ''client_secret'' \<noteq> None"
  shows "graph_send E http (DMap (mail_to_map m)) (DMap (string_config_map st)) w =
     graph_after_token E http m (setting st ''sender'') (http w (token_request st))"
  unfolding graph_send_def graph_payload_eq dot_config [OF assms(1)] host_bind_res interpolate_setting Let_def
    send_headers_eq graph_token_eq [OF assms] call_to_json_bind graph_after_token_def
    post_and_check [where bad = "\<lambda>s. ne_int s 202" and ok = "\<lambda>n. n = 202", OF status_compare(2)]
    send_mail_request_def
  by (rule graph_token_eq [OF assms, where f = "\<lambda>tok. host_bind (host_res (to_json (json_print E) (graph_message m)))
       (\<lambda>js. post_checked http (\<lambda>n. n = 202) ''sendMail failed: ''
          (send_mail_request (setting st ''sender'') tok js))", unfolded send_mail_request_def])

lemma graph_send_unconfigured:
  assumes "bt_wf st" and "bt_get st ''client_id'' = None \<or> bt_get st ''client_secret'' = None"
  shows "graph_send E http (DMap (mail_to_map m)) (DMap (string_config_map st)) =
     host_res (Inl (ErrorRuntime (''value for '' @ [CHR 0x27] @
       (if bt_get st ''client_id'' = None then ''client_id'' else ''client_secret'') @ [CHR 0x27] @
       '' must be a string, got '' @ type_name E DUnit)))" (is "_ = host_res (Inl (ErrorRuntime ?e))")
proof -
  let ?v = "\<lambda>k. case bt_get st k of Some s \<Rightarrow> DStr s | None \<Rightarrow> DUnit"
  let ?form = "object_map
           [(''client_id'', ?v ''client_id''), (''client_secret'', ?v ''client_secret''),
            (''scope'', DStr ''https://graph.microsoft.com/.default''),
            (''grant_type'', DStr ''client_credentials'')]"
  have "map_to_pairs (type_name E) ?form = Inl ?e"
    using assms(2)
    by (cases "bt_get st ''client_id''"; cases "bt_get st ''client_secret''")
      (simp_all add: object_map_def less_char_def map_to_pairs_def into_string_def)
  then have "graph_token E http (DMap (string_config_map st)) = host_res (Inl (ErrorRuntime ?e))"
    unfolding graph_token_def dot_config [OF assms(1)] host_bind_res Let_def call_http_post_form.simps http_post_form_def
    by (simp add: map_to_pairs_def)
  then show ?thesis by (simp add: graph_send_def)
qed

subsection \<open>The requests of the other scripts\<close>

definition ok_2xx :: "nat \<Rightarrow> bool" where
  "ok_2xx n = (200 \<le> n \<and> n < 300)"

definition teams_request :: "string \<Rightarrow> string \<Rightarrow> http_request" where
  "teams_request url js =
     \<lparr>req_method = ''POST'', req_url = url, req_headers = [(''Content-Type'', ''application/json'')],
      req_body = TextBody js\<rparr>"

definition teams_message :: "mail \<Rightarrow> dyn" where
  "teams_message m = teams_payload (teams_card (DStr (subject m)) (DStr (body m)))"

lemma teams_header_eq: "object_map [(''Content-Type'', DStr a)] = str_map [(''Content-Type'', a)]"
  by (simp add: object_map_def str_map_def)

lemma status_2xx: "lt_int (DInt (int (unat (x :: u16)))) 200 \<or> ge_int (DInt (int (unat x))) 300 \<longleftrightarrow> \<not> ok_2xx (unat x)"
  unfolding status_compare(3) ok_2xx_def ..

lemma teams_send_eq:
  assumes "bt_wf st"
  shows "teams_send E http (DMap (mail_to_map m)) (DMap (string_config_map st)) =
     host_bind (host_res (to_json (json_print E) (teams_message m))) (\<lambda>js.
       case bt_get st ''webhook_url'' of
         None \<Rightarrow> host_res (Inl (ErrorFunctionNotFound ''http_post''))
       | Some url \<Rightarrow> post_checked http ok_2xx ''teams webhook failed: '' (teams_request url js))"
proof (cases "bt_get st ''webhook_url''")
  case None
  then show ?thesis
    by (simp add: teams_send_def dot_mail dot_config [OF assms] call_to_json_bind teams_message_def)
next
  case (Some url)
  show ?thesis
    unfolding teams_send_def dot_mail dot_config [OF assms] host_bind_res call_to_json_bind Some option.case
      teams_header_eq teams_message_def [symmetric] teams_request_def
      post_and_check [where bad = "\<lambda>s. lt_int s 200 \<or> ge_int s 300" and ok = ok_2xx, OF status_2xx] ..
qed

definition ntfy_request :: "string btree_map \<Rightarrow> mail \<Rightarrow> http_request" where
  "ntfy_request st m =
     \<lparr>req_method = ''POST'',
      req_url = (case bt_get st ''server'' of Some s \<Rightarrow> s | None \<Rightarrow> ''https://ntfy.sh'') @ ''/'' @ setting st ''topic'',
      req_headers =
        (case bt_get st ''token'' of Some t \<Rightarrow> [(''Authorization'', ''Bearer '' @ t)] | None \<Rightarrow> []) @
        [(''Title'', subject m)],
      req_body = TextBody (body m)\<rparr>"

lemma ntfy_headers_eq:
  "object_map [(''Title'', DStr a)] = str_map [(''Title'', a)]"
  "bt_insert ''Authorization'' (DStr b) (str_map [(''Title'', a)]) = str_map [(''Authorization'', b), (''Title'', a)]"
  by (simp_all add: object_map_def str_map_def less_char_def)

lemma ntfy_server_eq:
  "(if bt_get st ''server'' \<noteq> None
    then host_res (Inr (case bt_get st ''server'' of Some s \<Rightarrow> DStr s | None \<Rightarrow> DUnit))
    else host_res (Inr (DStr ''https://ntfy.sh''))) =
   host_res (Inr (DStr (case bt_get st ''server'' of Some s \<Rightarrow> s | None \<Rightarrow> ''https://ntfy.sh'')))"
  by (cases "bt_get st ''server''") simp_all

lemma ntfy_token_eq:
  "(if bt_get st ''token'' \<noteq> None
    then host_res (Inr (str_map [(''Authorization'', ''Bearer '' @ setting st ''token''), (''Title'', t)]))
    else host_res (Inr (str_map [(''Title'', t)]))) =
   host_res (Inr (str_map ((case bt_get st ''token'' of Some t \<Rightarrow> [(''Authorization'', ''Bearer '' @ t)] | None \<Rightarrow> []) @
        [(''Title'', t)])))"
  by (cases "bt_get st ''token''") (simp_all add: setting_def)

lemma ntfy_send_eq:
  assumes "bt_wf st"
  shows "ntfy_send E http (DMap (mail_to_map m)) (DMap (string_config_map st)) =
     post_checked http ok_2xx ''ntfy failed: '' (ntfy_request st m)"
  unfolding ntfy_send_def dot_mail dot_config [OF assms] in_map_config [OF assms] host_bind_res Let_def
    interpolate_setting ntfy_headers_eq ntfy_server_eq ntfy_token_eq interpolate.simps ntfy_request_def
    post_and_check [where bad = "\<lambda>s. lt_int s 200 \<or> ge_int s 300" and ok = ok_2xx, OF status_2xx] ..

subsection \<open>Recorded requests\<close>

text \<open>A client that records every request it is asked to make, and what a script did through it.\<close>

definition recording :: "'w http_client \<Rightarrow> (http_request list \<times> 'w) http_client" where
  "recording http sw r = (case http (snd sw) r of (w', answer) \<Rightarrow> ((fst sw @ [r], w'), answer))"

definition script_trace ::
  "script \<Rightarrow> 'j engine \<Rightarrow> 'w http_client \<Rightarrow> string btree_map \<Rightarrow> mail \<Rightarrow> 'w \<Rightarrow> http_request list \<times> (rhai_error + unit)" where
  "script_trace s E http st m w =
     (case script_fn s E (recording http) (DMap (mail_to_map m)) (DMap (string_config_map st)) ([], w) of
        ((seen, w'), outcome) \<Rightarrow> (seen, outcome))"

lemma post_checked_trace:
  "post_checked (recording http) ok msg rq (seen, w) =
     ((seen @ [rq], fst (http w rq)), snd (post_checked http ok msg rq w))"
  by (simp add: post_checked_def recording_def split: prod.split sum.split)

lemma post_checked_ok:
  "snd (post_checked http ok msg rq w) = Inr () \<longleftrightarrow> (\<exists>w' r. http w rq = (w', Inr r) \<and> ok (unat (resp_status r)))"
  by (auto simp: post_checked_def check_status_def split: prod.split sum.split)

lemma script_trace_teams:
  assumes "bt_wf st"
  shows "script_trace Teams_Script E http st m w =
     (case to_json (json_print E) (teams_message m) of
        Inl e \<Rightarrow> ([], Inl e)
      | Inr js \<Rightarrow>
          (case bt_get st ''webhook_url'' of
             None \<Rightarrow> ([], Inl (ErrorFunctionNotFound ''http_post''))
           | Some url \<Rightarrow> ([teams_request url js],
               snd (post_checked http ok_2xx ''teams webhook failed: '' (teams_request url js) w))))"
  by (simp add: script_trace_def teams_send_eq [OF assms] host_bind_def host_res_def post_checked_trace
      split: sum.split option.split)

lemma script_trace_ntfy:
  assumes "bt_wf st"
  shows "script_trace Ntfy_Script E http st m w =
     ([ntfy_request st m], snd (post_checked http ok_2xx ''ntfy failed: '' (ntfy_request st m) w))"
  by (simp add: script_trace_def ntfy_send_eq [OF assms] post_checked_trace)

lemma script_trace_graph:
  assumes "bt_wf st" and "bt_get st ''client_id'' \<noteq> None" and "bt_get st ''client_secret'' \<noteq> None"
  shows "script_trace Graph_Script E http st m w =
     (case http w (token_request st) of
        (w1, Inl e) \<Rightarrow> ([token_request st], Inl (ErrorRuntime (''http error: '' @ e)))
      | (w1, Inr r) \<Rightarrow>
          (case res_bind (token_of E r) (\<lambda>tok. res_bind (to_json (json_print E) (graph_message m)) (\<lambda>js.
                  Inr (send_mail_request (setting st ''sender'') tok js))) of
             Inl e \<Rightarrow> ([token_request st], Inl e)
           | Inr rq \<Rightarrow> ([token_request st, rq],
               snd (post_checked http (\<lambda>n. n = 202) ''sendMail failed: '' rq w1))))"
  unfolding script_trace_def script_fn.simps graph_send_eq [OF assms] graph_after_token_def
  by (simp add: recording_def [of http "([], w)"] host_bind_def host_res_def res_bind_def post_checked_trace
      split: sum.split prod.split)

section \<open>Properties\<close>

lemma rhai_send_script:
  assumes "rh_config t = string_config_map st"
  shows "rhai_send (run_script E show_error http) t net m = Some (Inr ()) \<longleftrightarrow>
     snd (script_fn (rh_ast t) E http (DMap (mail_to_map m)) (DMap (string_config_map st)) net) = Inr ()"
  by (simp add: rhai_send_def run_script_def assms)

lemma token_of_eq_Inr:
  "token_of E r = Inr tok \<longleftrightarrow>
     resp_status r = 200 \<and>
     (\<exists>fs. parse_json (json_parse E) (to_dynamic E) (resp_body r) = Inr (DMap fs) \<and>
        tok = (case bt_get fs ''access_token'' of Some d \<Rightarrow> interpolate E d | None \<Rightarrow> []))"
  by (cases "parse_json (json_parse E) (to_dynamic E) (resp_body r)")
    (auto simp: token_of_def split: dyn.split)

lemma graph_after_token_ok:
  "snd (graph_after_token E http m sender wa) = Inr () \<longleftrightarrow>
     (\<exists>w r tok js. wa = (w, Inr r) \<and> token_of E r = Inr tok \<and> json_print E (graph_message m) = Inr js \<and>
        snd (post_checked http (\<lambda>n. n = 202) ''sendMail failed: '' (send_mail_request sender tok js) w) = Inr ())"
  by (auto simp: graph_after_token_def host_bind_def host_res_def to_json_def
      split: prod.split sum.split)

lemma graph_send_ok_iff:
  assumes "bt_wf st" and "rh_ast t = Graph_Script" and "rh_config t = string_config_map st"
  shows "rhai_send (run_script E show_error http) t net m = Some (Inr ()) \<longleftrightarrow>
     bt_get st ''client_id'' \<noteq> None \<and> bt_get st ''client_secret'' \<noteq> None \<and>
     (\<exists>net1 r1 fs tok js net2 r2.
        http net (token_request st) = (net1, Inr r1) \<and> resp_status r1 = 200 \<and>
        parse_json (json_parse E) (to_dynamic E) (resp_body r1) = Inr (DMap fs) \<and>
        tok = (case bt_get fs ''access_token'' of Some d \<Rightarrow> interpolate E d | None \<Rightarrow> []) \<and>
        json_print E (graph_message m) = Inr js \<and>
        http net1 (send_mail_request (setting st ''sender'') tok js) = (net2, Inr r2) \<and> resp_status r2 = 202)"
proof (cases "bt_get st ''client_id'' = None \<or> bt_get st ''client_secret'' = None")
  case True
  show ?thesis
    unfolding rhai_send_script [OF assms(3)] assms(2) script_fn.simps graph_send_unconfigured [OF assms(1) True]
    using True by (auto simp: host_res_def)
next
  case False
  have s: "unat (x :: u16) = 202 \<longleftrightarrow> x = 202" for x by (simp add: word_unat_eq_iff)
  show ?thesis
    unfolding rhai_send_script [OF assms(3)] assms(2) script_fn.simps
    by (subst graph_send_eq) (use assms(1) False in \<open>auto simp: graph_after_token_ok token_of_eq_Inr post_checked_ok s\<close>)
qed

text \<open>C35: A mail sent through the graph plugin counts as delivered exactly when the settings hold a
  client id and a secret, the token endpoint answers 200 with a JSON object, the message (subject,
  body and every recipient in order) can be printed as JSON, and the \<open>sendMail\<close> endpoint of the
  configured sender answers 202 to it under that token. Every other answer is a transport error,
  which the dispatcher retries.\<close>

theorem graph_delivery_exact:
  assumes "bt_wf st" and "rh_ast t = Graph_Script" and "rh_config t = string_config_map st"
  shows "rhai_send (run_script E show_error http) t net m = Some (Inr ()) \<longleftrightarrow>
     bt_get st ''client_id'' \<noteq> None \<and> bt_get st ''client_secret'' \<noteq> None \<and>
     (\<exists>net1 r1 fs tok js net2 r2.
        http net (token_request st) = (net1, Inr r1) \<and> resp_status r1 = 200 \<and>
        parse_json (json_parse E) (to_dynamic E) (resp_body r1) = Inr (DMap fs) \<and>
        tok = (case bt_get fs ''access_token'' of Some d \<Rightarrow> interpolate E d | None \<Rightarrow> []) \<and>
        json_print E (graph_message m) = Inr js \<and>
        http net1 (send_mail_request (setting st ''sender'') tok js) = (net2, Inr r2) \<and> resp_status r2 = 202)"
  by (rule graph_send_ok_iff [OF assms])

definition sample_engine :: "dyn engine" where
  "sample_engine =
     \<lparr>type_name = (\<lambda>_. ''?''), display = (\<lambda>_. []), json_print = (\<lambda>_. Inr ''{}''),
      json_parse = (\<lambda>s. if s = ''token'' then Inr (DMap [(''access_token'', DStr ''abc123'')]) else Inl ''bad''),
      to_dynamic = Inr\<rparr>"

text \<open>The client of the crate's tests (\<open>MockHttp\<close>): it records the request and answers by the first rule
  whose text the URL contains.\<close>

fun mock_answer :: "(string \<times> u16 \<times> string) list \<Rightarrow> string \<Rightarrow> string + http_response" where
  "mock_answer [] url = Inl (''no mock rule for '' @ url)"
| "mock_answer ((needle, st, b) # rules) url =
     (if contains_str url needle then Inr \<lparr>resp_status = st, resp_body = b\<rparr> else mock_answer rules url)"

definition mock_execute :: "(string \<times> u16 \<times> string) list \<Rightarrow> http_request list http_client" where
  "mock_execute rules seen r = (seen @ [r], mock_answer rules (req_url r))"

definition sample_mail :: mail where
  "sample_mail = from_new
     \<lparr>nm_from = address_new ''relay@example.com'', nm_to = [address_new ''ziel@example.com''], nm_subject = ''Status'',
      nm_body = ''Okay'', nm_transport = Some ''graph''\<rparr> 0 0"

definition sample_rules :: "(string \<times> u16 \<times> string) list" where
  "sample_rules = [(''login.microsoftonline.com'', 200, ''token''), (''graph.microsoft.com'', 202, [])]"

definition sample_settings :: "string \<Rightarrow> string btree_map" where
  "sample_settings secret =
     [(''client_id'', ''client''), (''client_secret'', secret), (''sender'', ''relay''), (''tenant_id'', ''tenant'')]"

definition sample_graph :: "script rhai_transport" where
  "sample_graph =
     \<lparr>rh_manifest = sample_manifest, rh_ast = Graph_Script, rh_config = string_config_map (sample_settings ''s'')\<rparr>"

lemma sample_settings_wf: "bt_wf (sample_settings x)"
  by (simp add: bt_wf_def sample_settings_def less_char_def)

lemma sample_token_answer: "mock_answer sample_rules (req_url (token_request (sample_settings x))) = Inr \<lparr>resp_status = 200, resp_body = ''token''\<rparr>"
  by (simp add: sample_rules_def token_request_def setting_def sample_settings_def bt_get_def)

lemma sample_mail_answer: "mock_answer sample_rules (req_url (send_mail_request ''relay'' tok js)) = Inr \<lparr>resp_status = 202, resp_body = []\<rparr>"
  by (simp add: sample_rules_def send_mail_request_def)

theorem graph_delivery_exact_witness:
  "rhai_send (run_script sample_engine (\<lambda>_. []) (mock_execute sample_rules)) sample_graph [] sample_mail = Some (Inr ())"
proof -
  have c: "rh_ast sample_graph = Graph_Script" "rh_config sample_graph = string_config_map (sample_settings ''s'')"
    by (simp_all add: sample_graph_def)
  have s: "setting (sample_settings ''s'') ''sender'' = ''relay''"
    "bt_get (sample_settings ''s'') ''client_id'' = Some ''client''" "bt_get (sample_settings ''s'') ''client_secret'' = Some ''s''"
    by (simp_all add: setting_def sample_settings_def bt_get_def)
  show ?thesis
    unfolding graph_delivery_exact [OF sample_settings_wf c]
    by (simp add: s mock_execute_def sample_token_answer sample_mail_answer sample_engine_def parse_json_def)
qed

text \<open>C36: The client secret leaves the relay only in the form of the token request: under settings that
  differ in nothing else, and with the same answer to that request, every later request and the
  outcome are the same. There is at most one later request.\<close>

theorem graph_secret_confined:
  assumes "bt_wf st" and "bt_wf st'"
    and "bt_get st ''client_secret'' = Some a" and "bt_get st' ''client_secret'' = Some b"
    and "\<forall>k. k \<noteq> ''client_secret'' \<longrightarrow> bt_get st k = bt_get st' k"
    and "http w (token_request st) = http w (token_request st')"
  shows "tl (fst (script_trace Graph_Script E http st m w)) = tl (fst (script_trace Graph_Script E http st' m w)) \<and>
     snd (script_trace Graph_Script E http st m w) = snd (script_trace Graph_Script E http st' m w) \<and>
     length (tl (fst (script_trace Graph_Script E http st m w))) \<le> 1"
proof (cases "bt_get st ''client_id''")
  case None
  with assms(5) have "bt_get st' ''client_id'' = None" by simp
  with None show ?thesis
    by (simp add: script_trace_def graph_send_unconfigured [OF assms(1)] graph_send_unconfigured [OF assms(2)]
        host_res_def)
next
  case (Some cid)
  with assms(5) have c: "bt_get st' ''client_id'' = Some cid" by simp
  have s: "setting st ''sender'' = setting st' ''sender''" using assms(5) by (simp add: setting_def)
  have t: "script_trace Graph_Script E http st m w = (let x = script_trace Graph_Script E http st' m w
      in (token_request st # tl (fst x), snd x)) \<and> length (fst (script_trace Graph_Script E http st' m w)) \<le> 2"
    by (subst (1 2 3) script_trace_graph)
      (use assms c Some s in \<open>auto simp: Let_def split: prod.split sum.split\<close>)
  then show ?thesis by (auto simp: Let_def)
qed


theorem graph_secret_confined_witness:
  "snd (script_trace Graph_Script sample_engine (\<lambda>_ r. ((), mock_answer sample_rules (req_url r))) (sample_settings ''s'') sample_mail ()) =
   snd (script_trace Graph_Script sample_engine (\<lambda>_ r. ((), mock_answer sample_rules (req_url r))) (sample_settings ''other'') sample_mail ())"
proof -
  have s: "bt_get (sample_settings x) ''client_secret'' = Some x" for x
    by (simp add: sample_settings_def bt_get_def)
  have "\<forall>k. k \<noteq> ''client_secret'' \<longrightarrow> bt_get (sample_settings x) k = bt_get (sample_settings y) k" for x y
    by (simp add: sample_settings_def bt_get_def)
  note eq = graph_secret_confined [OF sample_settings_wf sample_settings_wf s s this]
  show ?thesis
    by (rule eq [where http = "\<lambda>_ r. ((), mock_answer sample_rules (req_url r))", THEN conjunct2, THEN conjunct1])
      (simp add: sample_token_answer)
qed

text \<open>C37: The teams and ntfy plugins make at most one request per mail. The send succeeds exactly when
  that request was made and answered with a status from 200 to 299, and the request depends on
  the subject and the body only: sender and recipients of the mail never leave through them.\<close>

theorem webhook_scripts_outcome:
  assumes "bt_wf st" and "s = Teams_Script \<or> s = Ntfy_Script"
  shows "(snd (script_trace s E http st m w) = Inr () \<longleftrightarrow>
      (\<exists>rq w' r. fst (script_trace s E http st m w) = [rq] \<and> http w rq = (w', Inr r) \<and>
         200 \<le> unat (resp_status r) \<and> unat (resp_status r) < 300)) \<and>
     length (fst (script_trace s E http st m w)) \<le> 1 \<and>
     script_trace s E http st (m\<lparr>from_addr := f, to_addrs := rs\<rparr>) w = script_trace s E http st m w"
  using assms(2)
proof
  assume "s = Teams_Script"
  then show ?thesis
    by (auto simp: script_trace_teams [OF assms(1)] post_checked_ok ok_2xx_def teams_message_def
        split: sum.split option.split)
next
  assume "s = Ntfy_Script"
  then show ?thesis
    by (auto simp: script_trace_ntfy [OF assms(1)] post_checked_ok ok_2xx_def ntfy_request_def)
qed

theorem webhook_scripts_outcome_witness:
  "snd (script_trace Teams_Script sample_engine (mock_execute [(''teams'', 200, ''1'')]) [(''webhook_url'', ''https://teams/'')]
      sample_mail []) = Inr ()"
proof -
  have "bt_wf [(''webhook_url'', ''https://teams/'')]" by (simp add: bt_wf_def)
  note w = this
  show ?thesis
    unfolding webhook_scripts_outcome [OF w disjI1 [OF refl], THEN conjunct1]
    by (simp add: script_trace_teams [OF w] to_json_def sample_engine_def bt_get_def teams_request_def mock_execute_def)
qed

text \<open>A mail sent through ntfy is one POST to the topic's URL on the configured or the public server,
  with the subject as title, the body as text and, where a token is set, the bearer token. The topic
  is not checked: without one the notification is posted to the root of the server.\<close>

lemma ntfy_request_exact:
  assumes "bt_wf st"
  shows "fst (script_trace Ntfy_Script E http st m w) =
     [\<lparr>req_method = ''POST'',
       req_url = (case bt_get st ''server'' of Some s \<Rightarrow> s | None \<Rightarrow> ''https://ntfy.sh'') @ ''/'' @
         (case bt_get st ''topic'' of Some t \<Rightarrow> t | None \<Rightarrow> []),
       req_headers = (case bt_get st ''token'' of Some t \<Rightarrow> [(''Authorization'', ''Bearer '' @ t)] | None \<Rightarrow> []) @
         [(''Title'', subject m)],
       req_body = TextBody (body m)\<rparr>]"
  by (simp add: script_trace_ntfy [OF assms] ntfy_request_def setting_def)

end
