(* ===== verification/System_Properties.thy ===== *)
theory System_Properties
  imports Relay_System Plugin_Scripts
begin

text \<open>
  The properties of the whole relay on the SQLite queue: who can make it send something, what an
  acknowledgement of a message promises, and what it takes for a mail to count as delivered by the
  shipped graph plugin.
\<close>

section \<open>Properties\<close>

lemma content_from: "content m = content m' \<Longrightarrow> from_addr m = from_addr m'"
  by (simp add: content_def)

text \<open>C4: The relay is not open. In every state the whole system can reach, with any number of connections,
  deliveries, faults and kills interleaved, every mail that is stored or was handed to a transport
  and was not in the table at the start came in over a connection from an address that the
  whitelist covers, on which anonymous submission was enabled or credentials were presented that
  the authentication accepts; its message is the one taken in there, and its sender is the address
  of a \<open>MAIL\<close> command of that connection.\<close>

theorem only_permitted_mail_is_relayed:
  assumes "sys_reachable ev X (context_of X c) dbg (sqlite_ops E) C I q0 S" and "db_inv E q0" and "params_ok C I"
    and "budget (max_attempts (retry (disp_config I))) (db_view E q0)"
    and "db_view E (queue_of (disp S)) i \<noteq> None \<or> (\<exists>x. (i, x) \<in> set (sends (disp S)))" and "db_view E q0 i = None"
  shows "\<exists>m ip cs m'. (m, ip, cs) \<in> set (intake S) \<and> id_of m = i \<and>
     db_view E (queue_of (disp S)) i = Some m' \<and> content m' = content m \<and>
     (\<exists>e \<in> set (ip_whitelist (cfg_security c)). entry_covers X e ip) \<and>
     (anon_enabled (anonymous (cfg_auth c)) \<or> (\<exists>cmd \<in> set cs. granted ev (cfg_auth c) cmd)) \<and>
     (\<exists>f. MailFrom f \<in> set cs \<and> from_addr m' = address_new (strip_brackets f))"
proof -
  have "db_view E (queue_of (disp S)) i \<noteq> None"
    using assms(5) rq.reachable_channel [OF sys_reachable_disp [OF assms(1)] assms(2-4)]
    by (auto simp: channel_ok_def split: option.splits)
  moreover note inv = ws.sys_reachable_intake [OF assms(1-4)]
  ultimately obtain m ip cs where m: "(m, ip, cs) \<in> set (intake S)" "id_of m = i"
    using assms(6) unfolding intake_inv_def by blast
  with inv obtain m' where m': "db_view E (queue_of (disp S)) i = Some m'" "content m' = content m" "named_sender cs (from_addr m)"
    unfolding intake_inv_def by blast
  have "vetted ev X (context_of X c) ip cs"
    using sys_reachable_conns [OF assms(1)] m(1) unfolding conns_inv_def by blast
  then have "(\<exists>e \<in> set (ip_whitelist (cfg_security c)). entry_covers X e ip) \<and>
     (anon_enabled (anonymous (cfg_auth c)) \<or> (\<exists>cmd \<in> set cs. granted ev (cfg_auth c) cmd))"
    by (simp add: vetted_def context_of_def is_allowed_covers list_ex_iff)
  with m m' content_from [OF m'(2)] show ?thesis unfolding named_sender_def by metis
qed

text \<open>C5: An acknowledgement is a promise that is kept. For every message answered, the answer is \<open>OK\<close> exactly
  if mails were stored for it; and in every later state, through all interleavings, faults, kills
  and restarts, each of these mails is stored with its message, is \<open>Sent\<close> only if a transport
  accepted it, and is \<open>Dead\<close> only if there was no transport for it or \<open>max_attempts\<close> exchanges failed.\<close>

theorem acknowledged_mail_is_kept:
  assumes "sys_reachable ev X ctx dbg (sqlite_ops E) C I q0 S" and "db_inv E q0" and "params_ok C I"
    and "budget (max_attempts (retry (disp_config I))) (db_view E q0)"
    and "(n, r, ms) \<in> set (answers S)"
  shows "(r = OK \<longleftrightarrow> ms \<noteq> []) \<and>
     (\<forall>m \<in> set ms. \<exists>m'. db_view E (queue_of (disp S)) (id_of m) = Some m' \<and> content m' = content m \<and>
        (status m' = Sent \<longrightarrow> (\<exists>t. (id_of m, Some (t, Some (Inr ()))) \<in> set (sends (disp S)))) \<and>
        (status m' = Dead \<longrightarrow> (id_of m, None) \<in> set (sends (disp S)) \<or>
           unat (max_attempts (retry (disp_config I))) \<le> failures (id_of m) (sends (disp S))))"
proof -
  note r = sys_reachable_disp [OF assms(1)]
  note a = answersD [OF sys_reachable_conns [OF assms(1)] assms(5)]
  have "\<exists>m'. db_view E (queue_of (disp S)) (id_of m) = Some m' \<and> content m' = content m \<and>
        (status m' = Sent \<longrightarrow> (\<exists>t. (id_of m, Some (t, Some (Inr ()))) \<in> set (sends (disp S)))) \<and>
        (status m' = Dead \<longrightarrow> (id_of m, None) \<in> set (sends (disp S)) \<or>
           unat (max_attempts (retry (disp_config I))) \<le> failures (id_of m) (sends (disp S)))"
    if "m \<in> set ms" for m
  proof -
    from intake_invD [OF ws.sys_reachable_intake [OF assms(1-4)] a(2) [OF that]] obtain m' where
      new: "db_view E q0 (id_of m) = None"
      and m': "db_view E (queue_of (disp S)) (id_of m) = Some m'" "content m' = content m" by blast
    from dq.reachable_sent [OF r assms(2-4) _ m'(1)] new
    have "\<exists>t. (id_of m, Some (t, Some (Inr ()))) \<in> set (sends (disp S))" if "status m' = Sent"
      using that by (auto simp: successes_def success_def filter_empty_conv)
    with dq.reachable_burial [OF r assms(2-4) _ m'(1)] new m' show ?thesis by auto
  qed
  with a(1) show ?thesis by blast
qed

section \<open>A sample system\<close>

definition sample_events :: "(string, bool) event list" where
  "sample_events =
     [Relay (Recover (calm 1)), Connect 0 ''10.0.0.1'', Callback 0 (MailFrom ''<a@b>''), Callback 0 (Rcpt ''<c@d>''),
      Callback 0 DataStart, Callback 0 (Data ''hi''), EndOfData 0, Target 0 (sample_tenv 0), Reply 0]"

abbreviation sample_sys :: "(string, row list) system \<Rightarrow> bool" where
  "sample_sys \<equiv> sys_reachable (\<lambda>_. None) sample_ext (context_of sample_ext sample_config) True sample_ops sample_chrono
     sample_inner []"

lemma sample_enqueue:
  "\<exists>q'. q_enqueue sample_ops (calm 5) (from_new new 5 0) [] = (q', Inr (from_new new 5 0)) \<and>
     db_view sample_codec q' = [0 \<mapsto> from_new new 5 0]"
proof -
  have e: "db_view sample_codec [] = Map.empty" by (simp add: fun_eq_iff db_view_def)
  have m: "mail_ts_ok (from_new new 5 0)" by (simp add: mail_ts_ok_def ts_ok_def)
  from sq.enqueue_new [OF db_inv_empty m, of "calm 5"] e show ?thesis by auto
qed

lemma sample_system:
  "\<exists>S m. sample_sys S \<and> answers S = [(0, OK, [m])] \<and> phase_of (disp S) = Polling \<and>
     db_view sample_codec (queue_of (disp S)) = [0 \<mapsto> m] \<and> status m = Pending \<and> next_attempt_at m = 5 \<and> transport m = None"
proof -
  let ?new = "\<lparr>nm_from = address_new ''a@b'', nm_to = [address_new ''c@d''], nm_subject = ''hi'',
      nm_body = ''text'', nm_transport = None\<rparr>"
  let ?ctx = "context_of sample_ext sample_config" and ?t = "\<lparr>rt_transport = [], rt_recipients = None\<rparr> :: route_target"
  have al: "is_allowed sample_ext (whitelist ?ctx) ''10.0.0.1''" "anonymous_enabled ?ctx"
    by (simp_all add: is_allowed_def context_of_def sample_config_def sample_ext_def default_config_def)
  have eod: "end_of_data sample_ext ?ctx ready = Inr (?new, [?t])"
    using sample_build sample_route [of ?new] by (simp add: end_of_data_def route_of_def sample_brackets)
  have pay: "target_payload ?new ?t = ?new" by (simp add: target_payload_def)
  have val: "validate_mail ?new = Inr ()" by (simp add: sample_trim)
  obtain q' where q': "q_enqueue sample_ops (calm 5) (from_new ?new 5 0) [] = (q', Inr (from_new ?new 5 0))"
    "db_view sample_codec q' = [0 \<mapsto> from_new ?new 5 0]" using sample_enqueue by blast
  have sv: "serve_target sample_ops (sample_tenv 0) ?new ?t [] = (q', [from_new ?new 5 0])"
    using q'(1) val by (simp add: serve_target_def pay del: validate_mail_ok_iff)
  have rec: "recover sample_ops (calm 1) [] = []"
    by (simp add: recover_def sqlite_ops_def requeue_sending_def update_where_def)
  obtain S where S: "sys_steps (\<lambda>_. None) sample_ext ?ctx True sample_ops sample_chrono sample_inner sample_events (sys_start []) = Some S"
    "answers S = [(0, OK, [from_new ?new 5 0])]" "phase_of (disp S) = Polling" "queue_of (disp S) = q'"
    using al eod sv rec
    by (simp add: sample_events_def sys_start_def start_def conn_new_def call_back_def mail_from_def rcpt_def data_start_def
        data_def handler_new_def ready_def data_answer_def)
  have "sample_sys S"
    by (rule sys_steps_reachable [OF sys_reachable.sys_init S(1)]) (simp add: sample_events_def)
  with S q'(2) show ?thesis by (intro exI [of _ S] exI [of _ "from_new ?new 5 0"]) simp
qed

theorem only_permitted_mail_is_relayed_witness:
  "\<exists>S m ip cs. sample_sys S \<and> (m, ip, cs) \<in> set (intake S) \<and> id_of m = 0 \<and>
     (\<exists>e \<in> set (ip_whitelist (cfg_security sample_config)). entry_covers sample_ext e ip)"
proof -
  obtain S m where S: "sample_sys S" "db_view sample_codec (queue_of (disp S)) = [0 \<mapsto> m]"
    using sample_system by blast
  have b: "budget (max_attempts (retry (disp_config sample_inner))) (db_view sample_codec [])" "db_view sample_codec [] 0 = None"
    by (simp_all add: budget_def db_view_def)
  from only_permitted_mail_is_relayed [OF S(1) db_inv_empty sample_params b(1) _ b(2)] S show ?thesis by auto
qed

theorem acknowledged_mail_is_kept_witness:
  "\<exists>S m m'. sample_sys S \<and> (0, OK, [m]) \<in> set (answers S) \<and>
     db_view sample_codec (queue_of (disp S)) (id_of m) = Some m' \<and> content m' = content m"
proof -
  obtain S m where S: "sample_sys S" "answers S = [(0, OK, [m])]" using sample_system by blast
  have b: "budget (max_attempts (retry (disp_config sample_inner))) (db_view sample_codec [])"
    by (simp add: budget_def db_view_def)
  from acknowledged_mail_is_kept [OF S(1) db_inv_empty sample_params b, of 0 OK "[m]"] S show ?thesis by auto
qed

text \<open>C6: What was acknowledged is delivered. Take any state of the system in which the dispatcher polls,
  after any history of connections, faults, kills and restarts. If from then on the queue works and
  the transports accept the unfinished mails, the dispatcher has a run back to polling after which every mail behind an
  acknowledgement that is pending, or failed before and due again, is \<open>Sent\<close> with its message, however
  many other mails wait before it and however small the batch.\<close>

theorem acknowledged_mail_is_delivered:
  assumes "sys_reachable ev X ctx dbg (sqlite_ops E) C I q0 S" and "db_inv E q0" and "params_ok C I"
    and "budget (max_attempts (retry (disp_config I))) (db_view E q0)" and "phase_of (disp S) = Polling"
    and "0 < concurrency (disp_config I)" and "concurrency (disp_config I) \<le> max_permits"
    and "0 < batch_size (disp_config I)"
    and "action_ok I (Reclaim now io)" and "io_fault io = None"
    and "denv_ok I env" and "io_fault (d_io env) = None"
    and "\<And>i m m'. db_view E (queue_of (disp S)) i = Some m \<Longrightarrow> status m \<notin> {Sent, Dead} \<Longrightarrow> content m' = content m \<Longrightarrow>
           success (exchange_of I env m')"
  shows "\<exists>as S'. sys_steps ev X ctx dbg (sqlite_ops E) C I (map Relay as) S = Some S' \<and> phase_of (disp S') = Polling \<and>
     (\<forall>n r ms m m'. (n, r, ms) \<in> set (answers S) \<and> m \<in> set ms \<and>
        db_view E (queue_of (disp S)) (id_of m) = Some m' \<and> status m' \<in> {Pending, Failed} \<and> next_attempt_at m' \<le> now \<longrightarrow>
        (\<exists>m''. db_view E (queue_of (disp S')) (id_of m) = Some m'' \<and> status m'' = Sent \<and> content m'' = content m))"
proof -
  from dq.reachable_inv [OF sys_reachable_disp [OF assms(1)] assms(2-4)]
  have inv: "db_inv E (queue_of (disp S))" "sys_inv I (db_view E (queue_of (disp S))) (disp S)" by simp_all
  have acc: "\<forall>i m m'. db_view E (queue_of (disp S)) i = Some m \<and> \<not> terminal m \<and> content m' = content m \<longrightarrow>
      success (exchange_of I env m')" using assms(13) by (auto simp: terminal_def)
  from dq.polls_deliver [OF inv assms(3,5-12) acc] obtain as s' where
    as: "set as \<subseteq> {Reclaim now io, Fetch io, Claim io, Spawn, Finish 0 env, Join}"
    and run: "steps dbg (sqlite_ops E) C I as (disp S) = Some s'" "phase_of s' = Polling"
    and sent: "\<forall>i m. db_view E (queue_of (disp S)) i = Some m \<and> due now m \<longrightarrow>
        (\<exists>m'. db_view E (queue_of s') i = Some m' \<and> status m' = Sent \<and> content m' = content m)" by blast
  have "\<forall>a \<in> set as. own_action a \<and> survives a" using as by auto
  note run' = sys_steps_Relay [OF run(1) this, of ev X ctx]
  have "\<exists>m''. db_view E (queue_of s') (id_of m) = Some m'' \<and> status m'' = Sent \<and> content m'' = content m"
    if a: "(n, r, ms) \<in> set (answers S)" "m \<in> set ms" and m': "db_view E (queue_of (disp S)) (id_of m) = Some m'"
      "status m' \<in> {Pending, Failed}" "next_attempt_at m' \<le> now" for n r ms m m'
  proof -
    from intake_invD(2) [OF ws.sys_reachable_intake [OF assms(1-4)]
        answersD(2) [OF sys_reachable_conns [OF assms(1)] a]] m'(1)
    have "content m' = content m" by auto
    moreover have "due now m'" using m'(2,3) by (auto simp: due_def live_def)
    ultimately show ?thesis using sent m'(1) by metis
  qed
  with run' run(2) show ?thesis by (intro exI [of _ as] exI [of _ "S\<lparr>disp := s'\<rparr>"]) auto
qed

theorem acknowledged_mail_is_delivered_witness:
  "\<exists>S as S' m m''. sample_sys S \<and> (0, OK, [m]) \<in> set (answers S) \<and>
     sys_steps (\<lambda>_. None) sample_ext (context_of sample_ext sample_config) True sample_ops sample_chrono sample_inner
       (map Relay as) S = Some S' \<and>
     db_view sample_codec (queue_of (disp S')) (id_of m) = Some m'' \<and> status m'' = Sent"
proof -
  obtain S m where S: "sample_sys S" "answers S = [(0, OK, [m])]" "phase_of (disp S) = Polling"
    and v: "db_view sample_codec (queue_of (disp S)) = [0 \<mapsto> m]"
    and m: "status m = Pending" "next_attempt_at m = 5" "transport m = None" using sample_system by blast
  have b: "budget (max_attempts (retry (disp_config sample_inner))) (db_view sample_codec [])"
    by (simp add: budget_def db_view_def)
  have acc: "success (exchange_of sample_inner (sample_env True 7) m2)"
    if "db_view sample_codec (queue_of (disp S)) i = Some m1" "status m1 \<notin> {Sent, Dead}" "content m2 = content m1" for i m1 m2
    using that m by (auto simp: v content_def exchange_of_def pick_transport_def sample_inner_def
        dispatcher_new_def hm_get_def sample_transport_def split: if_splits)
  have i: "id_of m = 0"
    using sq.keyed [of sample_codec "queue_of (disp S)" 0 m] v
      dq.reachable_inv [OF sys_reachable_disp [OF S(1)] db_inv_empty sample_params b] by simp
  have c: "concurrency (disp_config sample_inner) \<le> max_permits" by (simp add: max_permits_def)
  have "\<exists>as S'. sys_steps (\<lambda>_. None) sample_ext (context_of sample_ext sample_config) True sample_ops sample_chrono sample_inner
       (map Relay as) S = Some S' \<and> phase_of (disp S') = Polling \<and> (\<forall>n r ms m m'. (n, r, ms) \<in> set (answers S) \<and> m \<in> set ms \<and>
        db_view sample_codec (queue_of (disp S)) (id_of m) = Some m' \<and> status m' \<in> {Pending, Failed} \<and> next_attempt_at m' \<le> 5 \<longrightarrow>
        (\<exists>m''. db_view sample_codec (queue_of (disp S')) (id_of m) = Some m'' \<and> status m'' = Sent \<and> content m'' = content m))"
    by (rule acknowledged_mail_is_delivered [OF S(1) db_inv_empty sample_params b S(3) _ c _ sample_reclaim_ok _ sample_denv])
      (erule (2) acc | simp)+
  then obtain as S' m'' where "sys_steps (\<lambda>_. None) sample_ext (context_of sample_ext sample_config) True sample_ops sample_chrono
       sample_inner (map Relay as) S = Some S'" "db_view sample_codec (queue_of (disp S')) (id_of m) = Some m''" "status m'' = Sent"
    using S(2) v m i by fastforce
  moreover have "(0, OK, [m]) \<in> set (answers S)" by (simp add: S(2))
  ultimately show ?thesis using S(1) by blast
qed

section \<open>Delivery by the graph plugin\<close>

lemma content_message:
  assumes "content m = content m'"
  shows "graph_message m = graph_message m'" and "transport m = transport m'"
  using assms by (simp_all add: content_def graph_message_def)

lemma sys_step_sent:
  assumes "sys_reachable ev X ctx dbg (sqlite_ops E) C I q0 S" and "db_inv E q0" and "params_ok C I"
    and "budget (max_attempts (retry (disp_config I))) (db_view E q0)"
    and "event_ok I e" and "sys_step ev X ctx dbg (sqlite_ops E) C I e S = Some S'"
    and "db_view E (queue_of (disp S')) i = Some m" and "status m = Sent"
    and "\<And>m0. db_view E (queue_of (disp S)) i = Some m0 \<Longrightarrow> status m0 \<noteq> Sent"
  obtains k env where "e = Relay (Finish k env)" and "k < length (flight (disp S))" and "i = id_of (flight (disp S) ! k)"
    and "content m = content (flight (disp S) ! k)" and "success (exchange_of I env (flight (disp S) ! k))"
proof -
  from dq.reachable_inv [OF sys_reachable_disp [OF assms(1)] assms(2-4)]
  have q: "db_inv E (queue_of (disp S))" and inv: "sys_inv I (db_view E (queue_of (disp S))) (disp S)" by simp_all
  from inv have d: "disp_inv (concurrency (disp_config I)) (db_view E (queue_of (disp S))) (phase_of (disp S)) (flight (disp S))"
    "budget (max_attempts (retry (disp_config I))) (db_view E (queue_of (disp S)))" by (simp_all add: sys_inv_def)
  from sys_step_disp [OF assms(6,5)] assms(7-9) obtain a where a: "action_ok I a"
    "step dbg (sqlite_ops E) C I a (disp S) = Some (disp S')" "e = Relay a \<or> \<not> own_action a" by auto
  from dq.step_store [OF q assms(3) a(1,2)] assms(7)
  have m: "store_after dbg C I a (disp S) (db_view E (queue_of (disp S))) i = Some m" by simp
  from store_after_sent [OF d(1) a(2) m assms(8) a(1) assms(3) d(2)] assms(9) obtain k env where
    k: "a = Finish k env" "k < length (flight (disp S))" "i = id_of (flight (disp S) ! k)"
    "success (exchange_of I env (flight (disp S) ! k))" by blast
  from flight_nth [OF d(1) k(2)] obtain m0 where m0: "db_view E (queue_of (disp S)) i = Some m0"
    "claimed_as (flight (disp S) ! k) m0" unfolding k(3) .
  from dq.step_inv(3) [OF q assms(3) a(1) inv a(2)] m0(1) assms(7) have "content m = content m0"
    unfolding evolves_def by fastforce
  with k m0(2) a(3) show thesis by (intro that [of k env]) (auto simp: claimed_as_def)
qed

text \<open>C32: With the shipped graph plugin, \<open>Sent\<close> means that Microsoft Graph took the mail. Whenever a step of
  the system makes a mail \<open>Sent\<close> whose transport is a plugin running the graph script, that step is
  the end of its delivery, and during it the token endpoint answered 200 and the \<open>sendMail\<close> endpoint
  answered 202 to a request that carries the stored mail's own subject, body and recipients.\<close>

theorem graph_sent_means_accepted:
  assumes "sys_reachable ev X ctx dbg (sqlite_ops E) C I q0 S" and "db_inv E q0" and "params_ok C I"
    and "budget (max_attempts (retry (disp_config I))) (db_view E q0)"
    and "event_ok I e" and "sys_step ev X ctx dbg (sqlite_ops E) C I e S = Some S'"
    and "db_view E (queue_of (disp S')) i = Some m" and "status m = Sent"
    and "\<And>m0. db_view E (queue_of (disp S)) i = Some m0 \<Longrightarrow> status m0 \<noteq> Sent"
    and "(case transport m of Some t \<Rightarrow> Some t | None \<Rightarrow> disp_default I) = Some n"
    and "hm_get (transports I) n = Some (rhai_ops (run_script J show_error http) t)"
    and "bt_wf st" and "rh_ast t = Graph_Script" and "rh_config t = string_config_map st"
  shows "\<exists>k env net1 r1 tok js net2 r2. e = Relay (Finish k env) \<and>
     http (d_net env) (token_request st) = (net1, Inr r1) \<and> resp_status r1 = 200 \<and>
     json_print J (graph_message m) = Inr js \<and>
     http net1 (send_mail_request (setting st ''sender'') tok js) = (net2, Inr r2) \<and> resp_status r2 = 202"
proof -
  obtain k env where k: "e = Relay (Finish k env)" "i = id_of (flight (disp S) ! k)"
    "content m = content (flight (disp S) ! k)" "success (exchange_of I env (flight (disp S) ! k))"
    by (rule sys_step_sent [OF assms(1-9)])
  let ?f = "flight (disp S) ! k"
  note c = content_message [OF k(3)]
  have "pick_transport I ?f = Some (n, rhai_ops (run_script J show_error http) t)"
    using assms(10,11) by (simp add: pick_transport_def c(2) split: option.splits)
  with k(4) have "rhai_send (run_script J show_error http) t (d_net env) ?f = Some (Inr ())"
    by (auto simp: exchange_of_def success_def rhai_ops_def)
  from this [unfolded graph_send_ok_iff [OF assms(12-14)]] show ?thesis unfolding c(1) using k(1) by blast
qed

text \<open>A run that makes something true has a step that does.\<close>

lemma steps_becomes:
  assumes "steps dbg Q C I as s = Some s'" and "\<not> P s" and "P s'"
  shows "\<exists>as1 a as2 s1 s2. as = as1 @ a # as2 \<and> steps dbg Q C I as1 s = Some s1 \<and> \<not> P s1 \<and> step dbg Q C I a s1 = Some s2 \<and> P s2"
  using assms(1,2)
proof (induction as arbitrary: s)
  case Nil
  with assms(3) show ?case by simp
next
  case (Cons a as)
  then obtain s1 where s1: "step dbg Q C I a s = Some s1" "steps dbg Q C I as s1 = Some s'" by (auto split: option.splits)
  show ?case
  proof (cases "P s1")
    case True
    with s1 Cons.prems(2) show ?thesis by (intro exI [of _ "[]"]) auto
  next
    case False
    from Cons.IH [OF s1(2) False] obtain as1 b as2 s2 s3 where "as = as1 @ b # as2" "steps dbg Q C I as1 s1 = Some s2"
      "\<not> P s2" "step dbg Q C I b s2 = Some s3" "P s3" by blast
    with s1(1) show ?thesis by (intro exI [of _ "a # as1"] exI [of _ b] exI [of _ as2] exI [of _ s2] exI [of _ s3]) simp
  qed
qed

definition graph_http :: "unit http_client" where
  "graph_http w r = ((), mock_answer sample_rules (req_url r))"

definition graph_inner :: "unit inner" where
  "graph_inner = dispatcher_new [(''graph'', rhai_ops (run_script sample_engine (\<lambda>_. []) graph_http) sample_graph)]
     (Some ''graph'') default_dispatcher_config"

lemma graph_inner_simps [simp]:
  "disp_config graph_inner = default_dispatcher_config" "disp_default graph_inner = Some ''graph''"
  "hm_get (transports graph_inner) ''graph'' = Some (rhai_ops (run_script sample_engine (\<lambda>_. []) graph_http) sample_graph)"
  by (simp_all add: graph_inner_def dispatcher_new_def hm_get_def)

lemma sample_graph_simps:
  "rh_ast sample_graph = Graph_Script" "rh_config sample_graph = string_config_map (sample_settings ''s'')"
  by (simp_all add: sample_graph_def)

lemma graph_accepts:
  assumes "transport m = None"
  shows "success (exchange_of graph_inner env m)"
proof -
  have s: "setting (sample_settings ''s'') ''sender'' = ''relay''"
    "bt_get (sample_settings ''s'') ''client_id'' = Some ''client''" "bt_get (sample_settings ''s'') ''client_secret'' = Some ''s''"
    by (simp_all add: setting_def sample_settings_def bt_get_def)
  have "rhai_send (run_script sample_engine (\<lambda>_. []) graph_http) sample_graph net m = Some (Inr ())" for net
    unfolding graph_send_ok_iff [OF sample_settings_wf sample_graph_simps]
    by (simp add: s graph_http_def sample_token_answer sample_mail_answer sample_engine_def parse_json_def)
  with assms show ?thesis by (simp add: exchange_of_def pick_transport_def rhai_ops_def)
qed

abbreviation graph_sys :: "(string, row list) system \<Rightarrow> bool" where
  "graph_sys \<equiv> sys_reachable (\<lambda>_. None) sample_ext (context_of sample_ext sample_config) True sample_ops sample_chrono
     graph_inner one_mail"

lemma graph_params:
  "params_ok sample_chrono graph_inner"
  "budget (max_attempts (retry (disp_config graph_inner))) (db_view sample_codec one_mail)"
  "action_ok graph_inner (Reclaim 5 (calm 1))" "denv_ok graph_inner \<lparr>d_net = (), d_now = 7, d_io = calm 7\<rparr>"
  using sample_params sample_budget sample_reclaim_ok sample_denv [of True]
  by (simp_all add: sample_inner_def dispatcher_new_def params_ok_def denv_ok_def sample_env_def)

lemma graph_delivery_step:
  "\<exists>S a S' m. graph_sys S \<and> action_ok graph_inner a \<and>
     sys_step (\<lambda>_. None) sample_ext (context_of sample_ext sample_config) True sample_ops sample_chrono graph_inner (Relay a) S = Some S' \<and>
     db_view sample_codec (queue_of (disp S')) 3 = Some m \<and> status m = Sent \<and> transport m = None \<and>
     (\<forall>m0. db_view sample_codec (queue_of (disp S)) 3 = Some m0 \<longrightarrow> status m0 \<noteq> Sent)"
proof -
  let ?sys = "sys_steps (\<lambda>_. None) sample_ext (context_of sample_ext sample_config) True sample_ops sample_chrono graph_inner"
  let ?env = "\<lparr>d_net = (), d_now = 7, d_io = calm 7\<rparr> :: unit denv"
  let ?sent = "\<lambda>s :: row list dstate. \<exists>m. db_view sample_codec (queue_of s) 3 = Some m \<and> status m = Sent"
  let ?A = "{Reclaim 5 (calm 1), Fetch (calm 1), Claim (calm 1), Spawn, Finish 0 ?env, Join}"
  obtain s0 where s0: "step True sample_ops sample_chrono graph_inner (Recover (calm 1)) (start one_mail) = Some s0"
    "phase_of s0 = Polling" by (simp add: start_def default_dispatcher_config_def)
  let ?S0 = "(sys_start one_mail)\<lparr>disp := s0\<rparr> :: (string, row list) system"
  have run0: "?sys (map Relay [Recover (calm 1)]) (sys_start one_mail) = Some ?S0"
    by (rule sys_steps_Relay) (use s0(1) in \<open>simp_all add: sys_start_def del: step.simps\<close>)
  have r0: "graph_sys ?S0" by (rule sys_steps_reachable [OF sys_reachable.sys_init run0]) simp
  from dq.reachable_inv [OF sys_reachable_disp [OF r0] one_mail_inv graph_params(1,2)]
  have inv: "db_inv sample_codec (queue_of s0)" "sys_inv graph_inner (db_view sample_codec (queue_of s0)) s0" by simp_all
  from dq.step_store [OF _ graph_params(1) _ s0(1)] one_mail_inv sample_requeue
  have v: "db_view sample_codec (queue_of s0) = [3 \<mapsto> from_new hello 1 3]" by (simp add: start_def one_mail_view)
  have acc: "\<forall>i m m'. db_view sample_codec (queue_of s0) i = Some m \<and> \<not> terminal m \<and> content m' = content m \<longrightarrow>
      success (exchange_of graph_inner ?env m')"
    by (auto simp: v content_def hello_def intro!: graph_accepts split: if_splits)
  from dq.polls_deliver [OF inv graph_params(1) s0(2) _ _ _ graph_params(3) _ graph_params(4) _ acc, of True] obtain as s' where
    as: "set as \<subseteq> ?A" and run: "steps True sample_ops sample_chrono graph_inner as s0 = Some s'"
    and all: "\<forall>i m. db_view sample_codec (queue_of s0) i = Some m \<and> due 5 m \<longrightarrow>
        (\<exists>m'. db_view sample_codec (queue_of s') i = Some m' \<and> status m' = Sent \<and> content m' = content m)"
    by (auto simp: default_dispatcher_config_def max_permits_def)
  have "due 5 (from_new hello 1 3)" by (simp add: due_def live_def)
  with all v have "?sent s'" by fastforce
  moreover have "\<not> ?sent s0" by (simp add: v)
  ultimately obtain as1 a as2 s1 s2 where a: "as = as1 @ a # as2"
    "steps True sample_ops sample_chrono graph_inner as1 s0 = Some s1" "\<not> ?sent s1"
    "step True sample_ops sample_chrono graph_inner a s1 = Some s2" "?sent s2"
    using steps_becomes [OF run, of ?sent] by blast
  have ok: "\<forall>b \<in> ?A. action_ok graph_inner b \<and> own_action b \<and> survives b" using graph_params(3,4) by simp
  with as a(1) have as1: "\<forall>b \<in> set as1. own_action b \<and> survives b" "\<forall>b \<in> set as1. action_ok graph_inner b"
    and ab: "action_ok graph_inner a" "own_action a" "survives a" by auto
  have run1: "?sys (map Relay as1) ?S0 = Some (?S0\<lparr>disp := s1\<rparr>)"
    by (rule sys_steps_Relay [OF _ as1(1)]) (simp add: a(2))
  have r1: "graph_sys (?S0\<lparr>disp := s1\<rparr>)" by (rule sys_steps_reachable [OF r0 run1]) (use as1(2) in simp)
  have st: "sys_step (\<lambda>_. None) sample_ext (context_of sample_ext sample_config) True sample_ops sample_chrono graph_inner (Relay a)
      (?S0\<lparr>disp := s1\<rparr>) = Some (?S0\<lparr>disp := s2\<rparr>)" using a(4) ab(2,3) by (simp del: step.simps)
  have r2: "graph_sys (?S0\<lparr>disp := s2\<rparr>)" by (rule sys_reachable.sys_next [OF r1 _ st]) (simp add: ab(1))
  from a(5) obtain m where m: "db_view sample_codec (queue_of s2) 3 = Some m" "status m = Sent" by blast
  from dq.reachable_inv [OF sys_reachable_disp [OF r2] one_mail_inv graph_params(1,2)]
  have "evolves [3 \<mapsto> from_new hello 1 3] (db_view sample_codec (queue_of s2))" by (simp add: one_mail_view)
  from this [unfolded evolves_def, rule_format, of 3] m(1) have "content m = content (from_new hello 1 3)" by auto
  then have "transport m = None" by (simp add: content_def hello_def)
  with r1 ab(1) st m a(3) show ?thesis
    by (intro exI [of _ "?S0\<lparr>disp := s1\<rparr>"] exI [of _ a] exI [of _ "?S0\<lparr>disp := s2\<rparr>"] exI [of _ m]) (simp del: sys_step.simps)
qed

theorem graph_sent_means_accepted_witness:
  "\<exists>S k env S' m js net1 net2 r2. graph_sys S \<and>
     sys_step (\<lambda>_. None) sample_ext (context_of sample_ext sample_config) True sample_ops sample_chrono graph_inner
       (Relay (Finish k env)) S = Some S' \<and> db_view sample_codec (queue_of (disp S')) 3 = Some m \<and>
     json_print sample_engine (graph_message m) = Inr js \<and>
     graph_http net1 (send_mail_request ''relay'' ''abc123'' js) = (net2, Inr r2) \<and> resp_status r2 = 202"
proof -
  obtain S a S' m where S: "graph_sys S" "action_ok graph_inner a"
     "sys_step (\<lambda>_. None) sample_ext (context_of sample_ext sample_config) True sample_ops sample_chrono graph_inner (Relay a) S = Some S'"
     "db_view sample_codec (queue_of (disp S')) 3 = Some m" "status m = Sent" "transport m = None"
    and new: "\<forall>m0. db_view sample_codec (queue_of (disp S)) 3 = Some m0 \<longrightarrow> status m0 \<noteq> Sent"
    using graph_delivery_step by blast
  have t: "(case transport m of Some t \<Rightarrow> Some t | None \<Rightarrow> disp_default graph_inner) = Some ''graph''" using S(6) by simp
  have e: "event_ok graph_inner (Relay a :: (string, unit) event)" using S(2) by simp
  from graph_sent_means_accepted [OF S(1) one_mail_inv graph_params(1,2) e S(3-5) _ t graph_inner_simps(3) sample_settings_wf sample_graph_simps] new
  obtain k env js where "a = Finish k env" "json_print sample_engine (graph_message m) = Inr js" by blast
  with S show ?thesis
    by (intro exI [of _ S] exI [of _ k] exI [of _ env] exI [of _ S'] exI [of _ m] exI [of _ js])
      (simp add: graph_http_def sample_mail_answer del: sys_step.simps)
qed

end
