(* ===== verification/Core_Tests.thy ===== *)
theory Core_Tests
  imports Core_Config Retry_Policy
begin

text \<open>
  The unit tests of \<open>core/src/config.rs\<close>, \<open>core/src/message.rs\<close> and \<open>dispatcher/src/retry.rs\<close>, replayed on
  the model: each test is a predicate, and a lemma evaluates it. A test that starts from TOML text
  starts here from the configuration that the text denotes, which the parser (a parameter) gives.
\<close>

section \<open>Helpers of the tests\<close>

definition parsed :: "config \<Rightarrow> config_error + config" where
  "parsed c = from_toml_str (\<lambda>_. Inr c) []"

definition is_invalid :: "config_error + 'a \<Rightarrow> bool" where
  "is_invalid r = (case r of Inl (Invalid _) \<Rightarrow> True | _ \<Rightarrow> False)"

definition is_missing_env :: "config_error + 'a \<Rightarrow> bool" where
  "is_missing_env r = (case r of Inl (MissingEnv _) \<Rightarrow> True | _ \<Rightarrow> False)"

definition is_invalid_mail :: "core_error + 'a \<Rightarrow> bool" where
  "is_invalid_mail r = (case r of Inl (InvalidMail _) \<Rightarrow> True | _ \<Rightarrow> False)"

text \<open>The assertions of a test about the value of \<open>expect\<close>.\<close>

definition expecting :: "'e + 'a \<Rightarrow> ('a \<Rightarrow> bool) \<Rightarrow> bool" where
  "expecting r P = (case r of Inl _ \<Rightarrow> False | Inr x \<Rightarrow> P x)"

lemmas test_helpers = parsed_def is_invalid_def is_missing_env_def is_invalid_mail_def expecting_def

section \<open>core/src/config.rs\<close>

definition empty_config_uses_defaults :: bool where
  "empty_config_uses_defaults = expecting (parsed default_config) (\<lambda>c.
     database (cfg_queue c) = ''queue.db'' \<and> level (cfg_logging c) = ''info'' \<and>
     sc_format (cfg_subject c) = ''[Abs: %name%] %original%'' \<and> smtp (cfg_mail c) = None \<and>
     ip_whitelist (cfg_security c) = [])"

definition full_config :: config where
  "full_config = default_config
     \<lparr>cfg_mail := \<lparr>smtp = Some \<lparr>host = ''smtp.office365.com'', port = 587, username = ''relay@example.com'',
        password_env = ''MAIL_PASSWORD''\<rparr>, default_transport = None\<rparr>,
      cfg_queue := \<lparr>database = ''queue.db''\<rparr>, cfg_logging := \<lparr>level = ''debug''\<rparr>,
      cfg_subject := \<lparr>sc_format = ''[Abs: %name%] %original%'',
        sc_senders = [(''Server01.company.local'', \<lparr>ss_format = ''[%name%] %original%''\<rparr>)]\<rparr>,
      cfg_security := \<lparr>ip_whitelist = [''10.0.0.0/8'', ''192.168.0.0/16'']\<rparr>,
      cfg_auth := \<lparr>anonymous = \<lparr>anon_enabled = True, subject_match = Some (''^(?P<name>Server ?'' @ [CHR 0x5C] @ ''d+):'')\<rparr>,
        services = [(''backup-host'', \<lparr>sa_username = ''backup'', sa_password_env = ''BACKUP_PASSWORD''\<rparr>)],
        self_register = \<lparr>sr_enabled = False\<rparr>\<rparr>\<rparr>"

definition parses_full_config :: bool where
  "parses_full_config = expecting (parsed full_config) (\<lambda>c.
     (case smtp (cfg_mail c) of None \<Rightarrow> False | Some s \<Rightarrow> host s = ''smtp.office365.com'' \<and> port s = 587) \<and>
     level (cfg_logging c) = ''debug'' \<and> length (ip_whitelist (cfg_security c)) = 2 \<and>
     anon_enabled (anonymous (cfg_auth c)) \<and> bt_get (services (cfg_auth c)) ''backup-host'' \<noteq> None)"

definition format_for_uses_override_then_falls_back :: bool where
  "format_for_uses_override_then_falls_back =
     expecting (parsed (default_config\<lparr>cfg_subject := \<lparr>sc_format = ''[Abs: %name%] %original%'',
       sc_senders = [(''special'', \<lparr>ss_format = ''<%name%> %original%''\<rparr>)]\<rparr>\<rparr>)) (\<lambda>c.
     format_for (cfg_subject c) ''special'' = ''<%name%> %original%'' \<and>
     format_for (cfg_subject c) ''unknown'' = ''[Abs: %name%] %original%'')"

definition rejects_unknown_log_level :: bool where
  "rejects_unknown_log_level = is_invalid (parsed (default_config\<lparr>cfg_logging := \<lparr>level = ''verbose''\<rparr>\<rparr>))"

definition rejects_subject_format_without_original :: bool where
  "rejects_subject_format_without_original =
     is_invalid (parsed (default_config\<lparr>cfg_subject := \<lparr>sc_format = ''[Abs: %name%]'', sc_senders = []\<rparr>\<rparr>))"

definition rejects_zero_smtp_port :: bool where
  "rejects_zero_smtp_port =
     is_invalid (parsed (default_config\<lparr>cfg_mail := \<lparr>smtp = Some \<lparr>host = ''smtp.example.com'', port = 0,
       username = ''u'', password_env = ''P''\<rparr>, default_transport = None\<rparr>\<rparr>))"

definition plugin_settings_passthrough_and_env_resolution :: bool where
  "plugin_settings_passthrough_and_env_resolution =
     expecting (parsed (default_config\<lparr>cfg_plugins := [(''graph'',
       [(''client_secret_env'', ''OXID_TEST_GRAPH_SECRET''), (''tenant_id'', ''tenant-123'')])]\<rparr>)) (\<lambda>c.
     expecting (plugin_settings [''OXID_TEST_GRAPH_SECRET'' \<mapsto> ''s3cr3t''] c ''graph'') (\<lambda>settings.
     bt_get settings ''tenant_id'' = Some ''tenant-123'' \<and> bt_get settings ''client_secret'' = Some ''s3cr3t''))"

definition subject_render_substitutes_placeholders :: bool where
  "subject_render_substitutes_placeholders = expecting (parsed default_config) (\<lambda>c.
     render (cfg_subject c) ''Server01'' ''Status Okay'' = ''[Abs: Server01] Status Okay'')"

definition authenticate_self_register_accepts_any :: bool where
  "authenticate_self_register_accepts_any =
     expecting (parsed (default_config\<lparr>cfg_auth := (cfg_auth default_config)\<lparr>self_register := \<lparr>sr_enabled = True\<rparr>\<rparr>\<rparr>)) (\<lambda>c.
     authenticate Map.empty (cfg_auth c) ''monitoring'' ''whatever'' = Inr (Some ''monitoring''))"

definition authenticate_service_matches_name_and_password :: bool where
  "authenticate_service_matches_name_and_password =
     (let env = [''OXID_TEST_BACKUP_PW'' \<mapsto> ''geheim''] in
      expecting (parsed (default_config\<lparr>cfg_auth := (cfg_auth default_config)\<lparr>services :=
        [(''backup-host'', \<lparr>sa_username = ''backup'', sa_password_env = ''OXID_TEST_BACKUP_PW''\<rparr>)]\<rparr>\<rparr>)) (\<lambda>c.
      authenticate env (cfg_auth c) ''backup'' ''geheim'' = Inr (Some ''backup-host'') \<and>
      authenticate env (cfg_auth c) ''backup'' ''falsch'' = Inr None \<and>
      authenticate env (cfg_auth c) ''fremd'' ''x'' = Inr None))"


definition routing_inactive_when_empty :: bool where
  "routing_inactive_when_empty = expecting (parsed default_config) (\<lambda>c. \<not> is_active (cfg_routing c))"

definition with_senders :: "route_rule btree_map \<Rightarrow> config" where
  "with_senders rules = default_config\<lparr>cfg_routing := \<lparr>rc_default = None, rc_senders = rules\<rparr>\<rparr>"

definition simple_rule :: "string \<Rightarrow> string list \<Rightarrow> route_rule" where
  "simple_rule tr rs = \<lparr>rr_transport = Some tr, rr_recipients = rs, rr_targets = []\<rparr>"

definition routing_sender_rule_overrides_recipients_and_transport :: bool where
  "routing_sender_rule_overrides_recipients_and_transport =
     expecting (parsed (with_senders [(''bla@teams'', simple_rule ''teams'' [''ops-channel@teams'', ''oncall@teams''])])) (\<lambda>c.
     is_active (cfg_routing c) \<and>
     (case resolve (cfg_routing c) ''bla@teams'' of
        Reject \<Rightarrow> False
      | Deliver targets \<Rightarrow>
          length targets = 1 \<and> rt_transport (targets ! 0) = ''teams'' \<and>
          (case rt_recipients (targets ! 0) of
             None \<Rightarrow> False
           | Some rs \<Rightarrow> length rs = 2 \<and> email (rs ! 0) = ''ops-channel@teams'')))"

definition routing_fans_out_to_multiple_targets :: bool where
  "routing_fans_out_to_multiple_targets =
     expecting (parsed (with_senders [(''alarm@x'', \<lparr>rr_transport = None, rr_recipients = [], rr_targets =
       [\<lparr>tc_transport = ''teams'', tc_recipients = [''ops@teams.local'']\<rparr>, \<lparr>tc_transport = ''ntfy'', tc_recipients = []\<rparr>,
        \<lparr>tc_transport = ''reject'', tc_recipients = []\<rparr>]\<rparr>)])) (\<lambda>c.
     (case resolve (cfg_routing c) ''alarm@x'' of
        Reject \<Rightarrow> False
      | Deliver targets \<Rightarrow>
          length targets = 2 \<and> rt_transport (targets ! 0) = ''teams'' \<and>
          map_option (\<lambda>rs. email (rs ! 0)) (rt_recipients (targets ! 0)) = Some ''ops@teams.local'' \<and>
          rt_transport (targets ! 1) = ''ntfy'' \<and> rt_recipients (targets ! 1) = None))"

definition routing_default_applies_and_reject_works :: bool where
  "routing_default_applies_and_reject_works =
     expecting (parsed (default_config\<lparr>cfg_routing := \<lparr>rc_default = Some (simple_rule ''graph'' []),
       rc_senders = [(''blocked@x'', simple_rule ''reject'' [])]\<rparr>\<rparr>)) (\<lambda>c.
     resolve (cfg_routing c) ''anyone@x'' = Deliver [\<lparr>rt_transport = ''graph'', rt_recipients = None\<rparr>] \<and>
     resolve (cfg_routing c) ''blocked@x'' = Reject)"

definition routing_rejects_unknown_sender_without_default :: bool where
  "routing_rejects_unknown_sender_without_default =
     expecting (parsed (with_senders [(''known@x'', simple_rule ''graph'' [])])) (\<lambda>c.
     resolve (cfg_routing c) ''unknown@x'' = Reject)"

definition dispatcher_defaults_and_overrides :: bool where
  "dispatcher_defaults_and_overrides =
     (expecting (parsed default_config) (\<lambda>c.
        set_concurrency (cfg_dispatcher c) = 8 \<and> set_max_attempts (cfg_dispatcher c) = 5) \<and>
      expecting (parsed (default_config\<lparr>cfg_dispatcher := default_dispatcher_settings
          \<lparr>set_concurrency := 16, poll_interval_secs := 2, set_max_attempts := 3\<rparr>\<rparr>)) (\<lambda>c.
        set_concurrency (cfg_dispatcher c) = 16 \<and> poll_interval_secs (cfg_dispatcher c) = 2 \<and>
        set_max_attempts (cfg_dispatcher c) = 3 \<and> set_batch_size (cfg_dispatcher c) = 64))"

definition dispatcher_rejects_zero_concurrency :: bool where
  "dispatcher_rejects_zero_concurrency =
     is_invalid (parsed (default_config\<lparr>cfg_dispatcher := default_dispatcher_settings\<lparr>set_concurrency := 0\<rparr>\<rparr>))"

definition mail_default_transport_parses :: bool where
  "mail_default_transport_parses =
     expecting (parsed (default_config\<lparr>cfg_mail := \<lparr>smtp = None, default_transport = Some ''graph''\<rparr>\<rparr>)) (\<lambda>c.
     default_transport (cfg_mail c) = Some ''graph'')"

definition ingress_smtp_defaults_when_section_present :: bool where
  "ingress_smtp_defaults_when_section_present =
     expecting (parsed (default_config\<lparr>cfg_ingress := \<lparr>ingress_smtp = Some default_smtp_ingress_config\<rparr>\<rparr>)) (\<lambda>c.
     (case ingress_smtp (cfg_ingress c) of
        None \<Rightarrow> False
      | Some s \<Rightarrow> bind_addr s = ''127.0.0.1:2525'' \<and> hostname s = ''oxid-relay''))"

definition plugin_settings_unknown_plugin_is_empty :: bool where
  "plugin_settings_unknown_plugin_is_empty = expecting (parsed default_config) (\<lambda>c.
     expecting (plugin_settings Map.empty c ''nope'') (\<lambda>settings. settings = []))"

definition plugin_settings_missing_env_reports_error :: bool where
  "plugin_settings_missing_env_reports_error =
     expecting (parsed (default_config\<lparr>cfg_plugins :=
       [(''graph'', [(''client_secret_env'', ''OXID_TEST_DEFINITELY_UNSET'')])]\<rparr>)) (\<lambda>c.
     is_missing_env (plugin_settings Map.empty c ''graph''))"

definition password_missing_env_reports_error :: bool where
  "password_missing_env_reports_error =
     is_missing_env (smtp_password Map.empty \<lparr>host = ''h'', port = 587, username = ''u'',
       password_env = ''OXID_RELAY_DEFINITELY_UNSET_VAR''\<rparr>)"

section \<open>core/src/message.rs\<close>

definition sample_new_mail :: "address list \<Rightarrow> string \<Rightarrow> new_mail" where
  "sample_new_mail rs s =
     \<lparr>nm_from = address_new ''relay@example.com'', nm_to = rs, nm_subject = s, nm_body = ''Hallo Welt'',
      nm_transport = None\<rparr>"

definition validate_accepts_complete_mail :: bool where
  "validate_accepts_complete_mail =
     expecting (validate_mail (sample_new_mail [address_new ''ziel@example.com''] ''Test'')) (\<lambda>_. True)"

definition validate_rejects_missing_recipients :: bool where
  "validate_rejects_missing_recipients = is_invalid_mail (validate_mail (sample_new_mail [] ''Test''))"

definition validate_rejects_empty_subject :: bool where
  "validate_rejects_empty_subject =
     is_invalid_mail (validate_mail (sample_new_mail [address_new ''ziel@example.com''] ''  ''))"

section \<open>dispatcher/src/retry.rs\<close>

definition test_policy :: "u32 \<Rightarrow> u64 \<Rightarrow> u64 \<Rightarrow> retry_policy" where
  "test_policy n b m = \<lparr>max_attempts = n, base_delay = from_secs b, max_delay = from_secs m\<rparr>"

definition backoff_grows_exponentially :: bool where
  "backoff_grows_exponentially =
     (let p = test_policy 5 30 3600 in
      backoff p 1 = from_secs 30 \<and> backoff p 2 = from_secs 60 \<and> backoff p 3 = from_secs 120 \<and>
      backoff p 4 = from_secs 240)"

definition backoff_is_capped :: bool where
  "backoff_is_capped = (backoff (test_policy 20 30 300) 10 = from_secs 300)"

definition exhaustion_at_max_attempts :: bool where
  "exhaustion_at_max_attempts =
     (\<not> is_exhausted default_retry_policy 4 \<and> is_exhausted default_retry_policy 5 \<and> is_exhausted default_retry_policy 6)"

section \<open>The model passes\<close>

lemmas config_test_defs =
  empty_config_uses_defaults_def parses_full_config_def full_config_def format_for_uses_override_then_falls_back_def
  rejects_unknown_log_level_def rejects_subject_format_without_original_def rejects_zero_smtp_port_def
  plugin_settings_passthrough_and_env_resolution_def subject_render_substitutes_placeholders_def
  authenticate_self_register_accepts_any_def authenticate_service_matches_name_and_password_def
  dispatcher_defaults_and_overrides_def dispatcher_rejects_zero_concurrency_def mail_default_transport_parses_def
  ingress_smtp_defaults_when_section_present_def plugin_settings_unknown_plugin_is_empty_def
  plugin_settings_missing_env_reports_error_def password_missing_env_reports_error_def

lemmas config_defs =
  from_toml_str_def validate_def validate_smtp_def validate_dispatcher_def validate_subject_def LEVELS_def
  default_config_def default_queue_config_def default_logging_config_def default_subject_config_def
  default_subject_format_def default_dispatcher_settings_def default_smtp_ingress_config_def format_for_def render_def
  plugin_settings_def resolve_env_def smtp_password_def authenticate_def service_password_def

lemma test_texts:
  "trim ''queue.db'' \<noteq> []" "trim ''smtp.office365.com'' \<noteq> []" "trim ''smtp.example.com'' \<noteq> []"
  "strip_suffix ''client_secret_env'' ''_env'' = Some ''client_secret''" "strip_suffix ''tenant_id'' ''_env'' = None"
  "replace_str ''%original%'' ''Status Okay'' (replace_str ''%name%'' ''Server01'' ''[Abs: %name%] %original%'') =
     ''[Abs: Server01] Status Okay''"
  by code_simp+

lemma config_tests_pass:
  "empty_config_uses_defaults" "parses_full_config" "format_for_uses_override_then_falls_back"
  "rejects_unknown_log_level" "rejects_subject_format_without_original" "rejects_zero_smtp_port"
  "plugin_settings_passthrough_and_env_resolution" "subject_render_substitutes_placeholders"
  "authenticate_self_register_accepts_any" "authenticate_service_matches_name_and_password"
  "dispatcher_defaults_and_overrides" "dispatcher_rejects_zero_concurrency" "mail_default_transport_parses"
  "ingress_smtp_defaults_when_section_present" "plugin_settings_unknown_plugin_is_empty"
  "plugin_settings_missing_env_reports_error" "password_missing_env_reports_error"
  by (simp_all add: test_helpers config_test_defs config_defs test_texts bt_get_def less_char_def)

lemma routing_tests_pass:
  "routing_inactive_when_empty" "routing_sender_rule_overrides_recipients_and_transport"
  "routing_fans_out_to_multiple_targets" "routing_default_applies_and_reject_works"
  "routing_rejects_unknown_sender_without_default"
  by code_simp+

lemma message_tests_pass:
  "validate_accepts_complete_mail" "validate_rejects_missing_recipients" "validate_rejects_empty_subject"
  by code_simp+

lemma test_policy_backoff:
  "backoff (test_policy k b m) n = from_secs s \<longleftrightarrow>
     unat s = min (min (unat b * 2 ^ min (unat n - 1) 31) (2 ^ 64 - 1)) (unat m)"
proof -
  have w: "dur_wf (max_delay (test_policy k b m))" by (simp add: test_policy_def)
  have "backoff (test_policy k b m) n = from_secs s \<longleftrightarrow>
      dur_nanos (backoff (test_policy k b m) n) = dur_nanos (from_secs s)"
    using dur_le_iff [OF dur_wf_backoff [OF w] dur_wf_from_secs] dur_le_iff [OF dur_wf_from_secs dur_wf_backoff [OF w]]
    by (metis order_antisym order_refl)
  then show ?thesis
    unfolding dur_nanos_backoff [OF w] by (auto simp: test_policy_def from_secs_def dur_nanos_def min_def)
qed

lemma retry_tests_pass: "backoff_grows_exponentially" "backoff_is_capped" "exhaustion_at_max_attempts"
  by (simp_all add: backoff_grows_exponentially_def backoff_is_capped_def test_policy_backoff
      exhaustion_at_max_attempts_def is_exhausted_def default_retry_policy_def)

end
