(* ===== verification/Queue_Tests.thy ===== *)
theory Queue_Tests
  imports Dispatcher_Properties Core_Tests
begin

text \<open>
  The tests of \<open>queue-sqlite/src/lib.rs\<close>, replayed on the model for every codec that satisfies its
  contract, every id and every reading of the clock: the proofs go through the interpretation of
  the queue's contract and do not look at the table.
\<close>

section \<open>The tests\<close>

definition test_mail :: "datetime \<Rightarrow> mail_id \<Rightarrow> mail" where
  "test_mail t i = from_new
     \<lparr>nm_from = address_new ''relay@example.com'',
      nm_to = [\<lparr>email = ''ziel@example.com'', addr_name = Some ''Zustellung''\<rparr>],
      nm_subject = ''Gr'' @ [CHR 0xC3, CHR 0xBC, CHR 0xC3, CHR 0x9F] @ ''e'',
      nm_body = ''K'' @ [CHR 0xC3, CHR 0xB6] @ ''rper'', nm_transport = None\<rparr> t i"

text \<open>An enqueue into a new queue, followed by the rest of a test.\<close>

definition after_enqueue :: "codec \<Rightarrow> datetime \<Rightarrow> mail_id \<Rightarrow> (row list \<Rightarrow> bool) \<Rightarrow> bool" where
  "after_enqueue E t i P = (let (q, r) = enqueue E (calm t) (test_mail t i) [] in expecting r (\<lambda>_. P q))"

text \<open>A mark that must succeed, followed by the rest of a test.\<close>

definition after_op :: "row list \<times> (core_error + 'a) \<Rightarrow> ('a \<Rightarrow> row list \<Rightarrow> bool) \<Rightarrow> bool" where
  "after_op qr P = (let (q, r) = qr in expecting r (\<lambda>x. P x q))"

definition is_not_found :: "core_error + 'a \<Rightarrow> bool" where
  "is_not_found r = (case r of Inl (NotFound _) \<Rightarrow> True | _ \<Rightarrow> False)"

definition enqueue_and_get_roundtrip :: "codec \<Rightarrow> datetime \<Rightarrow> mail_id \<Rightarrow> bool" where
  "enqueue_and_get_roundtrip E t i = after_enqueue E t i (\<lambda>q.
     expecting (get_mail E (calm t) i q) (\<lambda>m.
       subject m = ''Gr'' @ [CHR 0xC3, CHR 0xBC, CHR 0xC3, CHR 0x9F] @ ''e'' \<and> status m = Pending \<and>
       length (to_addrs m) = 1 \<and> addr_name (to_addrs m ! 0) = Some ''Zustellung''))"

definition get_unknown_returns_not_found :: "codec \<Rightarrow> datetime \<Rightarrow> mail_id \<Rightarrow> bool" where
  "get_unknown_returns_not_found E t i = is_not_found (get_mail E (calm t) i [])"

definition fetch_due_returns_pending :: "codec \<Rightarrow> datetime \<Rightarrow> datetime \<Rightarrow> mail_id \<Rightarrow> bool" where
  "fetch_due_returns_pending E t now i = after_enqueue E t i (\<lambda>q.
     expecting (fetch_due E (calm now) 10 now q) (\<lambda>ms. length ms = 1))"

definition fetch_due_skips_sent :: "codec \<Rightarrow> datetime \<Rightarrow> datetime \<Rightarrow> mail_id \<Rightarrow> bool" where
  "fetch_due_skips_sent E t now i = after_enqueue E t i (\<lambda>q.
     after_op (mark_sent E (calm t) i q) (\<lambda>_ q.
     expecting (fetch_due E (calm now) 10 now q) (\<lambda>ms. ms = [])))"

definition fetch_due_skips_in_flight :: "codec \<Rightarrow> datetime \<Rightarrow> datetime \<Rightarrow> mail_id \<Rightarrow> bool" where
  "fetch_due_skips_in_flight E t now i = after_enqueue E t i (\<lambda>q.
     after_op (mark_sending E (calm t) i q) (\<lambda>_ q.
     expecting (fetch_due E (calm now) 10 now q) (\<lambda>ms. ms = [])))"

definition mark_sending_does_not_count_attempt :: "codec \<Rightarrow> datetime \<Rightarrow> mail_id \<Rightarrow> bool" where
  "mark_sending_does_not_count_attempt E t i = after_enqueue E t i (\<lambda>q.
     after_op (mark_sending E (calm t) i q) (\<lambda>_ q.
     expecting (get_mail E (calm t) i q) (\<lambda>m. status m = Sending \<and> attempts m = 0)))"

definition mark_sent_sets_status :: "codec \<Rightarrow> datetime \<Rightarrow> mail_id \<Rightarrow> bool" where
  "mark_sent_sets_status E t i = after_enqueue E t i (\<lambda>q.
     after_op (mark_sent E (calm t) i q) (\<lambda>_ q.
     expecting (get_mail E (calm t) i q) (\<lambda>m. status m = Sent)))"

definition mark_failed_reschedules_into_future :: "codec \<Rightarrow> datetime \<Rightarrow> datetime \<Rightarrow> mail_id \<Rightarrow> bool" where
  "mark_failed_reschedules_into_future E t now i =
     (let retry_at = now + 5 * 60 * 10 ^ 9 in
      after_enqueue E t i (\<lambda>q.
      after_op (mark_failed E (calm now) i ''smtp timeout'' retry_at q) (\<lambda>_ q.
      expecting (get_mail E (calm now) i q) (\<lambda>m.
        status m = Failed \<and> attempts m = 1 \<and> last_error m = Some ''smtp timeout'') \<and>
      expecting (fetch_due E (calm now) 10 now q) (\<lambda>ms. ms = []) \<and>
      expecting (fetch_due E (calm now) 10 (retry_at + 10 ^ 9) q) (\<lambda>ms. length ms = 1))))"

definition mark_dead_counts_attempt_and_stays_out_of_queue :: "codec \<Rightarrow> datetime \<Rightarrow> datetime \<Rightarrow> mail_id \<Rightarrow> bool" where
  "mark_dead_counts_attempt_and_stays_out_of_queue E t now i = after_enqueue E t i (\<lambda>q.
     after_op (mark_dead E (calm now) i ''permanent'' q) (\<lambda>_ q.
     expecting (get_mail E (calm now) i q) (\<lambda>m. status m = Dead \<and> attempts m = 1) \<and>
     expecting (fetch_due E (calm now) 10 (now + 24 * 3600 * 10 ^ 9) q) (\<lambda>ms. ms = [])))"

definition requeue_sending_recovers_in_flight :: "codec \<Rightarrow> datetime \<Rightarrow> datetime \<Rightarrow> mail_id \<Rightarrow> bool" where
  "requeue_sending_recovers_in_flight E t now i = after_enqueue E t i (\<lambda>q.
     after_op (mark_sending E (calm t) i q) (\<lambda>_ q.
     after_op (requeue_sending E (calm now) q) (\<lambda>n q.
     n = 1 \<and> expecting (fetch_due E (calm now) 10 now q) (\<lambda>ms. length ms = 1))))"

definition requeue_stale_sending_only_resets_orphaned :: "codec \<Rightarrow> datetime \<Rightarrow> datetime \<Rightarrow> mail_id \<Rightarrow> bool" where
  "requeue_stale_sending_only_resets_orphaned E t now i = after_enqueue E t i (\<lambda>q.
     after_op (mark_sending E (calm t) i q) (\<lambda>_ q.
     after_op (requeue_stale_sending E (calm now) (now - 60 * 10 ^ 9) q) (\<lambda>n q. n = 0 \<and>
     after_op (requeue_stale_sending E (calm now) (now + 60 * 10 ^ 9) q) (\<lambda>n q. n = 1 \<and>
     expecting (get_mail E (calm now) i q) (\<lambda>m. status m = Pending)))))"

definition mark_unknown_returns_not_found :: "codec \<Rightarrow> datetime \<Rightarrow> mail_id \<Rightarrow> bool" where
  "mark_unknown_returns_not_found E t i = is_not_found (snd (mark_sent E (calm t) i []))"


section \<open>Rules\<close>

lemma db_inv_nil: "codec_ok E \<Longrightarrow> db_inv E []"
  by (simp add: db_inv_def)

lemma test_mail_simps [simp]:
  "id_of (test_mail t i) = i" "status (test_mail t i) = Pending" "attempts (test_mail t i) = 0"
  "next_attempt_at (test_mail t i) = t" "mail_ts_ok (test_mail t i) = ts_ok t"
  by (simp_all add: test_mail_def)

lemma after_enqueueI:
  assumes "codec_ok E" and "ts_ok t" and "\<And>q. db_inv E q \<Longrightarrow> db_view E q = [i \<mapsto> test_mail t i] \<Longrightarrow> P q"
  shows "after_enqueue E t i P"
proof -
  have e: "db_view E [] = Map.empty" by (simp add: fun_eq_iff db_view_def)
  from sq.enqueue_new [OF db_inv_nil [OF assms(1)], of "test_mail t i" "calm t"] assms(2) obtain q where
    "enqueue E (calm t) (test_mail t i) [] = (q, Inr (test_mail t i))" "db_inv E q" "db_view E q = [i \<mapsto> test_mail t i]"
    by (auto simp: e sqlite_ops_def)
  with assms(3) show ?thesis by (simp add: after_enqueue_def expecting_def)
qed

lemma after_markI:
  assumes "marks (db_inv E) (db_view E) ids io i f u" and "db_inv E q" and "io_fault io = None"
    and "db_view E q = [i \<mapsto> m]" and "\<And>q'. db_inv E q' \<Longrightarrow> db_view E q' = [i \<mapsto> u m] \<Longrightarrow> P () q'"
  shows "after_op (f q) P"
proof -
  from assms(1) [unfolded marks_def, rule_format, OF assms(2)] assms(3,4) obtain q' where
    "f q = (q', Inr ())" "db_inv E q'" "db_view E q' = [i \<mapsto> u m]" by auto
  with assms(5) show ?thesis by (simp add: after_op_def expecting_def)
qed

lemma after_requeueI:
  assumes "requeues (db_inv E) (db_view E) io f S" and "db_inv E q" and "io_fault io = None"
    and "db_view E q = [i \<mapsto> m]"
    and "\<And>q'. db_inv E q' \<Longrightarrow> db_view E q' = [i \<mapsto> if status m = Sending \<and> S m then requeued (io_now io) m else m] \<Longrightarrow>
      P (if status m = Sending \<and> S m then 1 else 0) q'"
  shows "after_op (f q) P"
proof -
  have c: "card {j. \<exists>m'. [i \<mapsto> m] j = Some m' \<and> status m' = Sending \<and> S m'} = (if status m = Sending \<and> S m then 1 else 0)"
    (is "card ?A = _")
  proof -
    have "?A = (if status m = Sending \<and> S m then {i} else {})" by (auto split: if_splits)
    then show ?thesis by simp
  qed
  have v: "requeue_store (io_now io) S [i \<mapsto> m] = [i \<mapsto> if status m = Sending \<and> S m then requeued (io_now io) m else m]"
    by (simp add: requeue_store_def fun_eq_iff)
  from assms(1) [unfolded requeues_def, rule_format, OF assms(2)] assms(3,4) c v obtain q' where
    "f q = (q', Inr (if status m = Sending \<and> S m then 1 else 0))" "db_inv E q'"
    "db_view E q' = [i \<mapsto> if status m = Sending \<and> S m then requeued (io_now io) m else m]" by auto
  with assms(5) show ?thesis by (simp add: after_op_def expecting_def)
qed

lemma fetch_single:
  assumes "db_inv E q" and "db_view E q = [i \<mapsto> m]" and "id_of m = i" and "ts_ok now" and "0 < limit"
  shows "fetch_due E (calm t) limit now q = Inr (if due now m then [m] else [])"
proof -
  from sq.fetch_ok [OF assms(1,4), of "calm t" limit] obtain ms where
    f: "fetch_due E (calm t) limit now q = Inr ms" and b: "due_batch [i \<mapsto> m] limit now ms"
    by (auto simp: sqlite_ops_def assms(2))
  show ?thesis
  proof (cases "due now m")
    case True
    with due_batch_single [OF b assms(3) _ assms(5)] f show ?thesis by simp
  next
    case False
    with due_batchD(2,3) [OF b] have "x \<notin> set ms" for x by (metis assms(3) fun_upd_apply option.discI option.inject)
    then have "ms = []" by (cases ms) auto
    with f False show ?thesis by simp
  qed
qed

lemma get_single:
  assumes "db_inv E q" and "db_view E q = [i \<mapsto> m]"
  shows "get_mail E (calm t) i q = Inr m"
  using get_mail_view [OF assms(1), of "calm t" i] assms(2) by simp


lemma mark_laws:
  assumes "ts_ok t"
  shows "marks (db_inv E) (db_view E) (uuid_to_string E) (calm t) i (mark_sending E (calm t) i) (set_mail_status t Sending None False None)"
    and "marks (db_inv E) (db_view E) (uuid_to_string E) (calm t) i (mark_sent E (calm t) i) (set_mail_status t Sent None False None)"
    and "ts_ok r \<Longrightarrow> marks (db_inv E) (db_view E) (uuid_to_string E) (calm t) i (mark_failed E (calm t) i e r)
           (set_mail_status t Failed (Some e) True (Some r))"
    and "marks (db_inv E) (db_view E) (uuid_to_string E) (calm t) i (mark_dead E (calm t) i e) (set_mail_status t Dead (Some e) True None)"
  using sq.mark_sending_law [of "calm t" E i] sq.mark_sent_law [of "calm t" E i] sq.mark_failed_law [of "calm t" r E i e]
    sq.mark_dead_law [of "calm t" E i e] assms
  by (simp_all add: sqlite_ops_def)

lemma requeue_laws:
  assumes "ts_ok t"
  shows "requeues (db_inv E) (db_view E) (calm t) (requeue_sending E (calm t)) (\<lambda>_. True)"
    and "ts_ok c \<Longrightarrow> requeues (db_inv E) (db_view E) (calm t) (requeue_stale_sending E (calm t) c) (\<lambda>m. updated_at m < c)"
  using sq.requeue_sending_law [of "calm t" E] sq.requeue_stale_law [of "calm t" c E] assms
  by (simp_all add: sqlite_ops_def)

section \<open>The model passes\<close>

text \<open>For a clock that shows \<open>t\<close> when the mail is created and \<open>now\<close> later.\<close>

lemma queue_tests_pass:
  assumes "codec_ok E" and "ts_ok t" and "ts_ok now" and "t \<le> now"
  shows "enqueue_and_get_roundtrip E t i" and "get_unknown_returns_not_found E t i"
    and "fetch_due_returns_pending E t now i" and "fetch_due_skips_sent E t now i"
    and "fetch_due_skips_in_flight E t now i" and "mark_sending_does_not_count_attempt E t i"
    and "mark_sent_sets_status E t i" and "requeue_sending_recovers_in_flight E t now i"
    and "mark_unknown_returns_not_found E t i"
proof -
  have e: "db_view E [] = Map.empty" by (simp add: fun_eq_iff db_view_def)
  show "enqueue_and_get_roundtrip E t i"
    unfolding enqueue_and_get_roundtrip_def
    by (rule after_enqueueI [OF assms(1,2)]) (simp add: get_single expecting_def test_mail_def)
  show "get_unknown_returns_not_found E t i"
    using get_mail_view [OF db_inv_nil [OF assms(1)], of "calm t" i]
    by (simp add: get_unknown_returns_not_found_def is_not_found_def e)
  show "fetch_due_returns_pending E t now i"
    unfolding fetch_due_returns_pending_def
    by (rule after_enqueueI [OF assms(1,2)])
      (simp add: fetch_single assms expecting_def due_def live_def)
  show "fetch_due_skips_sent E t now i"
    unfolding fetch_due_skips_sent_def
    by (rule after_enqueueI [OF assms(1,2)], rule after_markI [OF mark_laws(2) [OF assms(2)]])
      (auto simp: fetch_single assms expecting_def due_def live_def)
  show "fetch_due_skips_in_flight E t now i"
    unfolding fetch_due_skips_in_flight_def
    by (rule after_enqueueI [OF assms(1,2)], rule after_markI [OF mark_laws(1) [OF assms(2)]])
      (auto simp: fetch_single assms expecting_def due_def live_def)
  show "mark_sending_does_not_count_attempt E t i"
    unfolding mark_sending_does_not_count_attempt_def
    by (rule after_enqueueI [OF assms(1,2)], rule after_markI [OF mark_laws(1) [OF assms(2)]])
      (auto simp: get_single expecting_def)
  show "mark_sent_sets_status E t i"
    unfolding mark_sent_sets_status_def
    by (rule after_enqueueI [OF assms(1,2)], rule after_markI [OF mark_laws(2) [OF assms(2)]])
      (auto simp: get_single expecting_def)
  show "requeue_sending_recovers_in_flight E t now i"
    unfolding requeue_sending_recovers_in_flight_def
    by (rule after_enqueueI [OF assms(1,2)], rule after_markI [OF mark_laws(1) [OF assms(2)]], assumption, simp, assumption,
        rule after_requeueI [OF requeue_laws(1) [OF assms(3)]])
      (auto simp: fetch_single assms expecting_def due_def live_def)
  show "mark_unknown_returns_not_found E t i"
    using mark_laws(2) [OF assms(2), of E i, unfolded marks_def, rule_format, OF db_inv_nil [OF assms(1)]]
    by (simp add: mark_unknown_returns_not_found_def is_not_found_def e)
qed


text \<open>These also reach a day ahead and a minute back.\<close>

lemma queue_schedule_tests_pass:
  assumes "codec_ok E" and "ts_ok t" and "ts_ok (now - 60 * 10 ^ 9)" and "ts_ok (now + 24 * 3600 * 10 ^ 9)"
    and "now - 60 * 10 ^ 9 \<le> t" and "t \<le> now"
  shows "mark_failed_reschedules_into_future E t now i"
    and "mark_dead_counts_attempt_and_stays_out_of_queue E t now i"
    and "requeue_stale_sending_only_resets_orphaned E t now i"
proof -
  have ts: "ts_ok now" "ts_ok (now + 5 * 60 * 10 ^ 9)" "ts_ok (now + 5 * 60 * 10 ^ 9 + 10 ^ 9)" "ts_ok (now + 60 * 10 ^ 9)"
    using assms(3,4) by (simp_all add: ts_ok_def)
  show "mark_failed_reschedules_into_future E t now i"
    unfolding mark_failed_reschedules_into_future_def Let_def
    by (rule after_enqueueI [OF assms(1,2)], rule after_markI [OF mark_laws(3) [OF ts(1,2)]])
      (use ts in \<open>auto simp: fetch_single get_single expecting_def due_def live_def\<close>)
  show "mark_dead_counts_attempt_and_stays_out_of_queue E t now i"
    unfolding mark_dead_counts_attempt_and_stays_out_of_queue_def
    by (rule after_enqueueI [OF assms(1,2)], rule after_markI [OF mark_laws(4) [OF ts(1)]])
      (use assms(4) in \<open>auto simp: fetch_single get_single expecting_def due_def live_def\<close>)
  show "requeue_stale_sending_only_resets_orphaned E t now i"
    unfolding requeue_stale_sending_only_resets_orphaned_def
  proof (rule after_enqueueI [OF assms(1,2)], rule after_markI [OF mark_laws(1) [OF assms(2)]])
    fix q
    assume q: "db_inv E q" "db_view E q = [i \<mapsto> set_mail_status t Sending None False None (test_mail t i)]"
    show "after_op (requeue_stale_sending E (calm now) (now - 60 * 10 ^ 9) q) (\<lambda>n q. n = 0 \<and>
       after_op (requeue_stale_sending E (calm now) (now + 60 * 10 ^ 9) q) (\<lambda>n q. n = 1 \<and>
       expecting (get_mail E (calm now) i q) (\<lambda>m. status m = Pending)))"
    proof (rule after_requeueI [OF requeue_laws(2) [OF ts(1) assms(3)] q(1) _ q(2)], simp, rule conjI)
      fix q' :: "row list"
      assume q': "db_inv E q'" "db_view E q' = [i \<mapsto> if status (set_mail_status t Sending None False None (test_mail t i)) = Sending \<and>
          updated_at (set_mail_status t Sending None False None (test_mail t i)) < now - 60 * 10 ^ 9
          then requeued (io_now (calm now)) (set_mail_status t Sending None False None (test_mail t i))
          else set_mail_status t Sending None False None (test_mail t i)]"
      then have v: "db_view E q' = [i \<mapsto> set_mail_status t Sending None False None (test_mail t i)]" using assms(5) by simp
      show "after_op (requeue_stale_sending E (calm now) (now + 60 * 10 ^ 9) q') (\<lambda>n q. n = 1 \<and>
         expecting (get_mail E (calm now) i q) (\<lambda>m. status m = Pending))"
        by (rule after_requeueI [OF requeue_laws(2) [OF ts(1,4)] q'(1) _ v])
          (use assms(6) in \<open>auto simp: get_single expecting_def\<close>)
    qed (use assms(5) in simp)
  qed simp_all
qed

end
