(* ===== verification/Dispatcher_Tests.thy ===== *)
theory Dispatcher_Tests
  imports Queue_Tests
begin

text \<open>
  The tests of \<open>dispatcher/src/lib.rs\<close> replayed on the model: a test enqueues into a new queue, runs
  a tick of the step machine and looks at the mail. As for the queue, they hold for every codec and
  every calendar that satisfy their contracts.
\<close>

section \<open>Transports and dispatchers of the tests\<close>

definition ok_transport :: "unit transport_ops" where
  "ok_transport = \<lparr>tr_name = ''smtp'', tr_send = (\<lambda>_ _. Some (Inr ()))\<rparr>"

definition fail_transport :: "unit transport_ops" where
  "fail_transport = \<lparr>tr_name = ''smtp'', tr_send = (\<lambda>_ _. Some (Inl (Transport ''boom'')))\<rparr>"

definition test_transports :: "unit transport_ops \<Rightarrow> unit transport_ops hash_map" where
  "test_transports tr = hm_insert ''smtp'' tr []"

definition mail_for :: "string option \<Rightarrow> datetime \<Rightarrow> mail_id \<Rightarrow> mail" where
  "mail_for tr t i = from_new
     \<lparr>nm_from = address_new ''relay@example.com'', nm_to = [address_new ''ziel@example.com''], nm_subject = ''Status'',
      nm_body = ''Okay'', nm_transport = tr\<rparr> t i"

text \<open>One tick that delivers its mails one after the other, \<open>n\<close> of them.\<close>

definition tick_schedule :: "nat \<Rightarrow> datetime \<Rightarrow> unit action list" where
  "tick_schedule n now =
     [Reclaim now (calm now), Fetch (calm now)] @
     concat (replicate n [Claim (calm now), Spawn, Finish 0 \<lparr>d_net = (), d_now = now, d_io = calm now\<rparr>]) @
     (if n = 0 then [] else [Join])"

definition test_tick ::
  "codec \<Rightarrow> chrono \<Rightarrow> unit inner \<Rightarrow> nat \<Rightarrow> datetime \<Rightarrow> row list \<Rightarrow> (row list dstate \<Rightarrow> bool) \<Rightarrow> bool" where
  "test_tick E C I n now q P =
     (case steps True (sqlite_ops E) C I (tick_schedule n now) ((start q)\<lparr>phase_of := Polling\<rparr>) of
        None \<Rightarrow> False
      | Some s \<Rightarrow> phase_of s = Polling \<and> P s)"

definition queued :: "codec \<Rightarrow> string option \<Rightarrow> datetime \<Rightarrow> mail_id \<Rightarrow> (row list \<Rightarrow> bool) \<Rightarrow> bool" where
  "queued E tr t i P = (let (q, r) = enqueue E (calm t) (mail_for tr t i) [] in expecting r (\<lambda>_. P q))"

definition status_of :: "codec \<Rightarrow> datetime \<Rightarrow> mail_id \<Rightarrow> row list dstate \<Rightarrow> (mail \<Rightarrow> bool) \<Rightarrow> bool" where
  "status_of E now i s P = expecting (get_mail E (calm now) i (queue_of s)) P"

section \<open>The tests\<close>

definition delivers_and_marks_sent :: "codec \<Rightarrow> chrono \<Rightarrow> datetime \<Rightarrow> datetime \<Rightarrow> mail_id \<Rightarrow> bool" where
  "delivers_and_marks_sent E C t now i = queued E (Some ''smtp'') t i (\<lambda>q.
     test_tick E C (dispatcher_new (test_transports ok_transport) None default_dispatcher_config) 1 now q (\<lambda>s.
     processed s = [1] \<and> status_of E now i s (\<lambda>m. status m = Sent)))"

definition uses_default_transport_when_unset :: "codec \<Rightarrow> chrono \<Rightarrow> datetime \<Rightarrow> datetime \<Rightarrow> mail_id \<Rightarrow> bool" where
  "uses_default_transport_when_unset E C t now i = queued E None t i (\<lambda>q.
     test_tick E C (dispatcher_new (test_transports ok_transport) (Some ''smtp'') default_dispatcher_config) 1 now q (\<lambda>s.
     status_of E now i s (\<lambda>m. status m = Sent)))"

definition unknown_transport_is_buried :: "codec \<Rightarrow> chrono \<Rightarrow> datetime \<Rightarrow> datetime \<Rightarrow> mail_id \<Rightarrow> bool" where
  "unknown_transport_is_buried E C t now i = queued E (Some ''does-not-exist'') t i (\<lambda>q.
     test_tick E C (dispatcher_new (test_transports ok_transport) None default_dispatcher_config) 1 now q (\<lambda>s.
     status_of E now i s (\<lambda>m. status m = Dead)))"

definition failure_reschedules_with_backoff :: "codec \<Rightarrow> chrono \<Rightarrow> datetime \<Rightarrow> datetime \<Rightarrow> mail_id \<Rightarrow> bool" where
  "failure_reschedules_with_backoff E C t now i =
     (let I = dispatcher_new (test_transports fail_transport) None default_dispatcher_config in
      queued E (Some ''smtp'') t i (\<lambda>q.
      test_tick E C I 1 now q (\<lambda>s.
      status_of E now i s (\<lambda>m. status m = Failed \<and> attempts m = 1 \<and> now < next_attempt_at m) \<and>
      test_tick E C I 0 now (queue_of s) (\<lambda>s. processed s = [0]))))"

definition exhausted_attempts_are_buried :: "codec \<Rightarrow> chrono \<Rightarrow> datetime \<Rightarrow> datetime \<Rightarrow> mail_id \<Rightarrow> bool" where
  "exhausted_attempts_are_buried E C t now i =
     (let cfg = default_dispatcher_config\<lparr>retry := default_retry_policy\<lparr>max_attempts := 1\<rparr>\<rparr> in
      queued E (Some ''smtp'') t i (\<lambda>q.
      test_tick E C (dispatcher_new (test_transports fail_transport) None cfg) 1 now q (\<lambda>s.
      status_of E now i s (\<lambda>m. status m = Dead \<and> attempts m = 1))))"

section \<open>A tick with one mail\<close>

lemma reclaim_single:
  assumes "db_inv E q" and "db_view E q = [i \<mapsto> m]" and "status m \<noteq> Sending" and "ts_ok now"
    and "dt_sub C now (lease_delta C (disp_config I)) = Some c" and "ts_ok c"
  shows "\<exists>q'. step dbg (sqlite_ops E) C I (Reclaim now (calm now)) ((start q)\<lparr>phase_of := Polling\<rparr>) =
       Some ((start q')\<lparr>phase_of := Fetching now\<rparr>) \<and> db_inv E q' \<and> db_view E q' = [i \<mapsto> m]"
proof -
  from sq.requeue_stale_law [of "calm now" c E] assms(4,6)
  have "requeues (db_inv E) (db_view E) (calm now) (q_requeue_stale_sending (sqlite_ops E) (calm now) c) (\<lambda>m. updated_at m < c)"
    by simp
  from this [unfolded requeues_def, rule_format, OF assms(1)] obtain q' n where
    "q_requeue_stale_sending (sqlite_ops E) (calm now) c q = (q', Inr n)" "db_inv E q'"
    "db_view E q' = requeue_store now (\<lambda>m. updated_at m < c) (db_view E q)" by auto
  moreover have "requeue_store now (\<lambda>m. updated_at m < c) [i \<mapsto> m] = [i \<mapsto> m]"
    using assms(3) by (simp add: requeue_store_def fun_eq_iff)
  ultimately show ?thesis using assms(2,5) by (intro exI [of _ q']) (simp add: start_def)
qed


abbreviation test_env :: "datetime \<Rightarrow> unit denv" where
  "test_env now \<equiv> \<lparr>d_net = (), d_now = now, d_io = calm now\<rparr>"

lemma one_tick:
  fixes I :: "unit inner"
  assumes q: "db_inv E q" "db_view E q = [i \<mapsto> m]" "id_of m = i" and due: "due now m"
    and p: "params_ok C I" and a: "action_ok I (Reclaim now (calm now))" and env: "denv_ok I (test_env now)"
    and c: "0 < concurrency (disp_config I)" "concurrency (disp_config I) \<le> max_permits" "0 < batch_size (disp_config I)"
  shows "\<exists>s. steps dbg (sqlite_ops E) C I (tick_schedule 1 now) ((start q)\<lparr>phase_of := Polling\<rparr>) = Some s \<and>
     phase_of s = Polling \<and> processed s = [1] \<and> db_inv E (queue_of s) \<and>
     db_view E (queue_of s) = [i \<mapsto> mark_mail now (delivery_mark dbg C I (test_env now) m) (set_mail_status now Sending None False None m)]"
proof -
  let ?step = "step dbg (sqlite_ops E) C I"
  have ns: "status m \<noteq> Sending" and now: "ts_ok now" using due a by (auto simp: due_def live_def)
  obtain cut where cut: "dt_sub C now (lease_delta C (disp_config I)) = Some cut" "ts_ok cut"
    using lease_ok [OF params_okD(1) [OF p] a] by blast
  from reclaim_single [OF q(1,2) ns now cut] obtain q1 where
    st1: "?step (Reclaim now (calm now)) ((start q)\<lparr>phase_of := Polling\<rparr>) = Some ((start q1)\<lparr>phase_of := Fetching now\<rparr>)"
    and q1: "db_inv E q1" "db_view E q1 = [i \<mapsto> m]" by blast
  let ?s2 = "(start q1)\<lparr>phase_of := Claiming [m] 0\<rparr>"
  have st2: "?step (Fetch (calm now)) ((start q1)\<lparr>phase_of := Fetching now\<rparr>) = Some ?s2"
    using fetch_single [OF q1 q(3) now c(3)] due c(2) by (simp add: sqlite_ops_def fetched_def start_def)
  from mark_laws(1) [OF now, of E i, unfolded marks_def, rule_format, OF q1(1)] q1(2) obtain q3 where
    q3: "mark_sending E (calm now) i q1 = (q3, Inr ())" "db_inv E q3"
    "db_view E q3 = [i \<mapsto> set_mail_status now Sending None False None m]" by auto
  have st3: "?step (Claim (calm now)) ?s2 = Some ((start q3)\<lparr>phase_of := Acquiring m [] 0\<rparr>)"
    using q3(1) q(3) by (simp add: claimed_def sqlite_ops_def start_def)
  let ?s4 = "(start q3)\<lparr>flight := [m], phase_of := Claiming [] 1\<rparr>"
  have st4: "?step Spawn ((start q3)\<lparr>phase_of := Acquiring m [] 0\<rparr>) = Some ?s4" using c(1) by (simp add: start_def)
  let ?mk = "delivery_mark dbg C I (test_env now) m"
  let ?q5 = "run_mark (sqlite_ops E) (calm now) i ?mk q3"
  have st5: "?step (Finish 0 (test_env now)) ?s4 =
      Some (?s4\<lparr>queue_of := ?q5, flight := [], sends := [(i, exchange_of I (test_env now) m)]\<rparr>)"
    by (simp add: finished_def deliver_eq q(3) start_def)
  have "db_inv E ?q5 \<and> db_view E ?q5 = upd_at (calm now) i (mark_mail now ?mk) (db_view E q3)"
    using dq.run_mark_view [OF q3(2), of "calm now" ?mk i] delivery_mark_ts [OF p env] now by simp
  then have q5: "db_inv E ?q5" "db_view E ?q5 = [i \<mapsto> mark_mail now ?mk (set_mail_status now Sending None False None m)]"
    using q3(3) by (auto simp: upd_at_def)
  have "steps dbg (sqlite_ops E) C I (tick_schedule 1 now) ((start q)\<lparr>phase_of := Polling\<rparr>) =
      ?step Join (?s4\<lparr>queue_of := ?q5, flight := [], sends := [(i, exchange_of I (test_env now) m)]\<rparr>)"
    using st1 st2 st3 st4 st5 by (simp add: tick_schedule_def del: step.simps split: option.split)
  then show ?thesis using q5 by (simp add: start_def)
qed

lemma idle_tick:
  fixes I :: "unit inner"
  assumes q: "db_inv E q" "db_view E q = [i \<mapsto> m]" "id_of m = i" and "\<not> due now m" and ns: "status m \<noteq> Sending"
    and p: "params_ok C I" and a: "action_ok I (Reclaim now (calm now))" and b: "0 < batch_size (disp_config I)"
  shows "\<exists>s. steps dbg (sqlite_ops E) C I (tick_schedule 0 now) ((start q)\<lparr>phase_of := Polling\<rparr>) = Some s \<and>
     phase_of s = Polling \<and> processed s = [0]"
proof -
  have now: "ts_ok now" using a by simp
  obtain cut where cut: "dt_sub C now (lease_delta C (disp_config I)) = Some cut" "ts_ok cut"
    using lease_ok [OF params_okD(1) [OF p] a] by blast
  from reclaim_single [OF q(1,2) ns now cut] obtain q1 where
    st1: "step dbg (sqlite_ops E) C I (Reclaim now (calm now)) ((start q)\<lparr>phase_of := Polling\<rparr>) =
      Some ((start q1)\<lparr>phase_of := Fetching now\<rparr>)"
    and q1: "db_inv E q1" "db_view E q1 = [i \<mapsto> m]" by blast
  have st2: "step dbg (sqlite_ops E) C I (Fetch (calm now)) ((start q1)\<lparr>phase_of := Fetching now\<rparr>) =
      Some ((start q1)\<lparr>phase_of := Polling, processed := [0]\<rparr>)"
    using fetch_single [OF q1 q(3) now b] assms(4) by (simp add: sqlite_ops_def fetched_def start_def)
  from st1 st2 have "steps dbg (sqlite_ops E) C I (tick_schedule 0 now) ((start q)\<lparr>phase_of := Polling\<rparr>) =
      Some ((start q1)\<lparr>phase_of := Polling, processed := [0]\<rparr>)"
    by (simp add: tick_schedule_def del: step.simps)
  then show ?thesis by simp
qed

lemma status_ofI:
  "db_inv E (queue_of s) \<Longrightarrow> db_view E (queue_of s) = [i \<mapsto> m] \<Longrightarrow> P m \<Longrightarrow> status_of E now i s P"
  by (simp add: status_of_def get_single expecting_def)

lemma queuedI:
  assumes "codec_ok E" and "ts_ok t" and "\<And>q. db_inv E q \<Longrightarrow> db_view E q = [i \<mapsto> mail_for tr t i] \<Longrightarrow> P q"
  shows "queued E tr t i P"
proof -
  have e: "db_view E [] = Map.empty" by (simp add: fun_eq_iff db_view_def)
  from sq.enqueue_new [OF db_inv_nil [OF assms(1)], of "mail_for tr t i" "calm t"] assms(2) obtain q where
    "enqueue E (calm t) (mail_for tr t i) [] = (q, Inr (mail_for tr t i))" "db_inv E q" "db_view E q = [i \<mapsto> mail_for tr t i]"
    by (auto simp: e sqlite_ops_def mail_for_def)
  with assms(3) show ?thesis by (simp add: queued_def expecting_def)
qed


section \<open>The model passes\<close>

text \<open>The dispatchers of the tests differ in their transports and the number of attempts.\<close>

definition test_inner :: "unit transport_ops \<Rightarrow> string option \<Rightarrow> u32 \<Rightarrow> unit inner" where
  "test_inner tr d k =
     dispatcher_new (test_transports tr) d (default_dispatcher_config\<lparr>retry := default_retry_policy\<lparr>max_attempts := k\<rparr>\<rparr>)"

lemma test_inner_default:
  "dispatcher_new (test_transports tr) d default_dispatcher_config = test_inner tr d 5"
  by (simp add: test_inner_def default_dispatcher_config_def default_retry_policy_def)

lemma test_inner_simps [simp]:
  "concurrency (disp_config (test_inner tr d k)) = 8" "batch_size (disp_config (test_inner tr d k)) = 64"
  "max_attempts (retry (disp_config (test_inner tr d k))) = k" "sending_lease (disp_config (test_inner tr d k)) = from_secs 120"
  "max_delay (retry (disp_config (test_inner tr d k))) = from_secs 3600" "disp_default (test_inner tr d k) = d"
  by (simp_all add: test_inner_def dispatcher_new_def default_dispatcher_config_def default_retry_policy_def)

lemma test_inner_pick:
  "pick_transport (test_inner tr d k) m =
     (case (case transport m of Some n \<Rightarrow> Some n | None \<Rightarrow> d) of
        None \<Rightarrow> None | Some n \<Rightarrow> if n = ''smtp'' then Some (''smtp'', tr) else None)"
  by (simp add: pick_transport_def test_inner_def dispatcher_new_def test_transports_def hm_get_def hm_insert_def
      split: option.split)

definition test_clock :: "chrono \<Rightarrow> datetime \<Rightarrow> datetime \<Rightarrow> bool" where
  "test_clock C t now = (chrono_ok C \<and> ts_ok t \<and> t \<le> now \<and> ts_ok (now - 120 * 10 ^ 9) \<and> ts_ok (now + 3600 * 10 ^ 9))"

lemma test_clockD:
  assumes "test_clock C t now" and "0 < k"
  shows "ts_ok t" and "t \<le> now" and "params_ok C (test_inner tr d k)"
    and "action_ok (test_inner tr d k) (Reclaim now (calm now))" and "denv_ok (test_inner tr d k) (test_env now)"
  using assms by (auto simp: test_clock_def params_ok_def denv_ok_def ts_ok_def)

lemma test_tickI:
  assumes "db_inv E q" and "db_view E q = [i \<mapsto> mail_for tr' t i]" and "test_clock C t now" and "0 < k"
    and "delivery_mark True C (test_inner tr d k) (test_env now) (mail_for tr' t i) = mk"
    and "\<And>s. processed s = [1] \<Longrightarrow> db_inv E (queue_of s) \<Longrightarrow> db_view E (queue_of s) =
       [i \<mapsto> mark_mail now mk (set_mail_status now Sending None False None (mail_for tr' t i))] \<Longrightarrow> P s"
  shows "test_tick E C (test_inner tr d k) 1 now q P"
proof -
  note T = test_clockD [OF assms(3,4)]
  have i: "id_of (mail_for tr' t i) = i" and due: "due now (mail_for tr' t i)"
    using T(2) by (simp_all add: mail_for_def due_def live_def)
  have c: "0 < concurrency (disp_config (test_inner tr d k))" "concurrency (disp_config (test_inner tr d k)) \<le> max_permits"
    "0 < batch_size (disp_config (test_inner tr d k))" by (simp_all add: max_permits_def)
  from one_tick [OF assms(1,2) i due T(3,4,5) c, of True] assms(5,6) show ?thesis
    by (auto simp: test_tick_def)
qed

lemma ok_mark:
  assumes "transport m = Some ''smtp'' \<or> transport m = None \<and> d = Some ''smtp''"
  shows "delivery_mark dbg C (test_inner ok_transport d k) env m = Some MSent"
  using assms by (auto simp: delivery_mark_def test_inner_pick ok_transport_def)

lemma no_transport_mark:
  assumes "transport m = Some n" and "n \<noteq> ''smtp''"
  shows "delivery_mark dbg C (test_inner tr d k) env m = Some (MDead (no_transport_message m d))"
  using assms by (simp add: delivery_mark_def test_inner_pick)

lemma mail_for_simps [simp]:
  "transport (mail_for tr t i) = tr" "attempts (mail_for tr t i) = 0" "id_of (mail_for tr t i) = i"
  by (simp_all add: mail_for_def)

lemma delivery_tests_pass:
  assumes "codec_ok E" and "test_clock C t now"
  shows "delivers_and_marks_sent E C t now i" and "uses_default_transport_when_unset E C t now i"
    and "unknown_transport_is_buried E C t now i"
proof -
  have ts: "ts_ok t" using assms(2) by (simp add: test_clock_def)
  show "delivers_and_marks_sent E C t now i"
    unfolding delivers_and_marks_sent_def test_inner_default
    by (rule queuedI [OF assms(1) ts], rule test_tickI [OF _ _ assms(2) _ ok_mark]) (auto intro: status_ofI)
  show "uses_default_transport_when_unset E C t now i"
    unfolding uses_default_transport_when_unset_def test_inner_default
    by (rule queuedI [OF assms(1) ts], rule test_tickI [OF _ _ assms(2) _ ok_mark]) (auto intro: status_ofI)
  show "unknown_transport_is_buried E C t now i"
    unfolding unknown_transport_is_buried_def test_inner_default
    by (rule queuedI [OF assms(1) ts], rule test_tickI [OF _ _ assms(2) _ no_transport_mark]) (auto intro: status_ofI)
qed

lemma fail_mark:
  assumes "test_clock C t now" and "0 < k" and "transport m = Some ''smtp''" and "attempts m = 0"
  shows "delivery_mark True C (test_inner fail_transport None k) (test_env now) m =
     Some (if k = 1 then MDead (core_error_to_string (Transport ''boom''))
       else MFailed (core_error_to_string (Transport ''boom'')) (now + 30 * 10 ^ 9))"
proof -
  note T = test_clockD(3-5) [OF assms(1,2), where tr = fail_transport and d = None]
  have b: "attempts m < max_attempts (retry (disp_config (test_inner fail_transport None k)))"
    using assms(2,4) by (simp add: word_less_nat_alt)
  have x: "exchange_of (test_inner fail_transport None k) (test_env now) m = Some (''smtp'', Some (Inl (Transport ''boom'')))"
    by (simp add: exchange_of_def test_inner_pick assms(3) fail_transport_def)
  have base: "base_delay (retry (disp_config (test_inner fail_transport None k))) = from_secs 30"
    by (simp add: test_inner_def dispatcher_new_def default_retry_policy_def)
  have r: "retry_at C (retry (disp_config (test_inner fail_transport None k))) 1 now = Some (now + 30 * 10 ^ 9)"
    using retry_at_exact [OF params_okD(1) [OF T(1)] T(3) params_okD(2) [OF T(1)], of 1]
      dur_nanos_backoff [OF params_okD(2) [OF T(1)], of 1]
    by (simp add: base from_secs_def [of 30])
  have k: "Suc 0 = unat k \<longleftrightarrow> k = 1" using word_unat_eq_iff [of k 1] by auto
  show ?thesis unfolding delivery_mark_cases [OF T(1,3) b] by (simp add: x assms(4) r k)
qed

lemma failure_tests_pass:
  assumes "codec_ok E" and "test_clock C t now"
  shows "failure_reschedules_with_backoff E C t now i" and "exhausted_attempts_are_buried E C t now i"
proof -
  have ts: "ts_ok t" using assms(2) by (simp add: test_clock_def)
  note T = test_clockD(3,4) [OF assms(2), where tr = fail_transport and d = None and k = 5]
  have again: "test_tick E C (test_inner fail_transport None 5) 0 now q (\<lambda>s. processed s = [0])"
    if "db_inv E q" "db_view E q = [i \<mapsto> m]" "id_of m = i" "status m = Failed" "now < next_attempt_at m" for q m
    using idle_tick [OF that(1-3) _ _ T, of True] that(4,5) by (auto simp: test_tick_def due_def)
  show "failure_reschedules_with_backoff E C t now i"
    unfolding failure_reschedules_with_backoff_def Let_def test_inner_default
    by (rule queuedI [OF assms(1) ts], rule test_tickI [OF _ _ assms(2) _ fail_mark [OF assms(2)]])
      (auto intro: status_ofI again)
  show "exhausted_attempts_are_buried E C t now i"
    unfolding exhausted_attempts_are_buried_def Let_def test_inner_def [symmetric]
    by (rule queuedI [OF assms(1) ts], rule test_tickI [OF _ _ assms(2) _ fail_mark [OF assms(2)]])
      (auto intro: status_ofI)
qed

section \<open>Parallel deliveries\<close>

text \<open>A send of the transport \<open>SlowTransport\<close> takes a while; the count it keeps is the number of mails in
  flight. While the deliveries last, the loop goes on.\<close>

definition slow_transport :: "unit transport_ops" where
  "slow_transport = \<lparr>tr_name = ''smtp'', tr_send = (\<lambda>_ _. Some (Inr ()))\<rparr>"

fun queued_all :: "codec \<Rightarrow> string option \<Rightarrow> datetime \<Rightarrow> mail_id list \<Rightarrow> row list \<Rightarrow> (row list \<Rightarrow> bool) \<Rightarrow> bool" where
  "queued_all E tr t [] q P = P q"
| "queued_all E tr t (i # is) q P =
     (let (q', r) = enqueue E (calm t) (mail_for tr t i) q in expecting r (\<lambda>_. queued_all E tr t is q' P))"

definition slow_inner :: "unit inner" where
  "slow_inner = dispatcher_new (test_transports slow_transport) None (default_dispatcher_config\<lparr>concurrency := 4\<rparr>)"

definition deliveries_run_in_parallel :: "codec \<Rightarrow> chrono \<Rightarrow> datetime \<Rightarrow> datetime \<Rightarrow> mail_id list \<Rightarrow> bool" where
  "deliveries_run_in_parallel E C t now is = queued_all E (Some ''smtp'') t is [] (\<lambda>q.
     case steps True (sqlite_ops E) C slow_inner
            ([Reclaim now (calm now), Fetch (calm now)] @ concat (replicate 4 [Claim (calm now), Spawn]))
            ((start q)\<lparr>phase_of := Polling\<rparr>) of
       None \<Rightarrow> False
     | Some s \<Rightarrow> 2 \<le> length (flight s) \<and>
         (case steps True (sqlite_ops E) C slow_inner (replicate 4 (Finish 0 (test_env now)) @ [Join]) s of
            None \<Rightarrow> False
          | Some s' \<Rightarrow> processed s' = [4]))"

lemma queued_allI:
  assumes "db_inv E q" and "ts_ok t" and "distinct is" and "\<And>i. i \<in> set is \<Longrightarrow> db_view E q i = None"
    and "\<And>q'. db_inv E q' \<Longrightarrow> db_view E q' = (\<lambda>i. if i \<in> set is then Some (mail_for tr t i) else db_view E q i) \<Longrightarrow> P q'"
  shows "queued_all E tr t is q P"
  using assms(1,3-5)
proof (induction "is" arbitrary: q)
  case (Cons i "is")
  have ts: "mail_ts_ok (mail_for tr t i)" using assms(2) by (simp add: mail_for_def)
  have "db_view E q (id_of (mail_for tr t i)) = None" using Cons.prems(3) by simp
  from sq.enqueue_new [OF Cons.prems(1) ts _ this, of "calm t"] obtain q1 where
    q1: "enqueue E (calm t) (mail_for tr t i) q = (q1, Inr (mail_for tr t i))" "db_inv E q1"
      "db_view E q1 = (db_view E q)(i \<mapsto> mail_for tr t i)" by (auto simp: sqlite_ops_def)
  have "queued_all E tr t is q1 P"
  proof (rule Cons.IH [OF q1(2)])
    show "distinct is" "\<And>j. j \<in> set is \<Longrightarrow> db_view E q1 j = None"
      using Cons.prems(2,3) by (auto simp: q1(3))
    show "P q'" if "db_inv E q'" "db_view E q' = (\<lambda>j. if j \<in> set is then Some (mail_for tr t j) else db_view E q1 j)" for q'
      by (rule Cons.prems(4) [OF that(1)]) (use that(2) in \<open>auto simp: fun_eq_iff q1(3)\<close>)
  qed
  with q1(1) show ?case by (simp add: expecting_def)
qed simp

lemma slow_inner_simps [simp]:
  "concurrency (disp_config slow_inner) = 4" "batch_size (disp_config slow_inner) = 64"
  "max_attempts (retry (disp_config slow_inner)) = 5" "sending_lease (disp_config slow_inner) = from_secs 120"
  "max_delay (retry (disp_config slow_inner)) = from_secs 3600"
  by (simp_all add: slow_inner_def dispatcher_new_def default_dispatcher_config_def default_retry_policy_def)

lemma parallel_tick:
  assumes q: "db_inv E q" and v: "db_view E q = (\<lambda>i. if i \<in> set is then Some (mail_for tr t i) else None)"
    and "is": "distinct is" "length is = 4" and clock: "test_clock C t now"
  shows "\<exists>s. steps True (sqlite_ops E) C slow_inner
            ([Reclaim now (calm now), Fetch (calm now)] @ concat (replicate 4 [Claim (calm now), Spawn]))
            ((start q)\<lparr>phase_of := Polling\<rparr>) = Some s \<and>
     phase_of s = Claiming [] 4 \<and> length (flight s) = 4 \<and> processed s = []"
proof -
  let ?s0 = "(start q)\<lparr>phase_of := Polling\<rparr>" and ?I = slow_inner
  have p: "params_ok C ?I" and a: "action_ok ?I (Reclaim now (calm now))" and now: "ts_ok now" "t \<le> now"
    using clock by (auto simp: test_clock_def params_ok_def ts_ok_def)
  have i0: "sys_inv ?I (db_view E q) ?s0"
    by (auto simp: sys_inv_def start_def budget_def v relay_inv split: if_splits)
  obtain c where c: "dt_sub C now (lease_delta C (disp_config ?I)) = Some c"
    using lease_ok [OF params_okD(1) [OF p] a] by blast
  obtain s1 where s1: "step True (sqlite_ops E) C ?I (Reclaim now (calm now)) ?s0 = Some s1" "phase_of s1 = Fetching now"
    "flight s1 = []" "processed s1 = []" using c by (simp add: start_def)
  have q0: "db_inv E (queue_of ?s0)" and i0': "sys_inv ?I (db_view E (queue_of ?s0)) ?s0" using q i0 by (simp_all add: start_def)
  note i1 = dq.step_inv [OF q0 p a i0' s1(1)]
  from dq.step_store [OF q0 p a s1(1)] have v1: "db_view E (queue_of s1) = db_view E q"
    by (auto simp: start_def v requeue_at_def requeue_store_def mail_for_def fun_eq_iff)
  from sq.fetch_ok [OF i1(1) now(1), of "calm now" 64] obtain ms where
    ms: "q_fetch_due (sqlite_ops E) (calm now) 64 now (queue_of s1) = Inr ms" "due_batch (db_view E q) 64 now ms"
    unfolding v1 by auto
  have "{i. \<exists>m. db_view E q i = Some m \<and> due now m} = set is"
    using now(2) by (auto simp: v due_def live_def mail_for_def split: if_splits)
  with due_batchD(5) [OF ms(2)] "is" have len: "length ms = 4" by (simp add: distinct_card)
  let ?s2 = "s1\<lparr>phase_of := Claiming ms 0\<rparr>"
  have s2: "step True (sqlite_ops E) C ?I (Fetch (calm now)) s1 = Some ?s2"
    using s1(2) ms(1) len by (auto simp: fetched_def max_permits_def)
  have "action_ok ?I (Fetch (calm now))" by simp
  note i2 = dq.step_inv [OF i1(1) p this i1(2) s2]
  from dq.claims_in_parallel [OF i2(1,2) p, of "calm now" ms 0 True] now(1) s1(3,4) len obtain s where
    "steps True (sqlite_ops E) C ?I (concat (replicate 4 [Claim (calm now), Spawn])) ?s2 = Some s"
    "phase_of s = Claiming [] 4" "length (flight s) = 4" "processed s = []" by auto
  with s1(1) s2 show ?thesis by (intro exI [of _ s]) (simp del: step.simps replicate.simps)
qed

lemma parallel_test_passes:
  assumes "codec_ok E" and "test_clock C t now" and "distinct is" and "length is = 4"
  shows "deliveries_run_in_parallel E C t now is"
  unfolding deliveries_run_in_parallel_def
proof (rule queued_allI [OF db_inv_nil [OF assms(1)] _ assms(3)])
  show "ts_ok t" using assms(2) by (simp add: test_clock_def)
  show e: "db_view E [] i = None" for i by (simp add: db_view_def)
  fix q assume q: "db_inv E q" "db_view E q = (\<lambda>i. if i \<in> set is then Some (mail_for (Some ''smtp'') t i) else db_view E [] i)"
  then have v: "db_view E q = (\<lambda>i. if i \<in> set is then Some (mail_for (Some ''smtp'') t i) else None)" by (simp add: e fun_eq_iff)
  from parallel_tick [OF q(1) v assms(3,4,2)] obtain s where s: "steps True (sqlite_ops E) C slow_inner
      ([Reclaim now (calm now), Fetch (calm now)] @ concat (replicate 4 [Claim (calm now), Spawn])) ((start q)\<lparr>phase_of := Polling\<rparr>) = Some s"
    "phase_of s = Claiming [] 4" "length (flight s) = 4" "processed s = []" by blast
  obtain s' where s': "steps True (sqlite_ops E) C slow_inner (replicate 4 (Finish 0 (test_env now))) s = Some s'"
    "phase_of s' = Claiming [] 4" "flight s' = []" "processed s' = []"
    using finish_flight [of True "sqlite_ops E" C slow_inner s "test_env now"] s(2-4) by auto
  then have "steps True (sqlite_ops E) C slow_inner (replicate 4 (Finish 0 (test_env now)) @ [Join]) s =
      Some (s'\<lparr>phase_of := Polling, processed := [4]\<rparr>)" by (simp add: steps_append)
  then show "case steps True (sqlite_ops E) C slow_inner
            ([Reclaim now (calm now), Fetch (calm now)] @ concat (replicate 4 [Claim (calm now), Spawn]))
            ((start q)\<lparr>phase_of := Polling\<rparr>) of
       None \<Rightarrow> False
     | Some s \<Rightarrow> 2 \<le> length (flight s) \<and>
         (case steps True (sqlite_ops E) C slow_inner (replicate 4 (Finish 0 (test_env now)) @ [Join]) s of
            None \<Rightarrow> False
          | Some s' \<Rightarrow> processed s' = [4])"
    using s by (simp only: option.case) simp
qed

end
