(* ===== verification/Ingress_Tests.thy ===== *)
theory Ingress_Tests
  imports Ingress_Properties Queue_Tests "HOL-Library.Option_ord"
begin

text \<open>
  The tests of \<open>ingress-smtp/src/lib.rs\<close> replayed on the model, for every codec, id and reading of the
  clock. A test talks SMTP to a server; here it makes the callbacks that mailin makes for its
  lines. The third-party functions are an instance that answers as documented on the texts of the
  tests: the subject of a message is the text of its \<open>Subject\<close> line, the address of the peer is its
  text, and the pattern of the tests captures the name before the colon.
\<close>

section \<open>The server and the client of the tests\<close>

definition crlf :: string where
  "crlf = [CHR 0x0D, CHR 0x0A]"

definition server_pattern :: string where
  "server_pattern = ''^(?P<name>Server ?'' @ [CHR 0x5C] @ ''d+):''"

definition test_ext :: "(string, string, string, string) smtp_ext" where
  "test_ext =
     \<lparr>parse_net = (\<lambda>e. if CHR ''/'' \<in> set e then Some e else None),
      parse_ip = Some, is_ipv4 = (\<lambda>_. True), net_new = (\<lambda>i _. Some i), net_contains = (\<lambda>net ip. net = ip),
      regex_new = Inr,
      captures = (\<lambda>re s. if re = server_pattern \<and> starts_with s ''Server '' \<and> CHR '':'' \<in> set s
        then Some [''name'' \<mapsto> takeWhile (\<lambda>c. c \<noteq> CHR '':'') s] else None),
      msg_parse = Some,
      msg_subject = (\<lambda>d. if starts_with d ''Subject: '' then Some (takeWhile (\<lambda>c. c \<noteq> CHR 0x0D) (drop 9 d)) else None),
      msg_body_text = (\<lambda>_. None), utf8_lossy = (\<lambda>s. s)\<rparr>"

definition test_config :: config where
  "test_config = default_config
     \<lparr>cfg_ingress := \<lparr>ingress_smtp = Some (default_smtp_ingress_config\<lparr>hostname := ''oxid-test''\<rparr>)\<rparr>,
      cfg_security := \<lparr>ip_whitelist = [''127.0.0.1'', ''::1'']\<rparr>,
      cfg_auth := (cfg_auth default_config)\<lparr>anonymous := \<lparr>anon_enabled = True, subject_match = None\<rparr>\<rparr>\<rparr>"

definition local_config :: "string option \<Rightarrow> route_rule btree_map \<Rightarrow> config" where
  "local_config pattern rules = default_config
     \<lparr>cfg_ingress := \<lparr>ingress_smtp = Some default_smtp_ingress_config\<rparr>,
      cfg_security := \<lparr>ip_whitelist = [''127.0.0.1'']\<rparr>,
      cfg_auth := (cfg_auth default_config)\<lparr>anonymous := \<lparr>anon_enabled = True, subject_match = pattern\<rparr>\<rparr>,
      cfg_routing := \<lparr>rc_default = None, rc_senders = rules\<rparr>\<rparr>"

text \<open>The callbacks and their answers; the connection ends when one is not accepted.\<close>

fun converse ::
  "(string, string) smtp_context \<Rightarrow> codec \<Rightarrow> command list \<Rightarrow> relay_handler \<times> row list \<Rightarrow> response list \<times> row list" where
  "converse ctx E [] s = ([], snd s)"
| "converse ctx E (c # cs) s =
     (case handle Map.empty test_ext ctx (sqlite_ops E) ''127.0.0.1'' c s of
        (s', None) \<Rightarrow> converse ctx E cs s'
      | (s', Some OK) \<Rightarrow> (case converse ctx E cs s' of (rs, q) \<Rightarrow> (OK # rs, q))
      | (s', Some r) \<Rightarrow> ([r], snd s'))"

definition submit_mail ::
  "config \<Rightarrow> codec \<Rightarrow> (nat \<Rightarrow> tenv) \<Rightarrow> string \<Rightarrow> string \<Rightarrow> string \<Rightarrow> string \<Rightarrow> response list \<times> row list" where
  "submit_mail c E env frm rcp subj txt =
     converse (context_of test_ext c) E
       [Helo, MailFrom (''<'' @ frm @ ''>''), Rcpt (''<'' @ rcp @ ''>''), DataStart,
        Data (''Subject: '' @ subj @ crlf @ crlf @ txt @ crlf), DataEnd env] (handler_new, [])"

definition test_tenv :: "datetime \<Rightarrow> (nat \<Rightarrow> mail_id) \<Rightarrow> nat \<Rightarrow> tenv" where
  "test_tenv t ids k = \<lparr>t_now = t, t_uuid = ids k, t_io = calm t\<rparr>"

section \<open>The tests\<close>

definition accepts_anonymous_mail_and_enqueues :: "codec \<Rightarrow> datetime \<Rightarrow> datetime \<Rightarrow> (nat \<Rightarrow> mail_id) \<Rightarrow> bool" where
  "accepts_anonymous_mail_and_enqueues E t now ids =
     (let (rs, q) = submit_mail test_config E (test_tenv t ids) ''relay@example.com'' ''ziel@example.com'' ''Status Okay'' ''Koerper'' in
      rs = [OK, OK, OK, OK, OK] \<and>
      expecting (fetch_due E (calm now) 10 now q) (\<lambda>due.
        length due = 1 \<and> status (due ! 0) = Pending \<and> subject (due ! 0) = ''Status Okay'' \<and>
        email (from_addr (due ! 0)) = ''relay@example.com'' \<and> length (to_addrs (due ! 0)) = 1 \<and>
        email (to_addrs (due ! 0) ! 0) = ''ziel@example.com''))"

definition rejects_non_whitelisted_ip :: "codec \<Rightarrow> bool" where
  "rejects_non_whitelisted_ip E =
     (converse (context_of test_ext (default_config\<lparr>cfg_ingress := \<lparr>ingress_smtp = Some default_smtp_ingress_config\<rparr>,
        cfg_security := \<lparr>ip_whitelist = [''10.0.0.0/8'']\<rparr>\<rparr>)) E [Helo] (handler_new, []) =
      ([Custom 421 ''Service not available''], []))"

definition strip_brackets_removes_wrappers :: bool where
  "strip_brackets_removes_wrappers =
     (strip_brackets ''<a@b.de>'' = ''a@b.de'' \<and> strip_brackets ''  a@b.de '' = ''a@b.de'')"

definition extract_name_uses_named_group :: bool where
  "extract_name_uses_named_group =
     (extract_name test_ext (Some server_pattern) ''Server 187: Status Okay'' = Some ''Server 187'' \<and>
      extract_name test_ext (Some server_pattern) ''no match here'' = None \<and>
      extract_name test_ext None ''Server 1: x'' = None)"

definition applies_subject_prefix_from_pattern :: "codec \<Rightarrow> datetime \<Rightarrow> datetime \<Rightarrow> (nat \<Rightarrow> mail_id) \<Rightarrow> bool" where
  "applies_subject_prefix_from_pattern E t now ids =
     (let (rs, q) = submit_mail (local_config (Some server_pattern) []) E (test_tenv t ids) ''relay@example.com''
        ''ziel@example.com'' ''Server 187: Status Okay'' ''Koerper'' in
      rs = [OK, OK, OK, OK, OK] \<and>
      expecting (fetch_due E (calm now) 10 now q) (\<lambda>due.
        length due = 1 \<and> subject (due ! 0) = ''[Abs: Server 187] Server 187: Status Okay''))"

definition routing_overrides_recipient_and_transport :: "codec \<Rightarrow> datetime \<Rightarrow> datetime \<Rightarrow> (nat \<Rightarrow> mail_id) \<Rightarrow> bool" where
  "routing_overrides_recipient_and_transport E t now ids =
     (let (rs, q) = submit_mail (local_config None [(''relay@example.com'', simple_rule ''graph'' [''override@example.com''])]) E
        (test_tenv t ids) ''relay@example.com'' ''original@example.com'' ''Hallo'' ''Body'' in
      last rs = OK \<and>
      expecting (fetch_due E (calm now) 10 now q) (\<lambda>due.
        length due = 1 \<and> transport (due ! 0) = Some ''graph'' \<and> length (to_addrs (due ! 0)) = 1 \<and>
        email (to_addrs (due ! 0) ! 0) = ''override@example.com''))"

definition routing_rejects_unconfigured_sender :: "codec \<Rightarrow> datetime \<Rightarrow> datetime \<Rightarrow> (nat \<Rightarrow> mail_id) \<Rightarrow> bool" where
  "routing_rejects_unconfigured_sender E t now ids =
     (let (rs, q) = submit_mail (local_config None [(''ok@example.com'', simple_rule ''graph'' [])]) E
        (test_tenv t ids) ''blocked@example.com'' ''x@example.com'' ''Hallo'' ''Body'' in
      (case last rs of Custom n _ \<Rightarrow> n = 550 | _ \<Rightarrow> False) \<and>
      expecting (fetch_due E (calm now) 10 now q) (\<lambda>due. due = []))"

definition routing_fans_out_to_multiple_transports :: "codec \<Rightarrow> datetime \<Rightarrow> datetime \<Rightarrow> (nat \<Rightarrow> mail_id) \<Rightarrow> bool" where
  "routing_fans_out_to_multiple_transports E t now ids =
     (let (rs, q) = submit_mail (local_config None [(''alarm@example.com'', \<lparr>rr_transport = None, rr_recipients = [], rr_targets =
          [\<lparr>tc_transport = ''teams'', tc_recipients = [''ops@teams.local'']\<rparr>, \<lparr>tc_transport = ''ntfy'', tc_recipients = []\<rparr>]\<rparr>)]) E
        (test_tenv t ids) ''alarm@example.com'' ''ignored@example.com'' ''Alarm'' ''Body'' in
      last rs = OK \<and>
      expecting (fetch_due E (calm now) 10 now q) (\<lambda>due.
        length due = 2 \<and>
        (let due = sort_key transport due in
         transport (due ! 0) = Some ''ntfy'' \<and> email (to_addrs (due ! 0) ! 0) = ''ignored@example.com'' \<and>
         transport (due ! 1) = Some ''teams'' \<and> email (to_addrs (due ! 1) ! 0) = ''ops@teams.local'')))"


section \<open>Submissions\<close>

definition test_handler :: "string \<Rightarrow> string \<Rightarrow> string \<Rightarrow> string \<Rightarrow> relay_handler" where
  "test_handler frm rcp subj txt =
     \<lparr>authenticated_as = None, envelope_from = ''<'' @ frm @ ''>'', recipients = [''<'' @ rcp @ ''>''],
      data_buf = ''Subject: '' @ subj @ crlf @ crlf @ txt @ crlf\<rparr>"

lemma submit_mail_eq:
  assumes "is_allowed test_ext (whitelist (context_of test_ext c)) ''127.0.0.1''"
    and "anonymous_enabled (context_of test_ext c)"
  shows "submit_mail c E env frm rcp subj txt =
     (case data_end test_ext (context_of test_ext c) (sqlite_ops E) env (test_handler frm rcp subj txt) [] of
        (q, r) \<Rightarrow> ([OK, OK, OK, OK, r], q))"
  using assms
  by (simp add: submit_mail_def relay_ops handler_new_def test_handler_def split: prod.split response.split)

lemma allowed_test_config:
  "is_allowed test_ext (whitelist (context_of test_ext test_config)) ''127.0.0.1''"
  "anonymous_enabled (context_of test_ext test_config)"
  by (simp_all add: is_allowed_def context_of_def test_config_def default_config_def test_ext_def)

lemma allowed_local_config:
  "is_allowed test_ext (whitelist (context_of test_ext (local_config p rules))) ''127.0.0.1''"
  "anonymous_enabled (context_of test_ext (local_config p rules))"
  by (simp_all add: is_allowed_def context_of_def local_config_def default_config_def test_ext_def)

text \<open>The message as the handler builds it, for a subject of one line.\<close>

definition test_new :: "(string, string) smtp_context \<Rightarrow> string \<Rightarrow> string \<Rightarrow> string \<Rightarrow> string \<Rightarrow> new_mail" where
  "test_new ctx frm rcp subj txt =
     \<lparr>nm_from = address_new (strip_brackets (''<'' @ frm @ ''>'')), nm_to = [address_new (strip_brackets (''<'' @ rcp @ ''>''))],
      nm_subject = (case extract_name test_ext (subject_matcher ctx) subj of
         Some n \<Rightarrow> render (ctx_subject ctx) n subj | None \<Rightarrow> subj),
      nm_body = ''Subject: '' @ subj @ crlf @ crlf @ txt @ crlf, nm_transport = None\<rparr>"

lemma build_test_mail:
  assumes "CHR 0x0D \<notin> set subj"
  shows "build_new_mail test_ext ctx (test_handler frm rcp subj txt) = Inr (test_new ctx frm rcp subj txt)"
proof -
  have "takeWhile (\<lambda>c. c \<noteq> CHR 0x0D) (subj @ crlf @ r) = subj" for r
    using assms by (induction subj) (auto simp: crlf_def)
  then have s: "msg_subject test_ext (''Subject: '' @ subj @ crlf @ crlf @ txt @ crlf) = Some subj"
    by (simp add: test_ext_def starts_with_def)
  have p: "msg_parse test_ext = Some" "msg_body_text test_ext d = None" "utf8_lossy test_ext d = d" for d
    by (simp_all add: test_ext_def)
  have h: "data_buf (test_handler frm rcp subj txt) = ''Subject: '' @ subj @ crlf @ crlf @ txt @ crlf"
    "envelope_from (test_handler frm rcp subj txt) = ''<'' @ frm @ ''>''"
    "recipients (test_handler frm rcp subj txt) = [''<'' @ rcp @ ''>'']"
    "authenticated_as (test_handler frm rcp subj txt) = None" by (simp_all add: test_handler_def)
  show ?thesis
    unfolding build_new_mail_def h p s Let_def option.case test_new_def list.map ..
qed

lemma submitted:
  assumes "codec_ok E" and "ts_ok t" and "CHR 0x0D \<notin> set subj"
    and "is_allowed test_ext (whitelist (context_of test_ext c)) ''127.0.0.1''" "anonymous_enabled (context_of test_ext c)"
    and "route_of (context_of test_ext c) (test_new (context_of test_ext c) frm rcp subj txt) = Deliver ts"
    and "stored (test_tenv t ids) (test_new (context_of test_ext c) frm rcp subj txt) 0 ts Map.empty = ms" and "ms \<noteq> []"
  obtains q where "submit_mail c E (test_tenv t ids) frm rcp subj txt = ([OK, OK, OK, OK, OK], q)"
    and "db_inv E q" and "db_view E q = map_of (map (\<lambda>m. (id_of m, m)) ms)"
proof -
  have e: "db_view E [] = Map.empty" by (simp add: fun_eq_iff db_view_def)
  have "\<forall>j. ts_ok (t_now (test_tenv t ids j))" using assms(2) by (simp add: test_tenv_def)
  from data_end_Deliver [OF build_test_mail [OF assms(3)] assms(6) db_inv_nil [OF assms(1)] this] obtain q where
    "data_end test_ext (context_of test_ext c) (sqlite_ops E) (test_tenv t ids) (test_handler frm rcp subj txt) [] = (q, OK)"
    "db_inv E q" "db_view E q = map_of (map (\<lambda>m. (id_of m, m)) ms)"
    using assms(7,8) unfolding e by auto
  with that submit_mail_eq [OF assms(4,5), of E "test_tenv t ids" frm rcp subj "txt"] show thesis by simp
qed


section \<open>The model passes\<close>

lemma stored_one:
  assumes "validate_mail (target_payload new T) = Inr ()"
  shows "stored (test_tenv t ids) new 0 [T] Map.empty = [from_new (target_payload new T) t (ids 0)]"
  using assms by (simp add: Let_def test_tenv_def)

text \<open>A submission routed to one target, and what a fetch finds after it.\<close>

lemma submitted_one:
  assumes "codec_ok E" and "ts_ok t" and "ts_ok now" and "t \<le> now" and "CHR 0x0D \<notin> set subj"
    and "is_allowed test_ext (whitelist (context_of test_ext c)) ''127.0.0.1''" "anonymous_enabled (context_of test_ext c)"
    and "route_of (context_of test_ext c) (test_new (context_of test_ext c) frm rcp subj txt) = Deliver [T]"
    and "validate_mail (target_payload (test_new (context_of test_ext c) frm rcp subj txt) T) = Inr ()"
  shows "\<exists>q. submit_mail c E (test_tenv t ids) frm rcp subj txt = ([OK, OK, OK, OK, OK], q) \<and>
     fetch_due E (calm now) 10 now q =
       Inr [from_new (target_payload (test_new (context_of test_ext c) frm rcp subj txt) T) t (ids 0)]"
proof -
  let ?m = "from_new (target_payload (test_new (context_of test_ext c) frm rcp subj txt) T) t (ids 0)"
  have ne: "[?m] \<noteq> []" by simp
  obtain q where q: "submit_mail c E (test_tenv t ids) frm rcp subj txt = ([OK, OK, OK, OK, OK], q)"
    "db_inv E q" "db_view E q = map_of (map (\<lambda>m. (id_of m, m)) [?m])"
    by (rule submitted [OF assms(1,2,5-8) stored_one [OF assms(9), of t ids] ne])
  from q(3) have v: "db_view E q = [ids 0 \<mapsto> ?m]" by simp
  have "due now ?m" using assms(4) by (simp add: due_def live_def)
  with fetch_single [OF q(2) v _ assms(3), of 10 now] q(1) show ?thesis by simp
qed

lemma test_addresses:
  "strip_brackets (''<'' @ ''relay@example.com'' @ ''>'') = ''relay@example.com''"
  "strip_brackets (''<'' @ ''ziel@example.com'' @ ''>'') = ''ziel@example.com''"
  "strip_brackets (''<'' @ ''original@example.com'' @ ''>'') = ''original@example.com''"
  "strip_brackets (''<'' @ ''blocked@example.com'' @ ''>'') = ''blocked@example.com''"
  "strip_brackets (''<'' @ ''alarm@example.com'' @ ''>'') = ''alarm@example.com''"
  "strip_brackets (''<'' @ ''ignored@example.com'' @ ''>'') = ''ignored@example.com''"
  "trim ''relay@example.com'' \<noteq> []" "trim ''alarm@example.com'' \<noteq> []" "trim ''Status Okay'' \<noteq> []"
  "trim ''[Abs: Server 187] Server 187: Status Okay'' \<noteq> []" "trim ''Hallo'' \<noteq> []" "trim ''Alarm'' \<noteq> []"
  by code_simp+

lemma helper_tests_pass: "strip_brackets_removes_wrappers" "extract_name_uses_named_group" "rejects_non_whitelisted_ip E"
proof -
  show "strip_brackets_removes_wrappers" "extract_name_uses_named_group" by code_simp+
  show "rejects_non_whitelisted_ip E"
    by (simp add: rejects_non_whitelisted_ip_def helo_def is_allowed_def context_of_def test_ext_def)
qed

lemma no_name: "subject_matcher (context_of test_ext test_config) = None"
  "subject_matcher (context_of test_ext (local_config None rules)) = None"
  "subject_matcher (context_of test_ext (local_config (Some p) rules)) = Some p"
  by (simp_all add: context_of_def test_config_def local_config_def default_config_def compile_matcher_def test_ext_def)

lemma test_routes:
  "route_of (context_of test_ext test_config) new = Deliver [\<lparr>rt_transport = [], rt_recipients = None\<rparr>]"
  "route_of (context_of test_ext (local_config p [])) new = Deliver [\<lparr>rt_transport = [], rt_recipients = None\<rparr>]"
  "rules \<noteq> [] \<Longrightarrow> route_of (context_of test_ext (local_config p rules)) new =
     resolve \<lparr>rc_default = None, rc_senders = rules\<rparr> (email (nm_from new))"
  by (simp_all add: route_of_def context_of_def test_config_def local_config_def default_config_def is_active_def)

lemma test_new_simps [simp]:
  "nm_from (test_new ctx frm rcp subj txt) = address_new (strip_brackets (''<'' @ frm @ ''>''))"
  "nm_to (test_new ctx frm rcp subj txt) = [address_new (strip_brackets (''<'' @ rcp @ ''>''))]"
  "nm_subject (test_new ctx frm rcp subj txt) =
     (case extract_name test_ext (subject_matcher ctx) subj of Some n \<Rightarrow> render (ctx_subject ctx) n subj | None \<Rightarrow> subj)"
  "nm_transport (test_new ctx frm rcp subj txt) = None"
  by (simp_all add: test_new_def)

lemma extract_none [simp]: "extract_name test_ext None x = None"
  by (simp add: extract_name_def)

lemma anonymous_test_passes:
  assumes "codec_ok E" and "ts_ok t" and "ts_ok now" and "t \<le> now"
  shows "accepts_anonymous_mail_and_enqueues E t now ids"
proof -
  have ok: "validate_mail (target_payload (test_new (context_of test_ext test_config) ''relay@example.com'' ''ziel@example.com''
      ''Status Okay'' ''Koerper'') \<lparr>rt_transport = [], rt_recipients = None\<rparr>) = Inr ()"
    by (simp add: no_name test_addresses [simplified])
  have cr: "CHR 0x0D \<notin> set ''Status Okay''" by simp
  from submitted_one [OF assms cr allowed_test_config test_routes(1) ok, of ids] show ?thesis
    by (auto simp: accepts_anonymous_mail_and_enqueues_def expecting_def no_name test_addresses [simplified])
qed

lemma test_prefix:
  "extract_name test_ext (Some server_pattern) ''Server 187: Status Okay'' = Some ''Server 187''"
  "render default_subject_config ''Server 187'' ''Server 187: Status Okay'' = ''[Abs: Server 187] Server 187: Status Okay''"
  by code_simp+

lemma prefix_test_passes:
  assumes "codec_ok E" and "ts_ok t" and "ts_ok now" and "t \<le> now"
  shows "applies_subject_prefix_from_pattern E t now ids"
proof -
  let ?c = "local_config (Some server_pattern) []"
  have cs: "ctx_subject (context_of test_ext ?c) = default_subject_config"
    by (simp add: context_of_def local_config_def default_config_def)
  have sj: "nm_subject (test_new (context_of test_ext ?c) ''relay@example.com'' ''ziel@example.com'' ''Server 187: Status Okay''
      ''Koerper'') = ''[Abs: Server 187] Server 187: Status Okay''"
    by (simp only: test_new_simps no_name test_prefix option.case cs)
  have ok: "validate_mail (target_payload (test_new (context_of test_ext ?c) ''relay@example.com'' ''ziel@example.com''
      ''Server 187: Status Okay'' ''Koerper'') \<lparr>rt_transport = [], rt_recipients = None\<rparr>) = Inr ()"
    unfolding validate_mail_ok_iff target_payload_simps sj by (simp add: test_addresses [simplified])
  have cr: "CHR 0x0D \<notin> set ''Server 187: Status Okay''" by simp
  from submitted_one [OF assms cr allowed_local_config test_routes(2) ok, of ids] show ?thesis
    unfolding applies_subject_prefix_from_pattern_def
    by (elim exE conjE) (simp add: expecting_def sj del: test_new_simps(3))
qed

lemma override_test_passes:
  assumes "codec_ok E" and "ts_ok t" and "ts_ok now" and "t \<le> now"
  shows "routing_overrides_recipient_and_transport E t now ids"
proof -
  let ?c = "local_config None [(''relay@example.com'', simple_rule ''graph'' [''override@example.com''])]"
  let ?T = "\<lparr>rt_transport = ''graph'', rt_recipients = Some [address_new ''override@example.com'']\<rparr>"
  let ?n = "test_new (context_of test_ext ?c) ''relay@example.com'' ''original@example.com'' ''Hallo'' ''Body''"
  have r: "route_of (context_of test_ext ?c) ?n = Deliver [?T]"
    by (simp add: test_routes(3) test_addresses [simplified] resolve_def simple_rule_def expand_def recipient_override_def
        bt_get_def Let_def) code_simp
  have ok: "validate_mail (target_payload ?n ?T) = Inr ()" by (simp add: no_name test_addresses [simplified])
  have cr: "CHR 0x0D \<notin> set ''Hallo''" by simp
  from submitted_one [OF assms cr allowed_local_config r ok, of ids] show ?thesis
    by (auto simp: routing_overrides_recipient_and_transport_def expecting_def)
qed

lemma reject_test_passes:
  assumes "codec_ok E" and "ts_ok t" and "ts_ok now" and "t \<le> now"
  shows "routing_rejects_unconfigured_sender E t now ids"
proof -
  let ?c = "local_config None [(''ok@example.com'', simple_rule ''graph'' [])]"
  let ?n = "test_new (context_of test_ext ?c) ''blocked@example.com'' ''x@example.com'' ''Hallo'' ''Body''"
  have r: "route_of (context_of test_ext ?c) ?n = Reject"
    by (simp add: test_routes(3) test_addresses [simplified] resolve_def bt_get_def)
  have cr: "CHR 0x0D \<notin> set ''Hallo''" by simp
  have "submit_mail ?c E (test_tenv t ids) ''blocked@example.com'' ''x@example.com'' ''Hallo'' ''Body'' =
      ([OK, OK, OK, OK, Custom 550 ''sender not permitted''], [])"
    unfolding submit_mail_eq [OF allowed_local_config] data_end_route build_test_mail [OF cr] sum.case r route.case prod.case ..
  moreover have e: "db_view E [] = Map.empty" by (simp add: fun_eq_iff db_view_def)
  from sq.fetch_ok [OF db_inv_nil [OF assms(1)] assms(3), of "calm now" 10] obtain ms where
    "fetch_due E (calm now) 10 now [] = Inr ms" "due_batch Map.empty 10 now ms" by (auto simp: sqlite_ops_def e)
  moreover from this(2) have "ms = []" by (auto simp: due_batch_def)
  ultimately show ?thesis by (simp add: routing_rejects_unconfigured_sender_def expecting_def)
qed


lemma due_batch_two:
  assumes "due_batch [i \<mapsto> a, j \<mapsto> b] limit now ms" and "i \<noteq> j" and "id_of a = i" and "id_of b = j"
    and "due now a" and "due now b" and "2 \<le> unat limit"
  shows "ms = [a, b] \<or> ms = [b, a]"
proof -
  have "{k. \<exists>m. [i \<mapsto> a, j \<mapsto> b] k = Some m \<and> due now m} = {i, j}" using assms(2,5,6) by auto
  with due_batchD(5) [OF assms(1)] assms(2,7) have "length ms = 2" by simp
  then obtain x y where ms: "ms = [x, y]" by (cases ms; cases "tl ms") auto
  have "x = a \<or> x = b" "y = a \<or> y = b" using due_batchD(2) [OF assms(1), of x] due_batchD(2) [OF assms(1), of y] ms
    by (auto split: if_splits)
  moreover have "id_of x \<noteq> id_of y" using due_batchD(1) [OF assms(1)] ms by simp
  ultimately show ?thesis using ms assms(3,4) by auto
qed

lemma fan_out_test_passes:
  assumes "codec_ok E" and "ts_ok t" and "ts_ok now" and "t \<le> now" and "ids 0 \<noteq> ids 1"
  shows "routing_fans_out_to_multiple_transports E t now ids"
proof -
  let ?c = "local_config None [(''alarm@example.com'', \<lparr>rr_transport = None, rr_recipients = [], rr_targets =
     [\<lparr>tc_transport = ''teams'', tc_recipients = [''ops@teams.local'']\<rparr>, \<lparr>tc_transport = ''ntfy'', tc_recipients = []\<rparr>]\<rparr>)]"
  let ?T = "\<lparr>rt_transport = ''teams'', rt_recipients = Some [address_new ''ops@teams.local'']\<rparr>"
  let ?N = "\<lparr>rt_transport = ''ntfy'', rt_recipients = None\<rparr>"
  let ?n = "test_new (context_of test_ext ?c) ''alarm@example.com'' ''ignored@example.com'' ''Alarm'' ''Body''"
  let ?a = "from_new (target_payload ?n ?T) t (ids 0)" and ?b = "from_new (target_payload ?n ?N) t (ids 1)"
  have r: "route_of (context_of test_ext ?c) ?n = Deliver [?T, ?N]"
    by (simp add: test_routes(3) test_addresses [simplified] resolve_def expand_def recipient_override_def
        bt_get_def Let_def) code_simp
  have st: "stored (test_tenv t ids) ?n 0 [?T, ?N] Map.empty = [?a, ?b]"
    using assms(5) by (simp add: Let_def test_tenv_def no_name test_addresses [simplified])
  have cr: "CHR 0x0D \<notin> set ''Alarm''" and ne: "[?a, ?b] \<noteq> []" by simp_all
  obtain q where q: "submit_mail ?c E (test_tenv t ids) ''alarm@example.com'' ''ignored@example.com'' ''Alarm'' ''Body'' =
      ([OK, OK, OK, OK, OK], q)" "db_inv E q" "db_view E q = map_of (map (\<lambda>m. (id_of m, m)) [?a, ?b])"
    by (rule submitted [OF assms(1,2) cr allowed_local_config r st ne])
  have v: "db_view E q = [ids 1 \<mapsto> ?b, ids 0 \<mapsto> ?a]" using q(3) by simp
  from sq.fetch_ok [OF q(2) assms(3), of "calm now" 10] obtain ms where
    f: "fetch_due E (calm now) 10 now q = Inr ms" and b: "due_batch [ids 1 \<mapsto> ?b, ids 0 \<mapsto> ?a] 10 now ms"
    by (auto simp: sqlite_ops_def v)
  have "ms = [?b, ?a] \<or> ms = [?a, ?b]"
    by (rule due_batch_two [OF b]) (use assms(4,5) in \<open>simp_all add: due_def live_def\<close>)
  then show ?thesis
    unfolding routing_fans_out_to_multiple_transports_def q(1)
    by (auto simp: f expecting_def less_char_def test_addresses [simplified])
qed

end
