(* ===== verification/Plugin_Tests.thy ===== *)
theory Plugin_Tests
  imports Plugin_Scripts Core_Tests
begin

text \<open>
  The tests of the crate \<open>plugin\<close> (\<open>manifest.rs\<close>, \<open>loader.rs\<close>, \<open>engine.rs\<close>, \<open>transport.rs\<close>) replayed on the
  model, with the recording client of the tests. JSON is printed by a small printer for values whose
  texts need no escapes, and the one text that a test parses is given its value.
\<close>

section \<open>JSON for the tests\<close>

fun json_text :: "dyn \<Rightarrow> string" where
  "json_text DUnit = ''null''"
| "json_text (DBool b) = (if b then ''true'' else ''false'')"
| "json_text (DInt i) = int_to_string i"
| "json_text (DStr s) = [CHR 0x22] @ s @ [CHR 0x22]"
| "json_text (DArray ds) = ''['' @ join_str '','' (map json_text ds) @ '']''"
| "json_text (DMap m) = ''{'' @ join_str '','' (map (\<lambda>(k, v). [CHR 0x22] @ k @ [CHR 0x22] @ '':'' @ json_text v) m) @ ''}''"
| "json_text (DOther s) = s"

definition token_answer :: string where
  "token_answer = ''{'' @ [CHR 0x22] @ ''access_token'' @ [CHR 0x22] @ '':'' @ [CHR 0x22] @ ''abc123'' @ [CHR 0x22] @ ''}''"

definition test_engine :: "dyn engine" where
  "test_engine =
     \<lparr>type_name = (\<lambda>_. ''()''), display = json_text, json_print = (\<lambda>d. Inr (json_text d)),
      json_parse = (\<lambda>s. if s = token_answer then Inr (DMap [(''access_token'', DStr ''abc123'')]) else Inl ''syntax''),
      to_dynamic = Inr\<rparr>"

section \<open>manifest.rs and loader.rs\<close>

definition parses_manifest_with_defaults :: bool where
  "parses_manifest_with_defaults =
     (let mf = \<lparr>mf_name = ''graph'', mf_version = ''0.1.0'', mf_kind = ''transport'', mf_capabilities = [''send''],
        mf_description = ''Graph transport'', mf_entry = default_entry\<rparr> in
      mf_name mf = ''graph'' \<and> mf_entry mf = ''script.rhai'' \<and> has_capability mf ''send'' \<and> \<not> has_capability mf ''receive'')"

definition plugin_dir_env_override_wins :: "bool \<Rightarrow> platform \<Rightarrow> bool" where
  "plugin_dir_env_override_wins dbg os =
     (plugin_dirs [''OXID_RELAY_PLUGIN_DIR'' \<mapsto> ''/custom/plugins''] (\<lambda>v. [v]) (\<lambda>a b. a @ ''/'' @ b) dbg os = [''/custom/plugins''])"

text \<open>A directory \<open>root\<close> with one plugin \<open>sample\<close> of the given manifest and script texts.\<close>

definition temp_plugin :: "string \<Rightarrow> string \<Rightarrow> file_system" where
  "temp_plugin mf scr =
     \<lparr>read_to_string = (\<lambda>p. if p = ''root/sample/plugin.toml'' then Inr mf
        else if p = ''root/sample/script.rhai'' then Inr scr else Inl ''not found''),
      read_dir = (\<lambda>d. if d = ''root'' then Some [Inr ''root/sample''] else None),
      is_dir = (\<lambda>p. p = ''root/sample''), path_exists = (\<lambda>p. p = ''root/sample/plugin.toml'' \<or> p = ''root/sample/script.rhai''),
      path_join = (\<lambda>a b. a @ ''/'' @ b)\<rparr>"

definition test_manifest :: "string \<Rightarrow> string list \<Rightarrow> manifest" where
  "test_manifest n caps =
     \<lparr>mf_name = n, mf_version = ''0.1.0'', mf_kind = ''transport'', mf_capabilities = caps, mf_description = [],
      mf_entry = default_entry\<rparr>"

definition discovers_plugin_in_directory :: bool where
  "discovers_plugin_in_directory =
     expecting (discover (temp_plugin ''m'' ''fn send(mail, config) { }'') (\<lambda>_. Inr (test_manifest ''sample'' [''send'']))
       (\<lambda>s. Inr s) ''root'') (\<lambda>ps. length ps = 1 \<and> mf_name (pl_manifest (ps ! 0)) = ''sample'')"

definition missing_directory_yields_empty :: bool where
  "missing_directory_yields_empty =
     expecting (discover (temp_plugin ''m'' ''s'') (\<lambda>_. Inr (test_manifest ''sample'' [''send''])) (\<lambda>s. Inr s)
       ''/does/not/exist/oxidrelay'') (\<lambda>ps. ps = [])"

definition compile_error_is_reported :: bool where
  "compile_error_is_reported =
     (case load_plugin (temp_plugin ''m'' ''fn send(mail, config) { this is not valid rhai'') (\<lambda>_. Inr (test_manifest ''broken'' []))
        (\<lambda>_. Inl ''unexpected end'' :: string + unit) ''root/sample'' of
        Inl (PluginCompile _) \<Rightarrow> True | _ \<Rightarrow> False)"

section \<open>engine.rs\<close>

definition http_post_records_request_and_returns_status :: bool where
  "http_post_records_request_and_returns_status =
     (case call_http_post test_engine (mock_execute [(''example.com'', 202, ''ok'')]) (DStr ''https://example.com/x'')
        (DMap (object_map [(''Content-Type'', DStr ''application/json'')])) (DStr ''{}'') [] of
        (seen, Inr (DMap res)) \<Rightarrow>
          bt_get res ''status'' = Some (DInt 202) \<and> length seen = 1 \<and> req_method (seen ! 0) = ''POST'' \<and>
          fst (req_headers (seen ! 0) ! 0) = ''Content-Type''
      | _ \<Rightarrow> False)"

section \<open>transport.rs\<close>

definition config_with :: "(string \<times> string) list \<Rightarrow> dyn btree_map" where
  "config_with pairs = fold (\<lambda>(k, v). bt_insert k (DStr v)) pairs []"

definition graph_config :: "dyn btree_map" where
  "graph_config = config_with [(''tenant_id'', ''tenant''), (''client_id'', ''client''), (''client_secret'', ''secret''),
     (''sender'', ''relay@example.com'')]"

text \<open>\<open>transport.send\<close> with the script's requests.\<close>

definition send_through ::
  "script \<Rightarrow> (string \<times> u16 \<times> string) list \<Rightarrow> dyn btree_map \<Rightarrow> http_request list \<times> (core_error + unit)" where
  "send_through s rules config =
     (let run = script_fn s test_engine (mock_execute rules) (DMap (mail_to_map sample_mail)) (DMap config) []
      in (fst run, case rhai_send (run_script test_engine (\<lambda>_. ''error'') (mock_execute rules))
            \<lparr>rh_manifest = test_manifest ''p'' [''send''], rh_ast = s, rh_config = config\<rparr> [] sample_mail of
              Some r \<Rightarrow> r | None \<Rightarrow> Inl (Transport ''panic'')))"

definition graph_plugin_sends_via_token_then_sendmail :: bool where
  "graph_plugin_sends_via_token_then_sendmail =
     (let (seen, r) = send_through Graph_Script
        [(''login.microsoftonline.com'', 200, token_answer), (''graph.microsoft.com'', 202, [])] graph_config in
      expecting r (\<lambda>_. length seen = 2 \<and> contains_str (req_url (seen ! 0)) ''login.microsoftonline.com'' \<and>
        contains_str (req_url (seen ! 1)) ''/sendMail'' \<and>
        list_ex (\<lambda>(k, v). k = ''Authorization'' \<and> v = ''Bearer abc123'') (req_headers (seen ! 1))))"

definition graph_plugin_propagates_token_failure :: bool where
  "graph_plugin_propagates_token_failure =
     (case snd (send_through Graph_Script [(''login.microsoftonline.com'', 401, ''denied'')] graph_config) of
        Inl (Transport _) \<Rightarrow> True | _ \<Rightarrow> False)"

definition teams_plugin_posts_to_webhook :: bool where
  "teams_plugin_posts_to_webhook =
     (let (seen, r) = send_through Teams_Script [(''teams.example.com'', 200, ''1'')]
        (config_with [(''webhook_url'', ''https://teams.example.com/hook/abc'')]) in
      expecting r (\<lambda>_. length seen = 1 \<and> req_method (seen ! 0) = ''POST'' \<and>
        contains_str (req_url (seen ! 0)) ''teams.example.com'' \<and>
        (case req_body (seen ! 0) of
           TextBody t \<Rightarrow> contains_str t ''Status'' \<and> contains_str t ''AdaptiveCard'' \<and> contains_str t ''attachments''
         | _ \<Rightarrow> False)))"

definition ntfy_plugin_publishes_to_topic :: bool where
  "ntfy_plugin_publishes_to_topic =
     (let (seen, r) = send_through Ntfy_Script [(''ntfy.example'', 200, [])]
        (config_with [(''server'', ''https://ntfy.example''), (''topic'', ''alerts'')]) in
      expecting r (\<lambda>_. length seen = 1 \<and> req_url (seen ! 0) = ''https://ntfy.example/alerts'' \<and>
        list_ex (\<lambda>(k, v). k = ''Title'' \<and> v = ''Status'') (req_headers (seen ! 0)) \<and>
        req_body (seen ! 0) = TextBody ''Okay''))"

section \<open>The model passes\<close>

lemma loader_tests_pass:
  "parses_manifest_with_defaults" "plugin_dir_env_override_wins dbg os" "discovers_plugin_in_directory"
  "missing_directory_yields_empty" "compile_error_is_reported"
proof -
  show "plugin_dir_env_override_wins dbg os" by (simp add: plugin_dir_env_override_wins_def plugin_dirs_def)
  show "parses_manifest_with_defaults" "discovers_plugin_in_directory"
    "missing_directory_yields_empty" "compile_error_is_reported" by code_simp+
qed

lemma engine_tests_pass: "http_post_records_request_and_returns_status"
  by code_simp

lemma transport_tests_pass:
  "graph_plugin_sends_via_token_then_sendmail" "graph_plugin_propagates_token_failure" "teams_plugin_posts_to_webhook"
  "ntfy_plugin_publishes_to_topic"
  by code_simp+

end
