(* ===== verification/Transport_Tests.thy ===== *)
theory Transport_Tests
  imports Transport_Smtp Core_Tests
begin

text \<open>
  The tests of \<open>transport-smtp/src/lib.rs\<close> as predicates on the model. Whether a text is a mailbox is
  decided by lettre: the tests hold for every parser that takes the addresses of the tests, with
  the display names in front of the angle brackets, and refuses a text without an at sign, and for
  every builder that takes a plain text body.
\<close>

section \<open>The tests\<close>

definition smtp_test_mail :: "datetime \<Rightarrow> mail_id \<Rightarrow> mail" where
  "smtp_test_mail t i = from_new
     \<lparr>nm_from = address_new ''relay@example.com'',
      nm_to = [\<lparr>email = ''ziel@example.com'', addr_name = Some ''Zustellung''\<rparr>], nm_subject = ''Test'',
      nm_body = ''Gr'' @ [CHR 0xC3, CHR 0xBC, CHR 0xC3, CHR 0x9F] @ ''e'', nm_transport = None\<rparr> t i"

definition builds_message_from_mail :: "('b, 'msg, 'n) lettre \<Rightarrow> datetime \<Rightarrow> mail_id \<Rightarrow> bool" where
  "builds_message_from_mail L t i = expecting (build_message L (smtp_test_mail t i)) (\<lambda>_. True)"

definition mailbox_with_display_name_parses :: "('b, 'msg, 'n) lettre \<Rightarrow> bool" where
  "mailbox_with_display_name_parses L =
     expecting (mailbox L \<lparr>email = ''a@b.de'', addr_name = Some ''Name''\<rparr>) (\<lambda>_. True)"

definition mailbox_plain_address_parses :: "('b, 'msg, 'n) lettre \<Rightarrow> bool" where
  "mailbox_plain_address_parses L = expecting (mailbox L (address_new ''a@b.de'')) (\<lambda>_. True)"

definition mailbox_rejects_garbage :: "('b, 'msg, 'n) lettre \<Rightarrow> bool" where
  "mailbox_rejects_garbage L = is_invalid_mail (mailbox L (address_new ''not an address''))"

definition build_message_rejects_invalid_recipient :: "('b, 'msg, 'n) lettre \<Rightarrow> datetime \<Rightarrow> mail_id \<Rightarrow> bool" where
  "build_message_rejects_invalid_recipient L t i =
     is_invalid_mail (build_message L ((smtp_test_mail t i)\<lparr>to_addrs := [address_new ''kein-at-zeichen'']\<rparr>))"

section \<open>The model passes\<close>

text \<open>What lettre documents of its parser, on the texts of the tests, and of its builder.\<close>

definition parser_takes :: "('b, 'msg, 'n) lettre \<Rightarrow> string list \<Rightarrow> bool" where
  "parser_takes L texts = list_all (\<lambda>s. \<exists>b. parse_mailbox L s = Inr b) texts"

definition parser_needs_at :: "('b, 'msg, 'n) lettre \<Rightarrow> bool" where
  "parser_needs_at L = (\<forall>s. CHR ''@'' \<notin> set s \<longrightarrow> (\<exists>e. parse_mailbox L s = Inl e))"

definition builder_takes_text :: "('b, 'msg, 'n) lettre \<Rightarrow> bool" where
  "builder_takes_text L = (\<forall>f s ts b. ts \<noteq> [] \<longrightarrow> (\<exists>msg. build_body L f s ts b = Inr msg))"

lemma mailbox_named:
  "mailbox L \<lparr>email = e, addr_name = Some n\<rparr> = map_err InvalidMail (parse_mailbox L (n @ '' <'' @ e @ ''>''))"
  "mailbox L (address_new e) = map_err InvalidMail (parse_mailbox L e)"
  by (simp_all add: mailbox_def address_new_def)

lemma smtp_tests_pass:
  assumes "parser_takes L [''a@b.de'', ''Name <a@b.de>'', ''relay@example.com'', ''Zustellung <ziel@example.com>'']"
    and "parser_needs_at L" and "builder_takes_text L"
  shows "builds_message_from_mail L t i" and "mailbox_with_display_name_parses L" and "mailbox_plain_address_parses L"
    and "mailbox_rejects_garbage L" and "build_message_rejects_invalid_recipient L t i"
proof -
  from assms(1) obtain a n r z where p: "parse_mailbox L ''a@b.de'' = Inr a" "parse_mailbox L ''Name <a@b.de>'' = Inr n"
    "parse_mailbox L ''relay@example.com'' = Inr r" "parse_mailbox L ''Zustellung <ziel@example.com>'' = Inr z"
    by (auto simp: parser_takes_def)
  have "CHR ''@'' \<notin> set ''not an address''" "CHR ''@'' \<notin> set ''kein-at-zeichen''" by simp_all
  with assms(2) obtain e1 e2 where e: "parse_mailbox L ''not an address'' = Inl e1" "parse_mailbox L ''kein-at-zeichen'' = Inl e2"
    unfolding parser_needs_at_def by blast
  obtain msg where msg: "build_body L r ''Test'' [z] (body (smtp_test_mail t i)) = Inr msg"
    using assms(3) unfolding builder_takes_text_def by blast
  show "builds_message_from_mail L t i"
    using msg by (simp add: builds_message_from_mail_def build_message_def smtp_test_mail_def mailbox_named p expecting_def)
  show "mailbox_with_display_name_parses L" "mailbox_plain_address_parses L"
    by (simp_all add: mailbox_with_display_name_parses_def mailbox_plain_address_parses_def mailbox_named p expecting_def)
  show "mailbox_rejects_garbage L"
    by (simp add: mailbox_rejects_garbage_def mailbox_named e is_invalid_mail_def)
  show "build_message_rejects_invalid_recipient L t i"
    by (simp add: build_message_rejects_invalid_recipient_def build_message_def smtp_test_mail_def mailbox_named p e is_invalid_mail_def)
qed

end
