(* ===== verification/Spec2Isabelle.thy ===== *)
theory Spec2Isabelle
  imports Relay_Shell System_Properties Dispatcher_Tests Ingress_Tests Plugin_Tests Transport_Tests
begin

text \<open>
  OxidRelay, a mail relay (crates under \<open>src/crates\<close>): an SMTP listener takes messages from hosts of
  a local network, labels and routes them, and stores one mail per target in a SQLite queue; a
  dispatcher polls the queue and hands due mails to transports, SMTP or scripted plugins, with
  bounded concurrency, retries and burial. This development models the sources function by
  function and proves what makes each component, and their composition, correct.

  \<^bold>\<open>Theories and sources.\<close>
  \<^item> \<open>Prelude\<close>, \<open>Rust_Text\<close>, \<open>Keyed_Maps\<close>: what the sources use of the Rust language and library.
    Saturating and checked word arithmetic, the plain addition that panics in debug builds,
    \<open>Result\<close> as a sum with \<open>Inl\<close> the error and \<open>?\<close> as \<open>res_bind\<close>; \<open>trim\<close>, \<open>replace\<close>, \<open>contains\<close>, \<open>{:?}\<close> on
    UTF-8 text as byte strings; \<open>BTreeMap\<close> and \<open>HashMap\<close>, both interpretations of the locale
    \<open>key_map\<close>.
  \<^item> \<open>Core_Message\<close> (\<open>core/src/message.rs\<close>, \<open>error.rs\<close>), \<open>Core_Routing\<close>, \<open>Core_Auth\<close>, \<open>Core_Subject\<close>,
    \<open>Core_Config\<close> (\<open>core/src/config.rs\<close>): the domain records and one definition per function.
  \<^item> \<open>Core_Queue\<close> (\<open>core/src/queue.rs\<close>): the trait as the record \<open>queue_ops\<close> and its contract as the
    locale \<open>mail_queue\<close>, over an abstract store from ids to mails: what a lookup gives after each
    operation, what every operation keeps of the invariant, what a due batch is.
  \<^item> \<open>Queue_Sqlite\<close>, \<open>Sqlite_Properties\<close> (\<open>queue-sqlite/src/lib.rs\<close>): the table as a list of rows of text
    columns, each SQL statement written out on them; the interpretation \<open>sq\<close> discharges the
    contract, with \<open>db_inv\<close> the invariant of the table and \<open>db_view\<close> the store it holds.
  \<^item> \<open>Retry_Policy\<close> (\<open>dispatcher/src/retry.rs\<close>), \<open>Dispatcher\<close> (\<open>dispatcher/src/lib.rs\<close>,
    \<open>core/src/transport.rs\<close>): \<open>deliver\<close> and \<open>recover\<close> as functions, \<open>run\<close> and \<open>tick\<close> as the machine \<open>step\<close>
    with one action per await point, so that any interleaving of claims, deliveries, enqueues,
    faults, panics and kills is a sequence of actions; \<open>reachable\<close> are its states. \<open>Dispatcher_Run\<close>
    proves the machine correct over the contract (locale \<open>mail_dispatch\<close>), \<open>Dispatcher_Liveness\<close> that
    its ticks drain the queue, \<open>Dispatcher_Faults\<close> what a kill costs and when a mail is given up,
    \<open>Dispatcher_Properties\<close> states it for the SQLite queue, and \<open>Relay_Spec\<close> gives an abstract
    specification, the simulation (locale \<open>relay_refinement\<close>) and the channels mails go out on.
  \<^item> \<open>Ingress_Smtp\<close>, \<open>Ingress_Properties\<close> (\<open>ingress-smtp/src/lib.rs\<close>): the callbacks of the SMTP handler and
    whole sessions of them; the locale \<open>mail_intake\<close> proves the enqueue loop over the contract.
  \<^item> \<open>Transport_Smtp\<close> (\<open>transport-smtp/src/lib.rs\<close>), \<open>Plugin_Host\<close> (\<open>plugin/src\<close>): the two kinds of
    transport, plugin discovery and the functions scripts may call, as computations on the world an
    HTTP client acts on. \<open>Plugin_Scripts\<close> (\<open>plugins/*/script.rhai\<close>): the three scripts that are shipped,
    over these functions and the part of Rhai they use.
  \<^item> \<open>Relay_Main\<close> (\<open>oxid-relay/src/main.rs\<close>, \<open>logging/src/lib.rs\<close>): start-up in its order, the instance lock,
    the table of transports. \<open>Relay_Shell\<close>: the whole run until the dispatcher stops, in the foreground or as
    a Windows service, the signals and the log subscriber.
  \<^item> \<open>Relay_System\<close>, \<open>System_Properties\<close>: the running relay as one machine \<open>sys_step\<close>, the dispatcher and any
    number of SMTP connections on one queue. The loop of \<open>data_end\<close> is taken apart at its queue calls,
    so connections, deliveries, faults and kills interleave between them; run without interruption
    its events are \<open>data_end\<close>. The locale \<open>whole_relay\<close> joins dispatcher and intake over one queue contract.
  \<^item> This theory: a message from the last line of its data to its delivery, and what becomes of its text.
  \<^item> \<open>Core_Tests\<close>, \<open>Queue_Tests\<close>, \<open>Dispatcher_Tests\<close>, \<open>Ingress_Tests\<close>, \<open>Plugin_Tests\<close>, \<open>Transport_Tests\<close>: the
    unit tests of the crates as predicates on the model, and that it satisfies them. Those of the queue, the
    dispatcher and the ingress hold for every codec, id and clock within the contracts.
  \<^item> \<open>Sample_Codec\<close> and the \<open>sample\<close> definitions: concrete instances that satisfy the hypotheses.

  \<^bold>\<open>What is shown.\<close> For the queue: the round trip of a mail through text columns, the exact effect of
  every operation and error path, and what a batch contains. For the dispatcher: exclusive and
  bounded deliveries, attempt budgets without overflow, that no mail is lost or altered, that
  \<open>Sent\<close> means accepted by a transport and, without a lost record, exactly once; the outcome of a
  delivery on every branch, recovery, termination of a tick and delivery of what is due, also by
  ticks whose batch is too small for it; and that it implements the abstract relay. For the scripts:
  when a send counts as delivered, which requests they make, and what these do not reveal. For the
  ingress: what an \<open>OK\<close> promises, the fan-out of the routing, access control over whole sessions. For
  the system, under every interleaving: each mail in the queue was there at the start or came from a
  permitted connection, a mail acknowledged to a client stays in the queue with its message and can be
  delivered, also after faults and kills, and with the graph plugin \<open>Sent\<close> means the service took
  it; a kill repeats a delivery at worst, and no mail that has a transport is buried before its
  attempts are used. For the configuration: routing, authentication
  and validation decisions, exact backoff arithmetic, subjects. For the start: the parameters of a
  running relay, the lock, the transports. Where the code does less than it means to (a subject
  format that loses the subject, a lock that misses its database, an undecodable row that stops
  the queue, a broken plugin that drops its neighbours, a concurrency that no semaphore has), a property states what it does.

  \<^bold>\<open>Hypotheses.\<close> Third-party code is a parameter. \<open>codec_ok\<close> (part of \<open>db_inv\<close>): JSON and UUID text decode to
  what was encoded, and RFC 3339 text of the years 0000 to 9999 decodes and sorts like the
  times. \<open>chrono_ok\<close>: the documented ranges of \<open>from_std\<close> and of adding and subtracting durations.
  \<open>action_ok\<close>: the clock shows such a year, also with the longest delay added and the lease
  subtracted. \<open>params_ok\<close> and \<open>budget\<close>: proper durations, at least one attempt, no stored mail beyond
  its attempts; a relay that starts satisfies the first, an empty table the second. Transports,
  parsers, the regular expression engine, the network and the scripts are arbitrary. Of the SMTP server
  it is used that the end of data comes only after a \<open>mail\<close> callback that answered \<open>OK\<close>. \<open>fair\<close> (of \<open>queue_drains\<close>):
  no mail arrives, the queue has no faults, the transports accept. A transport that never answers is a
  delivery without its \<open>Finish\<close>.

  \<^bold>\<open>Bounds.\<close> No loop needs fuel: \<open>tick_measure\<close> decreases with every step of a tick (three per mail to
  claim, two for one that waits for a permit, one per delivery), and the recursions over lists
  are structural. \<open>queue_drains\<close> needs as many ticks as there are unfinished mails, one per tick being the
  least a tick finishes. Integers keep their width (\<open>u16\<close>, \<open>u32\<close>, \<open>u64\<close>, 128-bit ids), times are nanoseconds.

  \<^bold>\<open>Not modelled.\<close> \<open>http-api\<close> is an empty crate. The command line parser, the async runtime, the
  signal handlers and the service manager are the operating system's and libraries', here parameters;
  the log output has no effect on the state. Of the Rhai engine only what the shipped scripts use is
  modelled, and its compiler is a parameter. A send is one exchange for the dispatcher; the
  network behind a request, and SQLite inside one statement, are not looked into. Tests that
  only exercise a third-party parser are not replayed: unknown fields in TOML, networks in CIDR
  notation, the round trip of a JSON value, the directives of a log filter.
\<close>

section \<open>Ingress and dispatcher on one queue\<close>

text \<open>Accepting a message is a sequence of \<open>Ingress\<close> steps of the dispatcher's machine.\<close>

lemma enqueue_targets_reachable:
  assumes "reachable P dbg Q C I q0 s" and "\<And>new t i io. ts_ok t \<Longrightarrow> P (Ingress new t i io)"
    and "\<forall>j. ts_ok (t_now (env j))"
  shows "reachable P dbg Q C I q0 (s\<lparr>queue_of := snd (enqueue_targets Q env new k ts n (queue_of s))\<rparr>)"
  using assms(1)
proof (induction ts arbitrary: k n s)
  case (Cons t ts)
  show ?case
  proof (cases "validate_mail (target_payload new t)")
    case (Inl e)
    with Cons show ?thesis by simp
  next
    case (Inr u)
    let ?m = "from_new (target_payload new t) (t_now (env k)) (t_uuid (env k))"
    let ?a = "Ingress (target_payload new t) (t_now (env k)) (t_uuid (env k)) (t_io (env k))"
    let ?s = "s\<lparr>queue_of := fst (q_enqueue Q (t_io (env k)) ?m (queue_of s))\<rparr>"
    have "step dbg Q C I ?a s = Some ?s" by simp
    from reachable.next_step [OF Cons.prems assms(2) this] assms(3) have r: "reachable P dbg Q C I q0 ?s" by simp
    from Cons.IH [OF r, of "Suc k"] Inr show ?thesis
      by (cases "q_enqueue Q (t_io (env k)) ?m (queue_of s)"; cases "snd (q_enqueue Q (t_io (env k)) ?m (queue_of s))")
        (simp_all del: validate_mail_ok_iff)
  qed
qed simp

lemma data_end_reachable:
  assumes "reachable (action_ok I) dbg Q C I q0 s" and "\<forall>j. ts_ok (t_now (env j))"
  shows "reachable (action_ok I) dbg Q C I q0 (s\<lparr>queue_of := fst (data_end X ctx Q env h (queue_of s))\<rparr>)"
proof (cases "build_new_mail X ctx h")
  case (Inl e)
  with assms show ?thesis by (simp add: data_end_route)
next
  case (Inr new)
  show ?thesis
  proof (cases "route_of ctx new")
    case Reject
    with Inr assms show ?thesis by (simp add: data_end_route)
  next
    case (Deliver ts)
    have "fst (data_end X ctx Q env h (queue_of s)) = snd (enqueue_targets Q env new 0 ts 0 (queue_of s))"
      using Inr Deliver by (simp add: data_end_route split: prod.split)
    with enqueue_targets_reachable [OF assms(1) _ assms(2), of new 0 ts 0] show ?thesis by simp
  qed
qed


section \<open>End to end\<close>

text \<open>The mails behind an \<open>OK\<close>.\<close>

lemma accepted_mails:
  assumes "db_inv E q" and "\<forall>j. ts_ok (t_now (env j))" and "data_end X ctx (sqlite_ops E) env h q = (q', OK)"
  shows "\<exists>ms. ms \<noteq> [] \<and> (\<forall>m \<in> set ms. db_view E q (id_of m) = None \<and> db_view E q' (id_of m) = Some m \<and>
     status m = Pending \<and> (\<exists>j. next_attempt_at m = t_now (env j)))"
proof -
  obtain new where new: "build_new_mail X ctx h = Inr new"
    using assms(3) by (cases "build_new_mail X ctx h") (auto simp: data_end_route)
  obtain ts where ts: "route_of ctx new = Deliver ts"
    using assms(3) new by (cases "route_of ctx new") (auto simp: data_end_route)
  let ?ms = "stored env new 0 ts (db_view E q)"
  obtain q1 where q1: "data_end X ctx (sqlite_ops E) env h q = (q1, if ?ms = [] then INTERNAL_ERROR else OK)"
    "db_inv E q1" "db_view E q1 = db_view E q ++ map_of (map (\<lambda>m. (id_of m, m)) ?ms)" "?ms = [] \<longrightarrow> q1 = q"
    by (rule data_end_Deliver [OF new ts assms(1,2)])
  from q1(1) assms(3) have ne: "?ms \<noteq> []" and eq: "q1 = q'" by (auto split: if_splits)
  have "map_of (map (\<lambda>m. (id_of m, m)) ?ms) (id_of m) = Some m" if "m \<in> set ?ms" for m
    by (rule map_of_is_SomeI) (use that stored_distinct [of env new 0 ts "db_view E q"] in \<open>auto simp: comp_def\<close>)
  then have "db_view E q' (id_of m) = Some m" if "m \<in> set ?ms" for m
    using that q1(3) eq by simp
  moreover have "db_view E q (id_of m) = None" if "m \<in> set ?ms" for m by (rule stored_fresh [OF that])
  moreover have "status m = Pending \<and> (\<exists>j. next_attempt_at m = t_now (env j))" if "m \<in> set ?ms" for m
    using stored_valid [OF that] by auto
  ultimately show ?thesis using ne by blast
qed

text \<open>A message the ingress answered with \<open>OK\<close> while the dispatcher was polling is stored as at least
  one new mail, and every one of these mails can be delivered: if the queue works and the
  transports accept the unfinished mails, there is a run of the dispatcher back to polling after
  which each is \<open>Sent\<close> with the content it was stored with, however many mails wait before it.\<close>

lemma accepted_mail_is_delivered:
  assumes "reachable (action_ok I) dbg (sqlite_ops E) C I q0 s" and "db_inv E q0" and "params_ok C I"
    and "budget (max_attempts (retry (disp_config I))) (db_view E q0)" and "phase_of s = Polling"
    and "\<forall>j. ts_ok (t_now (tenv j)) \<and> t_now (tenv j) \<le> now"
    and "data_end X ctx (sqlite_ops E) tenv h (queue_of s) = (q', OK)"
    and "0 < concurrency (disp_config I)" and "concurrency (disp_config I) \<le> max_permits"
    and "0 < batch_size (disp_config I)"
    and "action_ok I (Reclaim now io)" and "io_fault io = None"
    and "denv_ok I env" and "io_fault (d_io env) = None"
    and "\<And>i m m'. db_view E q' i = Some m \<Longrightarrow> status m \<notin> {Sent, Dead} \<Longrightarrow> content m' = content m \<Longrightarrow>
           success (exchange_of I env m')"
  shows "\<exists>ms as s'. ms \<noteq> [] \<and>
     (\<forall>m \<in> set ms. db_view E (queue_of s) (id_of m) = None \<and> db_view E q' (id_of m) = Some m) \<and>
     steps dbg (sqlite_ops E) C I as (s\<lparr>queue_of := q'\<rparr>) = Some s' \<and> phase_of s' = Polling \<and>
     (\<forall>m \<in> set ms. \<exists>m'. db_view E (queue_of s') (id_of m) = Some m' \<and> status m' = Sent \<and> content m' = content m)"
proof -
  let ?s = "s\<lparr>queue_of := q'\<rparr>"
  have unfin: "(status m \<notin> {Sent, Dead}) = (\<not> terminal m)" for m by (auto simp: terminal_def)
  have ts: "\<forall>j. ts_ok (t_now (tenv j))" using assms(6) by simp
  from data_end_reachable [OF assms(1) ts, of X ctx h] assms(7)
  have r: "reachable (action_ok I) dbg (sqlite_ops E) C I q0 ?s" by simp
  from dq.reachable_inv [OF r assms(2-4)] have q: "db_inv E (queue_of ?s)"
    and inv: "sys_inv I (db_view E (queue_of ?s)) ?s" by simp_all
  from dq.reachable_inv [OF assms(1-4)] have q1: "db_inv E (queue_of s)" by simp
  from accepted_mails [OF q1 ts assms(7)] obtain ms where ms: "ms \<noteq> []"
    "\<forall>m \<in> set ms. db_view E (queue_of s) (id_of m) = None \<and> db_view E q' (id_of m) = Some m \<and>
       status m = Pending \<and> (\<exists>j. next_attempt_at m = t_now (tenv j))" by blast
  have due: "due now m" if "m \<in> set ms" for m
    using ms(2) that assms(6) by (auto simp: due_def live_def)
  have ph: "phase_of ?s = Polling" using assms(5) by simp
  have acc: "\<forall>i m m'. db_view E (queue_of ?s) i = Some m \<and> \<not> terminal m \<and> content m' = content m \<longrightarrow>
      success (exchange_of I env m')"
    using assms(15) [unfolded unfin] by auto
  from dq.polls_deliver [OF q inv assms(3) ph assms(8-14) acc] obtain as s' where
    run: "steps dbg (sqlite_ops E) C I as ?s = Some s'" "phase_of s' = Polling"
    and sent: "\<forall>i m. db_view E (queue_of ?s) i = Some m \<and> due now m \<longrightarrow>
        (\<exists>m'. db_view E (queue_of s') i = Some m' \<and> status m' = Sent \<and> content m' = content m)" by blast
  have "\<exists>m'. db_view E (queue_of s') (id_of m) = Some m' \<and> status m' = Sent \<and> content m' = content m"
    if "m \<in> set ms" for m using sent ms(2) that due [OF that] by simp
  with ms run show ?thesis by blast
qed

lemma sample_accept:
  "\<exists>q' m. data_end sample_ext (context_of sample_ext sample_config) sample_ops sample_tenv ready [] = (q', OK) \<and>
     db_view sample_codec q' = [0 \<mapsto> m] \<and> transport m = None"
proof -
  let ?ctx = "context_of sample_ext sample_config"
  let ?new = "\<lparr>nm_from = address_new (strip_brackets ''<a@b>''), nm_to = [address_new (strip_brackets ''<c@d>'')],
      nm_subject = ''hi'', nm_body = ''text'', nm_transport = None\<rparr>"
  let ?ts = "[\<lparr>rt_transport = [], rt_recipients = None\<rparr>]"
  have ts: "\<forall>j. ts_ok (t_now (sample_tenv j))" by simp
  have e: "db_view sample_codec [] = Map.empty" by (simp add: fun_eq_iff db_view_def)
  obtain q' where "data_end sample_ext ?ctx sample_ops sample_tenv ready [] = (q', OK)"
    "db_view sample_codec q' = [0 \<mapsto> from_new (target_payload ?new (hd ?ts)) 5 0]"
    by (rule data_end_Deliver [OF sample_build sample_route db_inv_empty ts])
      (simp add: e Let_def sample_brackets sample_trim)
  then show ?thesis by auto
qed

section \<open>The message keeps its text\<close>

lemma build_new_mail_text:
  assumes "build_new_mail X ctx h = Inr new" and "msg_parse X (data_buf h) = Some p"
    and "\<And>name s. contains_str (render (ctx_subject ctx) name s) s"
  shows "contains_str (nm_subject new) (case msg_subject X p of Some s \<Rightarrow> s | None \<Rightarrow> [])"
    and "nm_body new = (case msg_body_text X p of Some t \<Rightarrow> t | None \<Rightarrow> utf8_lossy X (data_buf h))"
proof -
  have "contains_str s s" for s unfolding contains_str_iff by (rule exI [of _ "[]"], rule exI [of _ "[]"]) simp
  then show "contains_str (nm_subject new) (case msg_subject X p of Some s \<Rightarrow> s | None \<Rightarrow> [])"
    using assms by (auto simp: build_new_mail_def Let_def split: option.splits)
  show "nm_body new = (case msg_body_text X p of Some t \<Rightarrow> t | None \<Rightarrow> utf8_lossy X (data_buf h))"
    using assms by (auto simp: build_new_mail_def Let_def)
qed

lemma data_end_new_mail:
  assumes "db_inv E q" and "\<forall>j. ts_ok (t_now (env j))" and "data_end X ctx (sqlite_ops E) env h q = (q', r)"
    and "db_view E q i = None" and "db_view E q' i = Some m"
  obtains new where "build_new_mail X ctx h = Inr new"
    and "subject m = nm_subject new" and "body m = nm_body new"
proof -
  have ne: "q' \<noteq> q" using assms(4,5) by auto
  obtain new where new: "build_new_mail X ctx h = Inr new"
    using assms(3) ne by (cases "build_new_mail X ctx h") (auto simp: data_end_route)
  obtain ts where ts: "route_of ctx new = Deliver ts"
    using assms(3) new ne by (cases "route_of ctx new") (auto simp: data_end_route)
  let ?ms = "stored env new 0 ts (db_view E q)"
  obtain q1 where q1: "data_end X ctx (sqlite_ops E) env h q = (q1, if ?ms = [] then INTERNAL_ERROR else OK)"
    "db_view E q1 = db_view E q ++ map_of (map (\<lambda>m. (id_of m, m)) ?ms)"
    by (rule data_end_Deliver [OF new ts assms(1,2)])
  from q1(1) assms(3) have "q1 = q'" by simp
  with q1(2) assms(4,5) have "map_of (map (\<lambda>m. (id_of m, m)) ?ms) i = Some m"
    by (auto simp: map_add_Some_iff)
  then have "m \<in> set ?ms" by (auto dest!: map_of_SomeD)
  from stored_valid [OF this] obtain j where
    "m = from_new (target_payload new (ts ! j)) (t_now (env (0 + j))) (t_uuid (env (0 + j)))" by blast
  then show thesis using that [OF new] by simp
qed

text \<open>C29: With a configuration that loads and whose subject formats keep the two placeholders apart,
  every mail an incoming message becomes carries its text: the subject, labelled or not and for
  any sender name, contains the subject of the message, and the body is the message's text.\<close>

theorem text_survives_ingress:
  assumes "load rd toml path = Inr c" and "bt_wf (sc_senders (cfg_subject c))"
    and "\<And>sender. \<not> contains_str (format_for (cfg_subject c) sender) ''%name%original%'' \<and>
            \<not> contains_str (format_for (cfg_subject c) sender) ''%original%name%''"
    and "db_inv E q" and "\<forall>j. ts_ok (t_now (env j))"
    and "data_end X (context_of X c) (sqlite_ops E) env h q = (q', r)"
    and "db_view E q i = None" and "db_view E q' i = Some m" and "msg_parse X (data_buf h) = Some p"
  shows "contains_str (subject m) (case msg_subject X p of Some s \<Rightarrow> s | None \<Rightarrow> []) \<and>
     body m = (case msg_body_text X p of Some t \<Rightarrow> t | None \<Rightarrow> utf8_lossy X (data_buf h))"
proof -
  from load_validates [OF assms(1)] have "validate_subject (cfg_subject c) = Inr ()"
    by (auto simp: validate_def res_bind_eq_Inr_iff split: if_splits)
  with validate_subject_ok [OF assms(2)] have
    "contains_str (format_for (cfg_subject c) sender) ''%original%''" for sender by blast
  with assms(3) have keep: "contains_str (render (ctx_subject (context_of X c)) name s) s" for name s
    by (auto simp: context_of_def intro!: render_contains)
  obtain new where new: "build_new_mail X (context_of X c) h = Inr new"
    and m: "subject m = nm_subject new" "body m = nm_body new"
    by (rule data_end_new_mail [OF assms(4-8)])
  from build_new_mail_text [OF new assms(9) keep] m show ?thesis by simp
qed

theorem text_survives_ingress_witness:
  "\<exists>q' m. data_end sample_ext (context_of sample_ext sample_config) sample_ops sample_tenv ready [] = (q', OK) \<and>
     db_view sample_codec q' 0 = Some m \<and> contains_str (subject m) ''hi'' \<and> body m = ''text''"
proof -
  obtain q' m where q': "data_end sample_ext (context_of sample_ext sample_config) sample_ops sample_tenv ready [] = (q', OK)"
    and m: "db_view sample_codec q' 0 = Some m" using sample_accept by auto
  have l: "load (\<lambda>_. Inr []) (\<lambda>_. Inr sample_config) ''c.toml'' = Inr sample_config"
    by (simp add: load_def from_toml_str_def sample_validates)
  have f: "sc_senders (cfg_subject sample_config) = []" "sc_format (cfg_subject sample_config) = default_subject_format"
    by (simp_all add: sample_config_def default_config_def default_subject_config_def)
  have ff: "format_for (cfg_subject sample_config) sender = default_subject_format" for sender
    by (simp add: format_for_def f bt_get_def)
  have c: "\<not> contains_str default_subject_format ''%name%original%'' \<and> \<not> contains_str default_subject_format ''%original%name%''"
    by code_simp
  have e: "db_view sample_codec [] 0 = None" by (simp add: db_view_def)
  have t: "\<forall>j. ts_ok (t_now (sample_tenv j))" by simp
  have p: "msg_parse sample_ext (data_buf ready) = Some (''hi'', ''text'')" by (simp add: sample_ext_def ready_def)
  have "contains_str (subject m) (case msg_subject sample_ext (''hi'', ''text'') of Some s \<Rightarrow> s | None \<Rightarrow> []) \<and>
     body m = (case msg_body_text sample_ext (''hi'', ''text'') of Some t \<Rightarrow> t | None \<Rightarrow> utf8_lossy sample_ext (data_buf ready))"
    by (rule text_survives_ingress [OF l _ _ db_inv_empty t q' e m p])
      (simp_all only: f ff c bt_wf_def sorted_wrt.simps list.map sorted_wrt.simps distinct.simps, simp_all)
  with q' m show ?thesis by (simp add: sample_ext_def)
qed


definition overlap_config :: config where
  "overlap_config = sample_config\<lparr>cfg_subject := (cfg_subject sample_config)\<lparr>sc_format := ''%name%original%''\<rparr>\<rparr>"

lemma overlap_simps [simp]:
  "sc_format (cfg_subject overlap_config) = ''%name%original%''" "sc_senders (cfg_subject overlap_config) = []"
  by (simp_all add: overlap_config_def sample_config_def default_config_def default_subject_config_def)


end
